(* ===== verification/Rtc_Prelude.thy ===== *)
theory Rtc_Prelude
  imports Main "HOL-Library.Word" "HOL-Library.Monad_Syntax"
begin

text \<open>
  Shared vocabulary of the development.

  The modelled C++ code works on raw byte buffers, fixed-width integers and
  \<^verbatim>\<open>RTC_DCHECK\<close> assertions.  This theory fixes how those appear in HOL:
  \<^item> fixed-width integers are words (\<open>u8\<close>, \<open>u16\<close>, \<open>u32\<close>, \<open>u64\<close>); a signed integer is a
    word read with \<open>sint\<close>; \<^verbatim>\<open>size_t\<close> is \<open>nat\<close>, with the wrap-around of a subtraction
    written out (\<open>size_sub\<close>);
  \<^item> a computation that may run into undefined behaviour (an access outside a buffer) or
    into a failing \<^verbatim>\<open>RTC_CHECK\<close>/\<^verbatim>\<open>RTC_DCHECK\<close> is an \<open>option\<close>: \<open>None\<close> is the
    fault, so a theorem of the form \<open>f x \<noteq> None\<close> is a memory-safety and assertion-freedom
    statement.  The boolean a C++ method returns is part of the value inside \<open>Some\<close>;
  \<^item> \<open>put\<close> and \<open>slice\<close> are the two normal forms to which all buffer writes and reads
    are reduced, with \<open>overwrite\<close> the effect of a write.
\<close>

unbundle bit_operations_syntax

type_synonym u8 = "8 word"
type_synonym u16 = "16 word"
type_synonym u32 = "32 word"
type_synonym u64 = "64 word"
type_synonym i16 = "16 word"
type_synonym i32 = "32 word"
type_synonym i64 = "64 word"

named_theorems wire_simps \<open>layout of the wire images of the packets\<close>
named_theorems read_simps \<open>reading from a buffer with a known layout\<close>
named_theorems write_simps \<open>writes reduced to the put normal form\<close>
named_theorems safe_intros \<open>freedom from faults, rule by rule over the monadic code\<close>
named_theorems defined_simps \<open>when a primitive access is defined\<close>

subsection \<open>Checks and sizes\<close>

definition dcheck :: "bool \<Rightarrow> unit option" where
  "dcheck b = (if b then Some () else None)"

definition size_sub :: "nat \<Rightarrow> nat \<Rightarrow> nat" where
  "size_sub a b = (if b \<le> a then a - b else 2 ^ 64 + a - b)"

text \<open>\<open>vector::resize\<close>: truncates, or appends value-initialised elements.\<close>

definition resize :: "'a list \<Rightarrow> nat \<Rightarrow> 'a \<Rightarrow> 'a list" where
  "resize xs n x = take n xs @ replicate (n - length xs) x"

subsection \<open>Raw buffer accesses\<close>

definition load :: "u8 list \<Rightarrow> nat \<Rightarrow> u8 option" where
  "load data i = (if i < length data then Some (data ! i) else None)"

definition store :: "u8 list \<Rightarrow> nat \<Rightarrow> u8 \<Rightarrow> u8 list option" where
  "store data i v = (if i < length data then Some (data[i := v]) else None)"

fun copy_to :: "u8 list \<Rightarrow> nat \<Rightarrow> u8 list \<Rightarrow> u8 list option" where
  "copy_to data i [] = Some data"
| "copy_to data i (b # bs) = do { data \<leftarrow> store data i b; copy_to data (Suc i) bs }"

text \<open>
  The two loop shapes of the packet code: \<open>write_each\<close> writes the items of a vector one after
  the other, advancing the index by \<open>step\<close> each time
  (\<^verbatim>\<open>for (const auto& x : xs) { ... *index += step; }\<close>); \<open>read_each\<close> fills a vector of \<open>n\<close> items
  from consecutive positions.
\<close>

fun write_each ::
    "('a \<Rightarrow> u8 list \<Rightarrow> nat \<Rightarrow> u8 list option) \<Rightarrow> nat \<Rightarrow> 'a list \<Rightarrow> u8 list \<Rightarrow> nat \<Rightarrow>
      (u8 list \<times> nat) option" where
  "write_each w step [] data i = Some (data, i)"
| "write_each w step (x # xs) data i = do {
     data \<leftarrow> w x data i;
     write_each w step xs data (i + step)
   }"

fun read_each ::
    "(u8 list \<Rightarrow> nat \<Rightarrow> 'a option) \<Rightarrow> nat \<Rightarrow> nat \<Rightarrow> u8 list \<Rightarrow> nat \<Rightarrow> ('a list \<times> nat) option" where
  "read_each r step 0 data i = Some ([], i)"
| "read_each r step (Suc n) data i = do {
     x \<leftarrow> r data i;
     (xs, i) \<leftarrow> read_each r step n data (i + step);
     Some (x # xs, i)
   }"

text \<open>The same loop for items whose size on the wire varies: each writer returns the new index.\<close>

fun write_all ::
    "('a \<Rightarrow> u8 list \<Rightarrow> nat \<Rightarrow> (u8 list \<times> nat) option) \<Rightarrow> 'a list \<Rightarrow> u8 list \<Rightarrow> nat \<Rightarrow>
      (u8 list \<times> nat) option" where
  "write_all w [] data i = Some (data, i)"
| "write_all w (x # xs) data i = do {
     (data, i) \<leftarrow> w x data i;
     write_all w xs data i
   }"

subsection \<open>Normal forms\<close>

definition overwrite :: "u8 list \<Rightarrow> nat \<Rightarrow> u8 list \<Rightarrow> u8 list" where
  "overwrite data i bs = take i data @ bs @ drop (i + length bs) data"

definition put :: "u8 list \<Rightarrow> nat \<Rightarrow> u8 list \<Rightarrow> u8 list option" where
  "put data i bs = (if i + length bs \<le> length data then Some (overwrite data i bs) else None)"

definition slice :: "u8 list \<Rightarrow> nat \<Rightarrow> nat \<Rightarrow> u8 list option" where
  "slice data i n = (if i + n \<le> length data then Some (take n (drop i data)) else None)"

lemma dcheck_True [simp]: "dcheck True = Some ()"
  by (simp add: dcheck_def)

lemma dcheck_False [simp]: "dcheck False = None"
  by (simp add: dcheck_def)

lemma dcheck_eq_Some [simp]: "dcheck b = Some u \<longleftrightarrow> b"
  by (simp add: dcheck_def)

lemma bind_dcheck: "b \<Longrightarrow> Option.bind (dcheck b) f = f ()"
  by simp

lemma size_sub_le [simp]: "b \<le> a \<Longrightarrow> size_sub a b = a - b"
  by (simp add: size_sub_def)

lemma length_resize [simp]: "length (resize xs n x) = n"
  by (simp add: resize_def)

lemma length_overwrite [simp]:
  "i + length bs \<le> length data \<Longrightarrow> length (overwrite data i bs) = length data"
  by (simp add: overwrite_def)

lemma overwrite_overwrite:
  "j = i + length bs \<Longrightarrow> j + length cs \<le> length data \<Longrightarrow>
    overwrite (overwrite data i bs) j cs = overwrite data i (bs @ cs)"
  by (simp add: overwrite_def min.absorb2 ac_simps)

lemma take_overwrite [simp]:
  "i \<le> length data \<Longrightarrow> take i (overwrite data i bs) = take i data"
  by (simp add: overwrite_def)

lemma take_overwrite_full:
  "i + length bs \<le> length data \<Longrightarrow> n = i + length bs \<Longrightarrow>
    take n (overwrite data i bs) = take i data @ bs"
  by (simp add: overwrite_def min.absorb2)

lemma put_put [write_simps]:
  assumes "j = i + length bs"
  shows "Option.bind (put data i bs) (\<lambda>d. Option.bind (put d j cs) f) =
    Option.bind (put data i (bs @ cs)) f"
  using assms by (auto simp: put_def overwrite_overwrite)

lemma put_put_last [write_simps]:
  assumes "j = i + length bs"
  shows "Option.bind (put data i bs) (\<lambda>d. put d j cs) = put data i (bs @ cs)"
  using assms by (auto simp: put_def overwrite_overwrite)

lemma put_Nil: "i \<le> length data \<Longrightarrow> put data i [] = Some data"
  by (simp add: put_def overwrite_def)

lemma put_fits: "i + length bs \<le> length data \<Longrightarrow> put data i bs = Some (overwrite data i bs)"
  by (simp add: put_def)

lemma store_put [write_simps]: "store data i v = put data i [v]"
  by (auto simp: store_def put_def overwrite_def upd_conv_take_nth_drop)

lemma copy_to_put:
  "bs \<noteq> [] \<or> i \<le> length data \<Longrightarrow> copy_to data i bs = put data i bs"
proof (induction data i bs rule: copy_to.induct)
  case (1 data i)
  then show ?case by (simp add: put_Nil)
next
  case (2 data i b bs)
  show ?case
  proof (cases "i < length data")
    case True
    then have "copy_to data i (b # bs) = put (overwrite data i [b]) (Suc i) bs"
      using "2.IH" by (simp add: store_put put_fits)
    also have "\<dots> = put data i (b # bs)"
      using True by (simp add: put_def overwrite_overwrite)
    finally show ?thesis .
  next
    case False
    then show ?thesis by (simp add: store_put put_def)
  qed
qed

lemma put_copy_to [write_simps]:
  assumes "j = i + length bs"
  shows "Option.bind (put data i bs) (\<lambda>d. Option.bind (copy_to d j cs) f) =
    Option.bind (put data i (bs @ cs)) f"
  using assms by (auto simp: put_def copy_to_put overwrite_overwrite)

lemma slice_append2 [read_simps]:
  "length xs \<le> i \<Longrightarrow> slice (xs @ ys) i n = slice ys (i - length xs) n"
  by (auto simp: slice_def)

lemma slice_append1 [read_simps]:
  "length xs = n \<Longrightarrow> slice (xs @ ys) 0 n = Some xs"
  by (simp add: slice_def)

lemma slice_all [read_simps]: "length xs = n \<Longrightarrow> slice xs 0 n = Some xs"
  by (simp add: slice_def)

lemma slice_Cons [read_simps]: "0 < i \<Longrightarrow> slice (x # ys) i n = slice ys (i - 1) n"
  by (cases i) (auto simp: slice_def)

lemma slice_fits: "i + n \<le> length data \<Longrightarrow> slice data i n = Some (take n (drop i data))"
  by (simp add: slice_def)

lemma slice_take: "i + n \<le> k \<Longrightarrow> k \<le> length data \<Longrightarrow> slice (take k data) i n = slice data i n"
  by (simp add: slice_def drop_take min_def)

lemma load_fits: "i < length data \<Longrightarrow> load data i = Some (data ! i)"
  by (simp add: load_def)

lemma load_append2 [read_simps]:
  "length xs \<le> i \<Longrightarrow> load (xs @ ys) i = load ys (i - length xs)"
  by (auto simp: load_def nth_append)

lemma load_append1: "i < length xs \<Longrightarrow> load (xs @ ys) i = load xs i"
  by (simp add: load_def nth_append)

lemma load_Cons_0 [read_simps]: "load (x # ys) 0 = Some x"
  by (simp add: load_def)

lemma load_Cons [read_simps]: "0 < i \<Longrightarrow> load (x # ys) i = load ys (i - 1)"
  by (cases i) (auto simp: load_def)

subsection \<open>Freedom from faults\<close>

lemma bind_safe [safe_intros]:
  "m \<noteq> None \<Longrightarrow> (\<And>x. m = Some x \<Longrightarrow> f x \<noteq> None) \<Longrightarrow> Option.bind m f \<noteq> None"
  by (cases m) auto

lemma if_safe [safe_intros]:
  "(c \<Longrightarrow> a \<noteq> None) \<Longrightarrow> (\<not> c \<Longrightarrow> b \<noteq> None) \<Longrightarrow> (if c then a else b) \<noteq> None"
  by simp

lemma case_prod_safe [safe_intros]:
  "(\<And>a b. x = (a, b) \<Longrightarrow> f a b \<noteq> None) \<Longrightarrow> (case x of (a, b) \<Rightarrow> f a b) \<noteq> None"
  by (cases x) auto

lemma Some_safe [safe_intros]: "Some x \<noteq> None"
  by simp

lemma dcheck_safe [safe_intros]: "b \<Longrightarrow> dcheck b \<noteq> None"
  by simp

lemma load_defined [defined_simps]: "load data i \<noteq> None \<longleftrightarrow> i < length data"
  by (simp add: load_def)

lemma slice_defined [defined_simps]: "slice data i n \<noteq> None \<longleftrightarrow> i + n \<le> length data"
  by (simp add: slice_def)

lemma map_option_defined [defined_simps]: "map_option f m \<noteq> None \<longleftrightarrow> m \<noteq> None"
  by simp

subsection \<open>Loops over items\<close>

lemma length_concat_const:
  "(\<And>x. x \<in> set xs \<Longrightarrow> length (enc x) = n) \<Longrightarrow> length (concat (map enc xs)) = n * length xs"
  by (induction xs) auto

lemma put_write_each:
  assumes "\<And>x data i. x \<in> set xs \<Longrightarrow> w x data i = put data i (enc x)"
    and "\<And>x. x \<in> set xs \<Longrightarrow> length (enc x) = step"
    and "j = i + length bs"
  shows "Option.bind (put data i bs) (\<lambda>d. Option.bind (write_each w step xs d j) f) =
    Option.bind (put data i (bs @ concat (map enc xs))) (\<lambda>d. f (d, j + step * length xs))"
  using assms
proof (induction xs arbitrary: bs j)
  case Nil
  then show ?case by simp
next
  case (Cons x xs)
  have "Option.bind (put data i bs) (\<lambda>d. Option.bind (write_each w step (x # xs) d j) f)
      = Option.bind (put data i (bs @ enc x))
          (\<lambda>d. Option.bind (write_each w step xs d (j + step)) f)"
    using Cons.prems by (simp add: put_put)
  also have "\<dots> = Option.bind (put data i ((bs @ enc x) @ concat (map enc xs)))
      (\<lambda>d. f (d, j + step + step * length xs))"
    using Cons.prems by (intro Cons.IH) simp_all
  finally show ?case by (simp add: algebra_simps)
qed

lemma put_write_all:
  fixes f :: "u8 list \<times> nat \<Rightarrow> 'c option"
  assumes "\<And>x data i bs (g :: u8 list \<times> nat \<Rightarrow> 'c option). x \<in> set xs \<Longrightarrow> Option.bind (put data i bs) (\<lambda>d. Option.bind (w x d (i + length bs)) g)
      = Option.bind (put data i (bs @ enc x)) (\<lambda>d. g (d, i + length bs + length (enc x)))"
    and "j = i + length bs"
  shows "Option.bind (put data i bs) (\<lambda>d. Option.bind (write_all w xs d j) f) =
    Option.bind (put data i (bs @ concat (map enc xs))) (\<lambda>d. f (d, j + length (concat (map enc xs))))"
  using assms
proof (induction xs arbitrary: bs j)
  case Nil
  then show ?case by simp
next
  case (Cons x xs)
  have "Option.bind (put data i bs) (\<lambda>d. Option.bind (write_all w (x # xs) d j) f)
      = Option.bind (put data i (bs @ enc x))
          (\<lambda>d. Option.bind (write_all w xs d (j + length (enc x))) f)"
    using Cons.prems(1) [of x data i bs "\<lambda>p. Option.bind (write_all w xs (fst p) (snd p)) f"] Cons.prems(2)
    by (simp add: case_prod_beta)
  also have "\<dots> = Option.bind (put data i ((bs @ enc x) @ concat (map enc xs)))
      (\<lambda>d. f (d, j + length (enc x) + length (concat (map enc xs))))"
    using Cons.prems by (intro Cons.IH) simp_all
  finally show ?case by (simp add: algebra_simps)
qed

lemma put_write_each_last:
  assumes "\<And>x data i. x \<in> set xs \<Longrightarrow> w x data i = put data i (enc x)"
    and "\<And>x. x \<in> set xs \<Longrightarrow> length (enc x) = step"
    and "j = i + length bs"
  shows "Option.bind (put data i bs) (\<lambda>d. write_each w step xs d j) =
    Option.bind (put data i (bs @ concat (map enc xs))) (\<lambda>d. Some (d, j + step * length xs))"
  using put_write_each [OF assms, where f = Some] by simp

lemma read_each_wire:
  assumes "\<And>x ys zs. x \<in> set xs \<Longrightarrow> r (ys @ enc x @ zs) (length ys) = Some x"
    and "\<And>x. x \<in> set xs \<Longrightarrow> length (enc x) = step"
    and "n = length xs" "off = length ys"
  shows "read_each r step n (ys @ concat (map enc xs) @ zs) off = Some (xs, off + step * length xs)"
  using assms
proof (induction xs arbitrary: ys n off)
  case Nil
  then show ?case by simp
next
  case (Cons x xs)
  have "r (ys @ enc x @ concat (map enc xs) @ zs) off = Some x"
    using Cons.prems by simp
  moreover have "read_each r step (length xs) ((ys @ enc x) @ concat (map enc xs) @ zs) (off + step)
      = Some (xs, off + step + step * length xs)"
    using Cons.prems by (intro Cons.IH) simp_all
  ultimately show ?case using Cons.prems(3) by simp
qed

lemma read_each_total:
  assumes "\<And>i. i + step \<le> length data \<Longrightarrow> r data i \<noteq> None" and "off + step * n \<le> length data"
  shows "\<exists>xs. read_each r step n data off = Some (xs, off + step * n) \<and> length xs = n"
  using assms(2)
proof (induction n arbitrary: off)
  case 0
  then show ?case by simp
next
  case (Suc n)
  obtain x where "r data off = Some x"
    using assms(1) [of off] Suc.prems by auto
  moreover obtain xs where "read_each r step n data (off + step) = Some (xs, off + step + step * n)"
      "length xs = n"
    using Suc.IH [of "off + step"] Suc.prems by (auto simp: algebra_simps)
  ultimately show ?case by (simp add: algebra_simps)
qed

lemma read_each_safe [safe_intros]:
  assumes "off + step * n \<le> length data"
    and "\<And>i. i + step \<le> length data \<Longrightarrow> r data i \<noteq> None"
  shows "read_each r step n data off \<noteq> None"
  using read_each_total [of step data r off n] assms by auto

lemma read_each_Some:
  "read_each r step n data off = Some (xs, i) \<Longrightarrow> length xs = n \<and> i = off + step * n"
  by (induction r step n data off arbitrary: xs i rule: read_each.induct)
    (auto split: bind_splits simp: algebra_simps)

subsection \<open>Word facts\<close>

lemma take_bit_word_id:
  fixes w :: "'a::len word"
  assumes "unat w < 2 ^ n"
  shows "take_bit n w = w"
proof -
  have "take_bit n w = take_bit n (word_of_nat (unat w))" by simp
  also have "\<dots> = word_of_nat (take_bit n (unat w))" by (simp only: take_bit_of_nat)
  also have "take_bit n (unat w) = unat w" using assms by (simp add: take_bit_nat_eq_self)
  finally show ?thesis by simp
qed

lemma bit_imp_less:
  fixes w :: "'a::len word"
  shows "unat w < 2 ^ n \<Longrightarrow> bit w i \<Longrightarrow> i < n"
  using take_bit_word_id [of w n] by (metis bit_take_bit_iff)

lemma and_1_iff: "(w :: 'a::len word) AND 1 \<noteq> 0 \<longleftrightarrow> bit w 0"
  by (simp add: and_one_eq mod_2_eq_odd bit_0)

end
