(* ===== verification/Byte_IO.thy ===== *)
theory Byte_IO
  imports Rtc_Prelude
begin

text \<open>
  Model of \<^verbatim>\<open>modules/rtp_rtcp/source/byte_io.h\<close>: \<^verbatim>\<open>ByteReader\<close> and \<^verbatim>\<open>ByteWriter\<close>.
  The generic loops (\<open>InternalReadBigEndian\<close>, \<open>WriteBigEndian\<close> and their little-endian
  counterparts) and the specialisations for 2, 4 and 8 bytes are modelled separately, as the
  source has them; the lemmas show that every one of them is the same function of the bytes
  (\<open>be_val\<close>, \<open>be_bytes\<close>), that reading back a written value gives its low \<open>8 * B\<close> bits, and
  that the signed reader is two's complement.
\<close>

subsection \<open>Generic loops\<close>

text \<open>\<^verbatim>\<open>for (i = 0; i < B; ++i) val |= T(data[i]) << ((B - 1 - i) * 8)\<close>, from index \<open>i\<close> on.\<close>

function InternalReadBigEndian ::
    "nat \<Rightarrow> nat \<Rightarrow> u8 list \<Rightarrow> nat \<Rightarrow> 'a::len word \<Rightarrow> 'a word option" where
  "InternalReadBigEndian B i data off val =
     (if i < B then do {
        b \<leftarrow> load data (off + i);
        InternalReadBigEndian B (Suc i) data off (val OR push_bit ((B - 1 - i) * 8) (ucast b))
      } else Some val)"
  by pat_completeness auto
termination
  by (relation "measure (\<lambda>(B, i, _). B - i)") auto

function InternalReadLittleEndian ::
    "nat \<Rightarrow> nat \<Rightarrow> u8 list \<Rightarrow> nat \<Rightarrow> 'a::len word \<Rightarrow> 'a word option" where
  "InternalReadLittleEndian B i data off val =
     (if i < B then do {
        b \<leftarrow> load data (off + i);
        InternalReadLittleEndian B (Suc i) data off (val OR push_bit (i * 8) (ucast b))
      } else Some val)"
  by pat_completeness auto
termination
  by (relation "measure (\<lambda>(B, i, _). B - i)") auto

function WriteBigEndian ::
    "nat \<Rightarrow> nat \<Rightarrow> u8 list \<Rightarrow> nat \<Rightarrow> 'a::len word \<Rightarrow> u8 list option" where
  "WriteBigEndian B i data off val =
     (if i < B then do {
        data \<leftarrow> store data (off + i) (ucast (drop_bit ((B - 1 - i) * 8) val));
        WriteBigEndian B (Suc i) data off val
      } else Some data)"
  by pat_completeness auto
termination
  by (relation "measure (\<lambda>(B, i, _). B - i)") auto

function WriteLittleEndian ::
    "nat \<Rightarrow> nat \<Rightarrow> u8 list \<Rightarrow> nat \<Rightarrow> 'a::len word \<Rightarrow> u8 list option" where
  "WriteLittleEndian B i data off val =
     (if i < B then do {
        data \<leftarrow> store data (off + i) (ucast (drop_bit (i * 8) val));
        WriteLittleEndian B (Suc i) data off val
      } else Some data)"
  by pat_completeness auto
termination
  by (relation "measure (\<lambda>(B, i, _). B - i)") auto

declare InternalReadBigEndian.simps [simp del] InternalReadLittleEndian.simps [simp del]
  WriteBigEndian.simps [simp del] WriteLittleEndian.simps [simp del]

subsection \<open>Signed readers and writers\<close>

definition SignExtend :: "nat \<Rightarrow> 'a::len word \<Rightarrow> 'a word" where
  "SignExtend B val =
     (let kMsb = ucast (drop_bit ((B - 1) * 8) val) :: u8
      in if kMsb AND 0x80 \<noteq> 0
         then let kUsedBitsMask = push_bit ((B mod (LENGTH('a) div 8)) * 8) 1 - 1
              in NOT kUsedBitsMask OR val
         else val)"

definition ReinterpretAsSigned :: "'a::len word \<Rightarrow> 'a word" where
  "ReinterpretAsSigned unsigned_val =
     (let highest = push_bit (LENGTH('a) - 1) 1
      in if unsigned_val AND highest \<noteq> 0
         then (unsigned_val AND NOT highest) OR highest
         else unsigned_val)"

definition ReadBigEndianSigned :: "nat \<Rightarrow> u8 list \<Rightarrow> nat \<Rightarrow> 'a::len word option" where
  "ReadBigEndianSigned B data off = do {
     unsigned_val \<leftarrow> InternalReadBigEndian B 0 data off 0;
     let unsigned_val = (if B < LENGTH('a) div 8 then SignExtend B unsigned_val
                         else unsigned_val);
     Some (ReinterpretAsSigned unsigned_val)
   }"

subsection \<open>Specialisations for 1, 2, 4 and 8 bytes\<close>

definition ReadBE8 :: "u8 list \<Rightarrow> nat \<Rightarrow> u8 option" where
  "ReadBE8 data off = load data off"

definition WriteBE8 :: "u8 list \<Rightarrow> nat \<Rightarrow> u8 \<Rightarrow> u8 list option" where
  "WriteBE8 data off val = store data off val"

definition ReadBE16 :: "u8 list \<Rightarrow> nat \<Rightarrow> u16 option" where
  "ReadBE16 data off = do {
     b0 \<leftarrow> load data off; b1 \<leftarrow> load data (off + 1);
     Some (push_bit 8 (ucast b0) OR ucast b1)
   }"

definition WriteBE16 :: "u8 list \<Rightarrow> nat \<Rightarrow> u16 \<Rightarrow> u8 list option" where
  "WriteBE16 data off val = do {
     data \<leftarrow> store data off (ucast (drop_bit 8 val));
     store data (off + 1) (ucast val)
   }"

definition ReadBE32 :: "u8 list \<Rightarrow> nat \<Rightarrow> u32 option" where
  "ReadBE32 data off = do {
     b0 \<leftarrow> load data off; b1 \<leftarrow> load data (off + 1);
     b2 \<leftarrow> load data (off + 2); b3 \<leftarrow> load data (off + 3);
     Some (push_bit 24 (ucast b0) OR push_bit 16 (ucast b1) OR push_bit 8 (ucast b2) OR ucast b3)
   }"

definition WriteBE32 :: "u8 list \<Rightarrow> nat \<Rightarrow> u32 \<Rightarrow> u8 list option" where
  "WriteBE32 data off val = do {
     data \<leftarrow> store data off (ucast (drop_bit 24 val));
     data \<leftarrow> store data (off + 1) (ucast (drop_bit 16 val));
     data \<leftarrow> store data (off + 2) (ucast (drop_bit 8 val));
     store data (off + 3) (ucast val)
   }"

definition ReadBE64 :: "u8 list \<Rightarrow> nat \<Rightarrow> u64 option" where
  "ReadBE64 data off = do {
     b0 \<leftarrow> load data off; b1 \<leftarrow> load data (off + 1);
     b2 \<leftarrow> load data (off + 2); b3 \<leftarrow> load data (off + 3);
     b4 \<leftarrow> load data (off + 4); b5 \<leftarrow> load data (off + 5);
     b6 \<leftarrow> load data (off + 6); b7 \<leftarrow> load data (off + 7);
     Some (push_bit 56 (ucast b0) OR push_bit 48 (ucast b1) OR push_bit 40 (ucast b2) OR
           push_bit 32 (ucast b3) OR push_bit 24 (ucast b4) OR push_bit 16 (ucast b5) OR
           push_bit 8 (ucast b6) OR ucast b7)
   }"

definition WriteBE64 :: "u8 list \<Rightarrow> nat \<Rightarrow> u64 \<Rightarrow> u8 list option" where
  "WriteBE64 data off val = do {
     data \<leftarrow> store data off (ucast (drop_bit 56 val));
     data \<leftarrow> store data (off + 1) (ucast (drop_bit 48 val));
     data \<leftarrow> store data (off + 2) (ucast (drop_bit 40 val));
     data \<leftarrow> store data (off + 3) (ucast (drop_bit 32 val));
     data \<leftarrow> store data (off + 4) (ucast (drop_bit 24 val));
     data \<leftarrow> store data (off + 5) (ucast (drop_bit 16 val));
     data \<leftarrow> store data (off + 6) (ucast (drop_bit 8 val));
     store data (off + 7) (ucast val)
   }"

text \<open>The instances with a partial size that the packet code uses.\<close>

definition ReadBE24 :: "u8 list \<Rightarrow> nat \<Rightarrow> u32 option" where
  "ReadBE24 data off = InternalReadBigEndian 3 0 data off 0"

definition WriteBE24 :: "u8 list \<Rightarrow> nat \<Rightarrow> u32 \<Rightarrow> u8 list option" where
  "WriteBE24 data off val = WriteBigEndian 3 0 data off val"

definition ReadBE24s :: "u8 list \<Rightarrow> nat \<Rightarrow> i32 option" where
  "ReadBE24s data off = ReadBigEndianSigned 3 data off"

subsection \<open>Abstract byte order\<close>

definition be_val :: "u8 list \<Rightarrow> 'a::len word" where
  "be_val bs = foldl (\<lambda>v b. push_bit 8 v OR ucast b) 0 bs"

definition be_bytes :: "nat \<Rightarrow> 'a::len word \<Rightarrow> u8 list" where
  "be_bytes B v = map (\<lambda>i. ucast (drop_bit ((B - 1 - i) * 8) v)) [0..<B]"

lemma length_be_bytes [simp]: "length (be_bytes B v) = B"
  by (simp add: be_bytes_def)

lemma be_bytes_not_Nil [simp]: "0 < B \<Longrightarrow> be_bytes B v \<noteq> []"
  using length_be_bytes [of B v] by fastforce

lemma be_val_snoc: "be_val (bs @ [b]) = push_bit 8 (be_val bs) OR ucast b"
  by (simp add: be_val_def)

lemma be_val_Nil [simp]: "be_val [] = 0"
  by (simp add: be_val_def)

lemma bit_be_val:
  "bit (be_val bs :: 'a::len word) k \<longleftrightarrow>
     k < LENGTH('a) \<and> k < 8 * length bs \<and> bit (rev bs ! (k div 8)) (k mod 8)"
proof (induction bs arbitrary: k rule: rev_induct)
  case Nil
  then show ?case by simp
next
  case (snoc b bs)
  show ?case
  proof (cases "k < 8")
    case True
    then show ?thesis by (auto simp: be_val_snoc bit_simps)
  next
    case False
    then obtain j where k: "k = 8 + j" by (metis add.commute le_Suc_ex not_less)
    have "\<not> bit b (8 + j)" using bit_imp_le_length [of b "8 + j"] by auto
    moreover have "(8 + j) div 8 = Suc (j div 8)" by simp
    ultimately show ?thesis
      by (auto simp: be_val_snoc bit_simps k snoc.IH)
  qed
qed


lemma nth_be_bytes: "i < B \<Longrightarrow> be_bytes B v ! i = ucast (drop_bit ((B - 1 - i) * 8) v)"
  by (simp add: be_bytes_def)

lemma be_val_be_bytes: "be_val (be_bytes B v) = take_bit (8 * B) (v :: 'a::len word)"
proof (rule bit_word_eqI)
  fix k assume k: "k < LENGTH('a)"
  show "bit (be_val (be_bytes B v) :: 'a word) k \<longleftrightarrow> bit (take_bit (8 * B) v) k"
  proof (cases "k < 8 * B")
    case True
    then have "k div 8 < B" by auto
    then have "rev (be_bytes B v) ! (k div 8) = ucast (drop_bit (k div 8 * 8) v)"
      by (simp add: rev_nth nth_be_bytes)
    moreover have "k div 8 * 8 + k mod 8 = k" by simp
    ultimately show ?thesis using k True
      by (simp add: bit_be_val bit_simps)
  qed (use k in \<open>simp add: bit_be_val bit_simps\<close>)
qed

lemma be_val_be_bytes_full [simp]:
  "LENGTH('a) \<le> 8 * B \<Longrightarrow> be_val (be_bytes B v) = (v :: 'a::len word)"
  by (simp add: be_val_be_bytes take_bit_word_eq_self)

lemma be_bytes_be_val:
  assumes "length bs = B" and "8 * B \<le> LENGTH('a)"
  shows "be_bytes B (be_val bs :: 'a::len word) = bs"
proof (rule nth_equalityI)
  fix i assume "i < length (be_bytes B (be_val bs :: 'a word))"
  then have i: "i < B" by simp
  show "be_bytes B (be_val bs :: 'a word) ! i = bs ! i"
  proof (rule bit_word_eqI)
    fix k assume k: "k < LENGTH(8)"
    have "(B - 1 - i) * 8 + k < 8 * B" using i k by simp
    moreover have "((B - 1 - i) * 8 + k) div 8 = B - 1 - i"
      and "((B - 1 - i) * 8 + k) mod 8 = k" using k by auto
    ultimately show "bit (be_bytes B (be_val bs :: 'a word) ! i) k \<longleftrightarrow> bit (bs ! i) k"
      using assms i k by (simp add: nth_be_bytes bit_simps bit_be_val rev_nth)
  qed
qed (simp add: assms)

lemma be_val_Cons:
  "(be_val (b # bs) :: 'a::len word) = push_bit (8 * length bs) (ucast b) OR be_val bs"
proof (induction bs rule: rev_induct)
  case Nil
  then show ?case by (simp add: be_val_def)
next
  case (snoc c bs)
  have "(be_val (b # bs @ [c]) :: 'a word) = push_bit 8 (be_val (b # bs)) OR ucast c"
    using be_val_snoc [of "b # bs" c] by simp
  then show ?case
    by (simp add: snoc.IH be_val_snoc push_bit_or or.assoc)
qed

subsection \<open>Every reader and writer in normal form\<close>

lemma take_drop_Suc: "i < length xs \<Longrightarrow> take (Suc n) (drop i xs) = xs ! i # take n (drop (Suc i) xs)"
  by (simp add: Cons_nth_drop_Suc [symmetric])

lemma InternalReadBigEndian_from:
  "i \<le> B \<Longrightarrow> InternalReadBigEndian B i data off val =
     (if i < B then map_option (\<lambda>bs. val OR be_val bs) (slice data (off + i) (B - i)) else Some val)"
proof (induction B i data off val rule: InternalReadBigEndian.induct)
  case (1 B i data off val)
  show ?case
  proof (cases "i < B \<and> off + i < length data")
    case True
    let ?v = "val OR push_bit ((B - 1 - i) * 8) (ucast (data ! (off + i)))"
    have "InternalReadBigEndian B i data off val = InternalReadBigEndian B (Suc i) data off ?v"
      using True by (subst InternalReadBigEndian.simps) (simp add: load_fits)
    also have "\<dots> = (if Suc i < B then map_option (\<lambda>bs. ?v OR be_val bs)
        (slice data (off + Suc i) (B - Suc i)) else Some ?v)"
      using True by (intro "1.IH") (auto simp: load_fits)
    also have "\<dots> = map_option (\<lambda>bs. val OR be_val bs) (slice data (off + i) (B - i))"
      using True take_drop_Suc [of "off + i" data "B - Suc i"]
      by (cases "Suc i = B")
        (auto simp: slice_def be_val_Cons or.assoc min.absorb2 ac_simps Suc_diff_Suc)
    finally show ?thesis using True by simp
  next
    case False
    then show ?thesis using "1.prems"
      by (subst InternalReadBigEndian.simps) (auto simp: load_def slice_def)
  qed
qed

lemma InternalReadBigEndian_slice:
  "0 < B \<Longrightarrow> InternalReadBigEndian B 0 data off 0 = map_option be_val (slice data off B)"
  by (simp add: InternalReadBigEndian_from)

lemma InternalReadLittleEndian_from:
  "i \<le> B \<Longrightarrow> InternalReadLittleEndian B i data off val =
     (if i < B then map_option (\<lambda>bs. val OR push_bit (8 * i) (be_val (rev bs)))
        (slice data (off + i) (B - i)) else Some val)"
proof (induction B i data off val rule: InternalReadLittleEndian.induct)
  case (1 B i data off val)
  show ?case
  proof (cases "i < B \<and> off + i < length data")
    case True
    let ?v = "val OR push_bit (i * 8) (ucast (data ! (off + i)))"
    have "InternalReadLittleEndian B i data off val = InternalReadLittleEndian B (Suc i) data off ?v"
      using True by (subst InternalReadLittleEndian.simps) (simp add: load_fits)
    also have "\<dots> = (if Suc i < B then map_option (\<lambda>bs. ?v OR push_bit (8 * Suc i) (be_val (rev bs)))
        (slice data (off + Suc i) (B - Suc i)) else Some ?v)"
      using True by (intro "1.IH") (auto simp: load_fits)
    also have "\<dots> = map_option (\<lambda>bs. val OR push_bit (8 * i) (be_val (rev bs)))
        (slice data (off + i) (B - i))"
      using True take_drop_Suc [of "off + i" data "B - Suc i"]
      by (cases "Suc i = B")
        (auto simp: slice_def be_val_snoc be_val_Cons push_bit_or ac_simps or.assoc Suc_diff_Suc)
    finally show ?thesis using True by simp
  next
    case False
    then show ?thesis using "1.prems"
      by (subst InternalReadLittleEndian.simps) (auto simp: load_def slice_def)
  qed
qed

lemma InternalReadLittleEndian_slice:
  "0 < B \<Longrightarrow> InternalReadLittleEndian B 0 data off 0 =
     map_option (\<lambda>bs. be_val (rev bs)) (slice data off B)"
  by (simp add: InternalReadLittleEndian_from)

lemma WriteBigEndian_from:
  "i \<le> B \<Longrightarrow> WriteBigEndian B i data off val =
     (if i < B then put data (off + i) (drop i (be_bytes B val)) else Some data)"
proof (induction B i data off val rule: WriteBigEndian.induct)
  case (1 B i data off val)
  show ?case
  proof (cases "i < B \<and> off + i < length data")
    case True
    let ?b = "ucast (drop_bit ((B - 1 - i) * 8) val) :: u8"
    let ?d = "overwrite data (off + i) [?b]"
    have b: "drop i (be_bytes B val) = ?b # drop (Suc i) (be_bytes B val)"
      using True by (simp add: Cons_nth_drop_Suc [symmetric] nth_be_bytes)
    have "WriteBigEndian B i data off val = WriteBigEndian B (Suc i) ?d off val"
      using True by (subst WriteBigEndian.simps) (simp add: store_put put_fits)
    also have "\<dots> = (if Suc i < B then put ?d (off + Suc i) (drop (Suc i) (be_bytes B val))
        else Some ?d)"
      using True by (intro "1.IH") (auto simp: store_put put_fits)
    also have "\<dots> = put data (off + i) (drop i (be_bytes B val))"
      using True by (cases "Suc i = B") (auto simp: put_def overwrite_overwrite b)
    finally show ?thesis using True by simp
  next
    case False
    then show ?thesis using "1.prems"
      by (subst WriteBigEndian.simps) (auto simp: store_def put_def)
  qed
qed

lemma WriteBigEndian_put: "0 < B \<Longrightarrow> WriteBigEndian B 0 data off val = put data off (be_bytes B val)"
  by (simp add: WriteBigEndian_from)

lemma WriteLittleEndian_from:
  "i \<le> B \<Longrightarrow> WriteLittleEndian B i data off val =
     (if i < B then put data (off + i) (drop i (rev (be_bytes B val))) else Some data)"
proof (induction B i data off val rule: WriteLittleEndian.induct)
  case (1 B i data off val)
  show ?case
  proof (cases "i < B \<and> off + i < length data")
    case True
    let ?b = "ucast (drop_bit (i * 8) val) :: u8"
    let ?d = "overwrite data (off + i) [?b]"
    have b: "drop i (rev (be_bytes B val)) = ?b # drop (Suc i) (rev (be_bytes B val))"
      using True by (simp add: Cons_nth_drop_Suc [symmetric] nth_be_bytes rev_nth)
    have "WriteLittleEndian B i data off val = WriteLittleEndian B (Suc i) ?d off val"
      using True by (subst WriteLittleEndian.simps) (simp add: store_put put_fits)
    also have "\<dots> = (if Suc i < B then put ?d (off + Suc i) (drop (Suc i) (rev (be_bytes B val)))
        else Some ?d)"
      using True by (intro "1.IH") (auto simp: store_put put_fits)
    also have "\<dots> = put data (off + i) (drop i (rev (be_bytes B val)))"
      using True by (cases "Suc i = B") (auto simp: put_def overwrite_overwrite b)
    finally show ?thesis using True by simp
  next
    case False
    then show ?thesis using "1.prems"
      by (subst WriteLittleEndian.simps) (auto simp: store_def put_def)
  qed
qed

lemma WriteLittleEndian_put:
  "0 < B \<Longrightarrow> WriteLittleEndian B 0 data off val = put data off (rev (be_bytes B val))"
  by (simp add: WriteLittleEndian_from)

lemma slice_Suc: "slice data i (Suc n) = do { b \<leftarrow> load data i; bs \<leftarrow> slice data (Suc i) n; Some (b # bs) }"
  by (auto simp: slice_def load_def take_drop_Suc)

lemma slice_0 [simp]: "i \<le> length data \<Longrightarrow> slice data i 0 = Some []"
  by (simp add: slice_def)

lemma load_slice: "load data i = map_option hd (slice data i 1)"
  by (auto simp: load_def slice_def take_drop_Suc)

lemma ReadBE8_load [read_simps]: "ReadBE8 data off = load data off"
  by (simp add: ReadBE8_def)

lemma WriteBE8_put [write_simps]: "WriteBE8 data off val = put data off [val]"
  by (simp add: WriteBE8_def store_put)

lemma ReadBE16_slice [read_simps]: "ReadBE16 data off = map_option be_val (slice data off 2)"
  by (auto simp: ReadBE16_def slice_def load_def numeral_eq_Suc take_drop_Suc be_val_Cons)

lemma ReadBE32_slice [read_simps]: "ReadBE32 data off = map_option be_val (slice data off 4)"
  by (auto simp: ReadBE32_def slice_def load_def numeral_eq_Suc take_drop_Suc be_val_Cons or.assoc)

lemma ReadBE64_slice [read_simps]: "ReadBE64 data off = map_option be_val (slice data off 8)"
  by (auto simp: ReadBE64_def slice_def load_def numeral_eq_Suc take_drop_Suc be_val_Cons or.assoc)

lemma ReadBE24_slice [read_simps]: "ReadBE24 data off = map_option be_val (slice data off 3)"
  by (simp add: ReadBE24_def InternalReadBigEndian_slice)

lemma be_bytes_2: "be_bytes 2 v = [ucast (drop_bit 8 v), ucast v]"
  by (simp add: be_bytes_def upt_rec)

lemma be_bytes_4: "be_bytes 4 v = [ucast (drop_bit 24 v), ucast (drop_bit 16 v),
    ucast (drop_bit 8 v), ucast v]"
  by (simp add: be_bytes_def upt_rec)

lemma be_bytes_8: "be_bytes 8 v = [ucast (drop_bit 56 v), ucast (drop_bit 48 v),
    ucast (drop_bit 40 v), ucast (drop_bit 32 v), ucast (drop_bit 24 v), ucast (drop_bit 16 v),
    ucast (drop_bit 8 v), ucast v]"
  by (simp add: be_bytes_def upt_rec)

lemma WriteBE16_put [write_simps]: "WriteBE16 data off val = put data off (be_bytes 2 val)"
  by (simp add: WriteBE16_def write_simps be_bytes_2)

lemma WriteBE32_put [write_simps]: "WriteBE32 data off val = put data off (be_bytes 4 val)"
  by (simp add: WriteBE32_def write_simps be_bytes_4)

lemma WriteBE64_put [write_simps]: "WriteBE64 data off val = put data off (be_bytes 8 val)"
  by (simp add: WriteBE64_def write_simps be_bytes_8)

lemma WriteBE24_put [write_simps]: "WriteBE24 data off val = put data off (be_bytes 3 val)"
  by (simp add: WriteBE24_def WriteBigEndian_put)

subsection \<open>Signed values\<close>

lemma ReinterpretAsSigned_id [simp]: "ReinterpretAsSigned v = v"
proof (rule bit_word_eqI)
  fix n assume "n < LENGTH('a)"
  moreover have "v AND push_bit (LENGTH('a) - 1) 1 \<noteq> 0 \<Longrightarrow> bit v (LENGTH('a) - 1)"
    by (simp add: push_bit_of_1 and_exp_eq_0_iff_not_bit)
  ultimately show "bit (ReinterpretAsSigned v) n \<longleftrightarrow> bit v n"
    by (auto simp: ReinterpretAsSigned_def Let_def bit_simps)
qed

lemma and_0x80: "(b :: u8) AND 0x80 \<noteq> 0 \<longleftrightarrow> bit b 7"
  using and_exp_eq_0_iff_not_bit [of b 7] by simp

lemma SignExtend_signed_take_bit:
  fixes v :: "'a::len word"
  assumes "0 < B" "8 * B < LENGTH('a)" "LENGTH('a) mod 8 = 0" "take_bit (8 * B) v = v"
  shows "SignExtend B v = signed_take_bit (8 * B - 1) v"
proof -
  have "8 * (LENGTH('a) div 8) = LENGTH('a)"
    using assms(3) mult_div_mod_eq [of 8 "LENGTH('a)"] by simp
  then have "B < LENGTH('a) div 8" using assms(2) by linarith
  then have mod: "B mod (LENGTH('a) div 8) * 8 = 8 * B" by simp
  have msb: "bit (ucast (drop_bit ((B - 1) * 8) v) :: u8) 7 \<longleftrightarrow> bit v (8 * B - 1)"
    using assms(1) by (simp add: bit_simps algebra_simps)
  have "push_bit (8 * B) 1 - 1 = (mask (8 * B) :: 'a word)"
    by (simp add: mask_eq_exp_minus_1 push_bit_of_1)
  moreover have "bit v n \<Longrightarrow> n < 8 * B" for n
    using assms(4) by (metis bit_take_bit_iff)
  moreover have "8 * B - 1 \<le> n \<Longrightarrow> n < 8 * B \<Longrightarrow> n = 8 * B - 1" for n by simp
  ultimately show ?thesis
    using assms(1,2) unfolding SignExtend_def Let_def and_0x80 msb mod
    by (intro bit_word_eqI) (force simp: bit_simps min_def)
qed

lemma bit_sint_less:
  fixes v :: "'a::len word"
  shows "k < LENGTH('a) \<Longrightarrow> bit (sint v) k \<longleftrightarrow> bit v k"
  by (cases "k = LENGTH('a) - 1") (auto simp: bit_sint_iff)

lemma signed_take_bit_word_self:
  fixes v :: "'a::len word"
  assumes "- (2 ^ n) \<le> sint v" "sint v < 2 ^ n"
  shows "signed_take_bit n v = v"
proof (rule bit_word_eqI)
  fix m assume m: "m < LENGTH('a)"
  have "signed_take_bit n (sint v) = sint v"
    using assms by (rule signed_take_bit_int_eq_self)
  moreover have "bit (signed_take_bit n (sint v)) m \<longleftrightarrow> bit (sint v) (min m n)"
    by (simp add: bit_signed_take_bit_iff min.commute)
  ultimately have "bit (sint v) (min m n) \<longleftrightarrow> bit (sint v) m" by simp
  with m show "bit (signed_take_bit n v) m \<longleftrightarrow> bit v m"
    by (simp add: bit_simps bit_sint_less min.commute)
qed

lemma ReadBE24s_slice [read_simps]:
  "ReadBE24s data off = map_option (\<lambda>bs. signed_take_bit 23 (be_val bs)) (slice data off 3)"
proof -
  have "take_bit 24 (be_val bs :: i32) = be_val bs" if "length bs = 3" for bs
    using that by (intro bit_word_eqI) (auto simp: bit_simps bit_be_val)
  then have "SignExtend 3 (be_val bs :: i32) = signed_take_bit 23 (be_val bs)" if "length bs = 3" for bs
    using that by (subst SignExtend_signed_take_bit) simp_all
  then show ?thesis
    by (auto simp: ReadBE24s_def ReadBigEndianSigned_def InternalReadBigEndian_slice slice_def)
qed

text \<open>A value that fits in 24 signed bits survives the three-byte round trip.\<close>

lemma signed24_roundtrip [simp]:
  "- (2 ^ 23) \<le> sint (v :: i32) \<Longrightarrow> sint v < 2 ^ 23 \<Longrightarrow>
     signed_take_bit 23 (be_val (be_bytes 3 v)) = v"
  by (simp add: be_val_be_bytes signed_take_bit_take_bit signed_take_bit_word_self)

subsection \<open>When a read is defined\<close>

lemma Read_defined [defined_simps]:
  "ReadBE8 data off \<noteq> None \<longleftrightarrow> off + 1 \<le> length data"
  "ReadBE16 data off \<noteq> None \<longleftrightarrow> off + 2 \<le> length data"
  "ReadBE24 data off \<noteq> None \<longleftrightarrow> off + 3 \<le> length data"
  "ReadBE24s data off \<noteq> None \<longleftrightarrow> off + 3 \<le> length data"
  "ReadBE32 data off \<noteq> None \<longleftrightarrow> off + 4 \<le> length data"
  "ReadBE64 data off \<noteq> None \<longleftrightarrow> off + 8 \<le> length data"
  by (auto simp: read_simps slice_def load_def)

end
