(* ===== verification/Rtcp_Packet.thy ===== *)
theory Rtcp_Packet
  imports Byte_IO
begin

text \<open>
  Model of \<^verbatim>\<open>modules/rtp_rtcp/source/rtcp_packet.{h,cc}\<close> (the base class \<^verbatim>\<open>RtcpPacket\<close>) and of
  \<^verbatim>\<open>rtcp_packet/common_header.{h,cc}\<close>.

  A packet class is a record extending \<open>rtcp_packet\<close>, as the C++ classes extend the base class.
  The output arguments of \<^verbatim>\<open>Create(uint8_t* packet, size_t* index, size_t max_length,
  PacketReadyCallback callback)\<close> form the state \<open>sink\<close>: the buffer, the write position and the
  packets handed to the callback so far.  Whether a callback is present is the boolean \<open>cb\<close>
  (\<^verbatim>\<open>nullptr\<close> is \<open>False\<close>).

  The locale \<open>rtcp_serializer\<close> is the contract between the base class and a packet class: the
  packet has a wire image of exactly \<open>BlockLength\<close> bytes and \<open>Create\<close> writes it.  Everything the
  base class promises (both overloads of \<open>Build\<close>, the handling of a full buffer, that no write
  leaves the buffer) is proved once in the locale and obtained for each packet by interpretation.
  \<open>rtcp_creator\<close> is the weaker contract a compound packet needs; every serializer satisfies it.
\<close>

subsection \<open>The base class\<close>

record rtcp_packet =
  sender_ssrc :: u32

record sink =
  packet :: "u8 list"
  index :: nat
  ready :: "u8 list list"

definition kHeaderLength :: nat where
  "kHeaderLength = 4"

definition SetSenderSsrc :: "u32 \<Rightarrow> 'a rtcp_packet_scheme \<Rightarrow> 'a rtcp_packet_scheme" where
  "SetSenderSsrc ssrc p = p\<lparr>sender_ssrc := ssrc\<rparr>"

definition OnBufferFull :: "bool \<Rightarrow> sink \<Rightarrow> (bool \<times> sink) option" where
  "OnBufferFull cb st =
     (if index st = 0 then Some (False, st)
      else do {
        dcheck cb;
        view \<leftarrow> slice (packet st) 0 (index st);
        Some (True, st\<lparr>ready := ready st @ [view], index := 0\<rparr>)
      })"

definition CreateHeader ::
    "nat \<Rightarrow> u8 \<Rightarrow> nat \<Rightarrow> bool \<Rightarrow> u8 list \<Rightarrow> nat \<Rightarrow> (u8 list \<times> nat) option" where
  "CreateHeader count_or_format packet_type len padding buffer pos = do {
     dcheck (len \<le> 0xffff);
     dcheck (count_or_format \<le> 0x1f);
     let kVersionBits = (push_bit 6 2 :: u8);
     let padding_bit = (if padding then push_bit 5 1 else (0 :: u8));
     buffer \<leftarrow> store buffer (pos + 0)
       (kVersionBits OR padding_bit OR word_of_nat count_or_format);
     buffer \<leftarrow> store buffer (pos + 1) packet_type;
     buffer \<leftarrow> store buffer (pos + 2) (word_of_nat (drop_bit 8 len) AND 0xff);
     buffer \<leftarrow> store buffer (pos + 3) (word_of_nat len AND 0xff);
     Some (buffer, pos + kHeaderLength)
   }"

definition HeaderLength :: "nat \<Rightarrow> nat option" where
  "HeaderLength length_in_bytes = do {
     dcheck (length_in_bytes > 0);
     dcheck (length_in_bytes mod 4 = 0);
     Some (size_sub length_in_bytes kHeaderLength div 4)
   }"

text \<open>
  The loop every \<^verbatim>\<open>Create\<close> starts with:
  \<^verbatim>\<open>while (*index + BlockLength() > max_length) if (!OnBufferFull(...)) return false;\<close>
\<close>

function WaitForSpace :: "nat \<Rightarrow> nat \<Rightarrow> bool \<Rightarrow> sink \<Rightarrow> (bool \<times> sink) option" where
  "WaitForSpace block_length max_length cb st =
     (if index st + block_length > max_length then
        (case OnBufferFull cb st of
           None \<Rightarrow> None
         | Some (ok, st') \<Rightarrow>
             if ok then WaitForSpace block_length max_length cb st' else Some (False, st'))
      else Some (True, st))"
  by pat_completeness auto
termination
  by (relation "measure (\<lambda>(_, _, _, st). index st)")
    (auto simp: OnBufferFull_def split: if_splits bind_splits)

declare WaitForSpace.simps [simp del]

definition create_at ::
    "nat \<Rightarrow> (u8 list \<Rightarrow> nat \<Rightarrow> (u8 list \<times> nat) option) \<Rightarrow> nat \<Rightarrow> bool \<Rightarrow> sink \<Rightarrow> (bool \<times> sink) option"
where
  "create_at block_length body max_length cb st = do {
     (ok, st) \<leftarrow> WaitForSpace block_length max_length cb st;
     if \<not> ok then Some (False, st)
     else do {
       (pkt, i) \<leftarrow> body (packet st) (index st);
       Some (True, st\<lparr>packet := pkt, index := i\<rparr>)
     }
   }"

definition IP_PACKET_SIZE :: nat where
  "IP_PACKET_SIZE = 1500"

text \<open>
  The two overloads of \<^verbatim>\<open>Build\<close>, over a \<^verbatim>\<open>Create\<close> and a \<^verbatim>\<open>BlockLength\<close> of the packet at hand
  (virtual calls).  The contents of the uninitialised buffer is the argument \<open>fill\<close>.
\<close>

definition Build ::
    "(nat \<Rightarrow> bool \<Rightarrow> sink \<Rightarrow> (bool \<times> sink) option) \<Rightarrow> nat \<Rightarrow> (nat \<Rightarrow> u8) \<Rightarrow> u8 list option" where
  "Build create block_length fill = do {
     (created, st) \<leftarrow> create block_length False
       \<lparr>packet = map fill [0..<block_length], index = 0, ready = []\<rparr>;
     dcheck created;
     dcheck (index st = length (packet st));
     Some (packet st)
   }"

definition BuildCallback ::
    "(nat \<Rightarrow> bool \<Rightarrow> sink \<Rightarrow> (bool \<times> sink) option) \<Rightarrow> nat \<Rightarrow> (nat \<Rightarrow> u8) \<Rightarrow>
      (bool \<times> u8 list list) option"
where
  "BuildCallback create max_length fill = do {
     dcheck (max_length \<le> IP_PACKET_SIZE);
     (ok, st) \<leftarrow> create max_length True
       \<lparr>packet = map fill [0..<IP_PACKET_SIZE], index = 0, ready = []\<rparr>;
     if \<not> ok then Some (False, ready st)
     else do {
       (ok, st) \<leftarrow> OnBufferFull True st;
       Some (ok, ready st)
     }
   }"

subsection \<open>The common header\<close>

record common_header =
  packet_type :: u8
  count_or_format :: u8
  padding_size :: u8
  payload_size :: nat
  payload :: "u8 list"

text \<open>
  The pointer \<^verbatim>\<open>payload_\<close> is modelled by the bytes from it to the end of the buffer that was
  parsed; the packet parsers only look at the first \<open>payload_size\<close> of them (\<open>payload_view\<close>), so that
  a read beyond the payload of the packet is a fault even where the buffer goes on.
\<close>

definition payload_view :: "common_header \<Rightarrow> u8 list" where
  "payload_view h = take (payload_size h) (payload h)"

definition packet_size :: "common_header \<Rightarrow> nat" where
  "packet_size h = kHeaderLength + payload_size h + unat (padding_size h)"

definition NextPacket :: "common_header \<Rightarrow> u8 list" where
  "NextPacket h = drop (payload_size h + unat (padding_size h)) (payload h)"

definition CommonHeader_Parse ::
    "common_header \<Rightarrow> u8 list \<Rightarrow> (bool \<times> common_header) option" where
  "CommonHeader_Parse h buffer =
    (let size_bytes = length buffer in
     if size_bytes < kHeaderLength then Some (False, h)
     else do {
       b0 \<leftarrow> load buffer 0;
       let version = drop_bit 6 b0;
       if version \<noteq> 2 then Some (False, h)
       else do {
         let has_padding = (b0 AND 0x20 \<noteq> 0);
         b1 \<leftarrow> load buffer 1;
         len \<leftarrow> ReadBE16 buffer 2;
         let h = h\<lparr>count_or_format := b0 AND 0x1F, packet_type := b1,
                   payload_size := unat len * 4, payload := drop kHeaderLength buffer,
                   padding_size := 0\<rparr>;
         if size_bytes < kHeaderLength + payload_size h then Some (False, h)
         else if has_padding then
           if payload_size h = 0 then Some (False, h)
           else do {
             padding \<leftarrow> load (payload h) (payload_size h - 1);
             let h = h\<lparr>padding_size := padding\<rparr>;
             if padding = 0 then Some (False, h)
             else if unat padding > payload_size h then Some (False, h)
             else Some (True, h\<lparr>payload_size := payload_size h - unat padding\<rparr>)
           }
         else Some (True, h)
       }
     })"

definition wf_header :: "common_header \<Rightarrow> bool" where
  "wf_header h \<longleftrightarrow>
     payload_size h + unat (padding_size h) \<le> length (payload h) \<and> count_or_format h \<le> 31"

subsection \<open>Wire images\<close>

definition header_wire :: "nat \<Rightarrow> u8 \<Rightarrow> nat \<Rightarrow> bool \<Rightarrow> u8 list" where
  "header_wire count ptype len padding =
     [128 OR (if padding then 32 else 0) OR word_of_nat count, ptype]
       @ be_bytes 2 (word_of_nat len :: u16)"

definition emit :: "u8 list \<Rightarrow> u8 list \<Rightarrow> nat \<Rightarrow> (u8 list \<times> nat) option" where
  "emit bs pkt i = do { pkt \<leftarrow> put pkt i bs; Some (pkt, i + length bs) }"

definition sink_ok :: "nat \<Rightarrow> sink \<Rightarrow> bool" where
  "sink_ok max_length st \<longleftrightarrow>
     index st \<le> max_length \<and> max_length \<le> length (packet st) \<and>
     list_all (\<lambda>chunk. 0 < length chunk \<and> length chunk \<le> max_length) (ready st)"

definition stream :: "sink \<Rightarrow> u8 list" where
  "stream st = concat (ready st) @ take (index st) (packet st)"

definition flush :: "sink \<Rightarrow> sink" where
  "flush st = (if index st = 0 then st
     else st\<lparr>ready := ready st @ [take (index st) (packet st)], index := 0\<rparr>)"

lemma length_payload_view [simp]: "wf_header h \<Longrightarrow> length (payload_view h) = payload_size h"
  by (simp add: payload_view_def wf_header_def)

lemma length_header_wire [simp]: "length (header_wire c t n b) = 4"
  by (simp add: header_wire_def)

lemma and_0xff_u8 [simp]: "(w :: u8) AND 0xff = w"
proof -
  have "(0xff :: u8) = - 1" by simp
  then show ?thesis by (simp only: and.right_neutral)
qed

lemma ucast_word_of_nat16: "(ucast (word_of_nat n :: u16) :: u8) = word_of_nat n"
  by (rule bit_word_eqI) (simp add: bit_simps)

lemma ucast_drop_word_of_nat16:
  "(ucast (drop_bit 8 (word_of_nat n :: u16)) :: u8) = word_of_nat (drop_bit 8 n)"
  by (rule bit_word_eqI) (auto simp: bit_simps)

lemma CreateHeader_put [write_simps]:
  "count \<le> 31 \<Longrightarrow> len \<le> 65535 \<Longrightarrow>
     CreateHeader count ptype len padding buffer pos =
     Option.bind (put buffer pos (header_wire count ptype len padding)) (\<lambda>b. Some (b, pos + 4))"
  by (simp add: CreateHeader_def write_simps header_wire_def be_bytes_2 kHeaderLength_def
      ucast_word_of_nat16 ucast_drop_word_of_nat16 or.assoc)

lemma HeaderLength_eq [write_simps]:
  "0 < n \<Longrightarrow> n mod 4 = 0 \<Longrightarrow> HeaderLength n = Some (n div 4 - 1)"
proof -
  assume "0 < n" "n mod 4 = 0"
  then obtain k where "n = 4 * Suc k" by (metis mod_0_imp_dvd dvdE gr0_implies_Suc mult_0_right neq0_conv)
  then show ?thesis by (simp add: HeaderLength_def kHeaderLength_def size_sub_def)
qed

lemma OnBufferFull_ok:
  "index st \<le> length (packet st) \<Longrightarrow> cb \<or> index st = 0 \<Longrightarrow>
    OnBufferFull cb st = Some (index st \<noteq> 0, flush st)"
  by (auto simp: OnBufferFull_def flush_def slice_def)

lemma flush_simps [simp]:
  "index (flush st) = 0" "packet (flush st) = packet st"
  by (simp_all add: flush_def)

lemma stream_flush [simp]: "stream (flush st) = stream st"
  by (simp add: stream_def flush_def)

lemma sink_ok_flush: "sink_ok n st \<Longrightarrow> sink_ok n (flush st)"
  by (auto simp: sink_ok_def flush_def)

lemma WaitForSpace_fits:
  "index st + n \<le> max_length \<Longrightarrow> WaitForSpace n max_length cb st = Some (True, st)"
  by (subst WaitForSpace.simps) simp

lemma WaitForSpace_full:
  assumes "index st + n > max_length" "index st \<le> length (packet st)" "cb \<or> index st = 0"
  shows "WaitForSpace n max_length cb st = Some (index st \<noteq> 0 \<and> n \<le> max_length, flush st)"
proof (cases "index st = 0")
  case True
  with assms show ?thesis
    by (subst WaitForSpace.simps) (simp add: OnBufferFull_ok)
next
  case False
  have "WaitForSpace n max_length cb (flush st) = Some (n \<le> max_length, flush st)"
    by (subst WaitForSpace.simps) (simp add: OnBufferFull_ok flush_def)
  with False assms show ?thesis
    by (subst WaitForSpace.simps) (simp add: OnBufferFull_ok)
qed

lemma header_byte_all:
  "\<forall>c \<in> set [0..<32].
     drop_bit 6 (word_of_nat c :: u8) = 0 \<and>
     (128 OR word_of_nat c :: u8) AND 0x20 = 0 \<and>
     (128 OR 32 OR word_of_nat c :: u8) AND 0x20 = 32 \<and>
     (128 OR word_of_nat c :: u8) AND 0x1F = word_of_nat c \<and>
     (128 OR 32 OR word_of_nat c :: u8) AND 0x1F = word_of_nat c"
  by code_simp

lemma header_byte [read_simps]:
  assumes "c \<le> 31"
  shows "drop_bit 6 (word_of_nat c :: u8) = 0"
    and "(128 OR word_of_nat c :: u8) AND 0x20 = 0"
    and "(128 OR 32 OR word_of_nat c :: u8) AND 0x20 = 32"
    and "(128 OR word_of_nat c :: u8) AND 0x1F = word_of_nat c"
    and "(128 OR 32 OR word_of_nat c :: u8) AND 0x1F = word_of_nat c"
  using header_byte_all assms by (auto simp: less_Suc_eq_le)

lemma unat_of_nat_u16 [simp]: "n \<le> 65535 \<Longrightarrow> unat (word_of_nat n :: u16) = n"
  by (simp add: unat_of_nat take_bit_nat_eq_self)

lemma unat_of_nat_u8 [simp]: "n \<le> 255 \<Longrightarrow> unat (word_of_nat n :: u8) = n"
  by (simp add: unat_of_nat take_bit_nat_eq_self)

text \<open>The header written for a packet is read back, whatever follows it in the buffer.\<close>

lemma CommonHeader_Parse_wire:
  assumes "count \<le> 31" "len \<le> 65535" "length body = 4 * len"
  shows "CommonHeader_Parse h (header_wire count ptype len False @ body @ rest) =
    Some (True, h\<lparr>packet_type := ptype, count_or_format := word_of_nat count, padding_size := 0,
      payload_size := length body, payload := body @ rest\<rparr>)"
  using assms
  by (simp add: CommonHeader_Parse_def header_wire_def read_simps kHeaderLength_def
      drop_Cons')

text \<open>
  Parsing the common header never faults; when it succeeds, the header is well formed, the packet
  lies within the buffer, and the next packet starts right behind it.
\<close>

lemma and_0x1F_le: "(b :: u8) AND 0x1F \<le> 31"
  by (rule word_and_le1)

lemma CommonHeader_Parse_total: "CommonHeader_Parse h buffer \<noteq> None"
  by (auto simp: CommonHeader_Parse_def Let_def load_def kHeaderLength_def read_simps slice_def
      split: if_splits)

lemma CommonHeader_Parse_True:
  assumes "CommonHeader_Parse h0 buffer = Some (True, h)"
  shows "wf_header h" "packet_size h \<le> length buffer" "NextPacket h = drop (packet_size h) buffer"
    "4 \<le> packet_size h" "payload h = drop 4 buffer" "packet_type h = buffer ! 1"
  using assms and_0x1F_le
  by (auto simp: CommonHeader_Parse_def Let_def kHeaderLength_def wf_header_def packet_size_def
      NextPacket_def load_def drop_drop add.commute split: if_splits bind_splits)

subsection \<open>The contract of a packet class\<close>

locale rtcp_creator =
  fixes BlockLength :: "'p \<Rightarrow> nat"
    and Create :: "'p \<Rightarrow> nat \<Rightarrow> bool \<Rightarrow> sink \<Rightarrow> (bool \<times> sink) option"
    and valid :: "'p \<Rightarrow> bool"
    and emits :: "'p \<Rightarrow> u8 list \<Rightarrow> bool"
    and fits :: "'p \<Rightarrow> nat \<Rightarrow> bool"
  assumes Create_stream:
    "valid p \<Longrightarrow> sink_ok max_length st \<Longrightarrow>
       \<exists>st'. Create p max_length True st = Some (fits p max_length, st') \<and> sink_ok max_length st' \<and>
         (fits p max_length \<longrightarrow> (\<exists>bs. emits p bs \<and> stream st' = stream st @ bs) \<and>
           (index st' = 0 \<longleftrightarrow> BlockLength p = 0 \<and> index st = 0))"
begin

text \<open>
  \<open>Build(max_length, callback)\<close>: the callback gets non-empty pieces that fit.  Whether the packet
  fits and is not empty decides between success and failure; when it fits, the pieces together are
  the packet.
\<close>

lemma BuildCallback_pieces:
  assumes "valid p" "max_length \<le> IP_PACKET_SIZE"
  shows "\<exists>pieces. BuildCallback (Create p) max_length fill = Some (fits p max_length \<and> 0 < BlockLength p, pieces) \<and>
    list_all (\<lambda>piece. 0 < length piece \<and> length piece \<le> max_length) pieces \<and>
    (fits p max_length \<longrightarrow> emits p (concat pieces))"
proof -
  let ?st = "\<lparr>packet = map fill [0..<IP_PACKET_SIZE], index = 0, ready = []\<rparr>"
  have "sink_ok max_length ?st" "stream ?st = []" "index ?st = 0"
    using assms(2) by (simp_all add: sink_ok_def stream_def)
  then obtain st where C: "Create p max_length True ?st = Some (fits p max_length, st)" and ok: "sink_ok max_length st"
    and bs: "fits p max_length \<longrightarrow> emits p (stream st) \<and> (index st = 0 \<longleftrightarrow> BlockLength p = 0)"
    using Create_stream [OF assms(1), of max_length ?st] by auto
  have full: "OnBufferFull True st = Some (index st \<noteq> 0, flush st)"
    using ok by (intro OnBufferFull_ok) (simp_all add: sink_ok_def)
  have "concat (ready (flush st)) = stream st" by (simp add: flush_def stream_def)
  moreover have "list_all (\<lambda>piece. 0 < length piece \<and> length piece \<le> max_length) (ready (flush st))"
    using sink_ok_flush [OF ok] by (simp add: sink_ok_def)
  ultimately show ?thesis
    using C full bs ok assms(2) by (cases "fits p max_length") (auto simp: BuildCallback_def sink_ok_def)
qed

end

locale rtcp_serializer =
  fixes BlockLength :: "'p \<Rightarrow> nat"
    and Create :: "'p \<Rightarrow> nat \<Rightarrow> bool \<Rightarrow> sink \<Rightarrow> (bool \<times> sink) option"
    and wire :: "'p \<Rightarrow> u8 list"
    and valid :: "'p \<Rightarrow> bool"
  assumes length_wire: "valid p \<Longrightarrow> length (wire p) = BlockLength p"
    and BlockLength_pos: "valid p \<Longrightarrow> 0 < BlockLength p"
    and Create_emits: "valid p \<Longrightarrow> Create p = create_at (BlockLength p) (emit (wire p))"
begin

lemma Create_fits:
  assumes "valid p" "index st + BlockLength p \<le> max_length" "max_length \<le> length (packet st)"
  shows "Create p max_length cb st =
    Some (True, st\<lparr>packet := overwrite (packet st) (index st) (wire p),
                   index := index st + BlockLength p\<rparr>)"
  using assms
  by (simp add: Create_emits create_at_def WaitForSpace_fits emit_def put_fits length_wire)

lemma Create_full:
  assumes "valid p" "index st + BlockLength p > max_length" "index st \<le> length (packet st)"
    "cb \<or> index st = 0" "max_length \<le> length (packet st)"
  shows "Create p max_length cb st =
    (if index st \<noteq> 0 \<and> BlockLength p \<le> max_length
     then Some (True, (flush st)\<lparr>packet := overwrite (packet st) 0 (wire p), index := BlockLength p\<rparr>)
     else Some (False, flush st))"
  using assms
  by (simp add: Create_emits create_at_def WaitForSpace_full emit_def put_fits length_wire)

text \<open>\<open>Build()\<close> allocates exactly what \<open>Create\<close> writes.\<close>

lemma Build_wire:
  assumes "valid p"
  shows "Build (Create p) (BlockLength p) fill = Some (wire p)"
  using assms by (simp add: Build_def Create_fits length_wire overwrite_def)

lemma BuildCallback_fits:
  assumes "valid p" "BlockLength p \<le> max_length" "max_length \<le> IP_PACKET_SIZE"
  shows "BuildCallback (Create p) max_length fill = Some (True, [wire p])"
proof -
  have pos: "BlockLength p \<noteq> 0" using assms(1) BlockLength_pos by fastforce
  with assms show ?thesis
    by (simp add: BuildCallback_def Create_fits OnBufferFull_ok flush_def length_wire overwrite_def)
qed

lemma BuildCallback_too_big:
  assumes "valid p" "BlockLength p > max_length" "max_length \<le> IP_PACKET_SIZE"
  shows "BuildCallback (Create p) max_length fill = Some (False, [])"
  using assms by (simp add: BuildCallback_def Create_full flush_def)

text \<open>Both overloads together: one piece, the one that \<open>Build()\<close> gives, or failure.\<close>

lemma one_piece:
  assumes "valid p" "max_length \<le> IP_PACKET_SIZE"
  shows "\<exists>bytes. Build (Create p) (BlockLength p) fill = Some bytes \<and> length bytes = BlockLength p \<and>
    BuildCallback (Create p) max_length fill =
      (if BlockLength p \<le> max_length then Some (True, [bytes]) else Some (False, []))"
  using Build_wire length_wire BuildCallback_fits BuildCallback_too_big assms by simp

lemma Create_stream_wire:
  assumes "valid p" "sink_ok max_length st"
  shows "\<exists>st'. Create p max_length True st = Some (BlockLength p \<le> max_length, st') \<and> sink_ok max_length st' \<and>
    (BlockLength p \<le> max_length \<longrightarrow> (\<exists>bs. bs = wire p \<and> stream st' = stream st @ bs) \<and>
      (index st' = 0 \<longleftrightarrow> BlockLength p = 0 \<and> index st = 0))"
proof (cases "index st + BlockLength p \<le> max_length")
  case True
  with assms show ?thesis
    by (auto simp: Create_fits sink_ok_def stream_def take_overwrite_full length_wire)
next
  case False
  let ?st = "(flush st)\<lparr>packet := overwrite (packet st) 0 (wire p), index := BlockLength p\<rparr>"
  have C: "Create p max_length True st =
      (if index st \<noteq> 0 \<and> BlockLength p \<le> max_length then Some (True, ?st) else Some (False, flush st))"
    using assms False by (intro Create_full) (simp_all add: sink_ok_def)
  have ok: "sink_ok max_length (flush st)"
    using assms(2) by (rule sink_ok_flush)
  show ?thesis
  proof (cases "BlockLength p \<le> max_length")
    case True
    then have "sink_ok max_length ?st" and "stream ?st = stream (flush st) @ wire p"
      using ok assms(1) by (simp_all add: sink_ok_def stream_def take_overwrite_full length_wire)
    moreover have "index st \<noteq> 0" "BlockLength p \<noteq> 0" using True False assms(1) BlockLength_pos by fastforce+
    ultimately show ?thesis using C True by auto
  next
    case False
    then have "Create p max_length True st = Some (False, flush st)" using C by simp
    with ok False show ?thesis by auto
  qed
qed

end

sublocale rtcp_serializer \<subseteq> creator: rtcp_creator BlockLength Create valid "\<lambda>p bs. bs = wire p"
    "\<lambda>p max_length. BlockLength p \<le> max_length"
  by unfold_locales (rule Create_stream_wire)

text \<open>
  The contract of the parsing side: on a well-formed header of the right kind, \<open>Parse\<close> neither
  reads outside the payload nor trips an assertion, whatever the bytes are.
\<close>

locale rtcp_parser =
  fixes Parse :: "'p \<Rightarrow> common_header \<Rightarrow> (bool \<times> 'p) option"
    and accepts :: "common_header \<Rightarrow> bool"
  assumes Parse_total: "wf_header h \<Longrightarrow> accepts h \<Longrightarrow> Parse p h \<noteq> None"
begin

lemma Parse_received:
  "CommonHeader_Parse h0 buffer = Some (True, h) \<Longrightarrow> accepts h \<Longrightarrow> \<exists>ok q. Parse p h = Some (ok, q)"
  using Parse_total [of h p] CommonHeader_Parse_True(1) by fastforce

end

text \<open>
  Serializer and parser of one packet class together.  Some formats round a field (\<open>canon\<close> is what
  survives); most are exact, and then \<open>rtcp_codec\<close> is the contract.
\<close>

locale rtcp_lossy_codec = rtcp_serializer BlockLength Create wire valid
  for BlockLength :: "'p \<Rightarrow> nat"
    and Create :: "'p \<Rightarrow> nat \<Rightarrow> bool \<Rightarrow> sink \<Rightarrow> (bool \<times> sink) option"
    and wire :: "'p \<Rightarrow> u8 list"
    and valid :: "'p \<Rightarrow> bool" +
  fixes Parse :: "'p \<Rightarrow> common_header \<Rightarrow> (bool \<times> 'p) option"
    and ptype :: u8
    and count :: "'p \<Rightarrow> nat"
    and body :: "'p \<Rightarrow> u8 list"
    and canon :: "'p \<Rightarrow> 'p"
  assumes wire_layout: "valid p \<Longrightarrow> wire p = header_wire (count p) ptype (length (body p) div 4) False @ body p"
    and count_bound: "valid p \<Longrightarrow> count p \<le> 31"
    and body_size: "valid p \<Longrightarrow> length (body p) mod 4 = 0 \<and> length (body p) \<le> 4 * 65535"
    and Parse_canon: "valid p \<Longrightarrow> packet_type h = ptype \<Longrightarrow> count_or_format h = word_of_nat (count p) \<Longrightarrow>
      payload_size h = length (body p) \<Longrightarrow> payload_view h = body p \<Longrightarrow> Parse q h = Some (True, canon p)"
begin

text \<open>Whatever object \<open>q\<close> the packet is parsed into, the result is determined by the packet built.\<close>

lemma Build_Parse_canon:
  assumes "valid p"
  shows "\<exists>h. CommonHeader_Parse h0 (wire p @ rest) = Some (True, h) \<and> packet_type h = ptype \<and>
    count_or_format h = word_of_nat (count p) \<and> Parse q h = Some (True, canon p) \<and>
    NextPacket h = rest \<and> packet_size h = BlockLength p"
proof -
  let ?b = "body p"
  let ?h = "h0\<lparr>packet_type := ptype, count_or_format := word_of_nat (count p), padding_size := 0,
      payload_size := length ?b, payload := ?b @ rest\<rparr>"
  from body_size [OF assms] have len: "length ?b = 4 * (length ?b div 4)" "length ?b div 4 \<le> 65535"
    by auto
  have "CommonHeader_Parse h0 (header_wire (count p) ptype (length ?b div 4) False @ ?b @ rest)
      = Some (True, ?h)"
    using count_bound [OF assms] len(2,1) by (rule CommonHeader_Parse_wire)
  moreover have "Parse q ?h = Some (True, canon p)"
    using assms by (intro Parse_canon) (simp_all add: payload_view_def)
  moreover have "BlockLength p = 4 + length ?b"
    using length_wire [OF assms] wire_layout [OF assms] by simp
  ultimately show ?thesis
    by (auto simp: wire_layout [OF assms] NextPacket_def packet_size_def kHeaderLength_def)
qed

text \<open>The round trip in terms of the operations only: build a packet, then parse the bytes.\<close>

lemma roundtrip_canon:
  assumes "valid p"
  shows "\<exists>bytes h. Build (Create p) (BlockLength p) fill = Some bytes \<and> length bytes = BlockLength p \<and>
    CommonHeader_Parse h0 (bytes @ rest) = Some (True, h) \<and> Parse q h = Some (True, canon p) \<and>
    NextPacket h = rest"
  using Build_wire [OF assms] length_wire [OF assms] Build_Parse_canon [OF assms] by blast

end

locale rtcp_codec = rtcp_serializer BlockLength Create wire valid
  for BlockLength :: "'p \<Rightarrow> nat"
    and Create :: "'p \<Rightarrow> nat \<Rightarrow> bool \<Rightarrow> sink \<Rightarrow> (bool \<times> sink) option"
    and wire :: "'p \<Rightarrow> u8 list"
    and valid :: "'p \<Rightarrow> bool" +
  fixes Parse :: "'p \<Rightarrow> common_header \<Rightarrow> (bool \<times> 'p) option"
    and ptype :: u8
    and count :: "'p \<Rightarrow> nat"
    and body :: "'p \<Rightarrow> u8 list"
  assumes wire_body: "valid p \<Longrightarrow> wire p = header_wire (count p) ptype (length (body p) div 4) False @ body p"
    and count_le: "valid p \<Longrightarrow> count p \<le> 31"
    and body_words: "valid p \<Longrightarrow> length (body p) mod 4 = 0 \<and> length (body p) \<le> 4 * 65535"
    and Parse_body: "valid p \<Longrightarrow> packet_type h = ptype \<Longrightarrow> count_or_format h = word_of_nat (count p) \<Longrightarrow>
      payload_size h = length (body p) \<Longrightarrow> payload_view h = body p \<Longrightarrow> Parse q h = Some (True, p)"

sublocale rtcp_codec \<subseteq> exact: rtcp_lossy_codec BlockLength Create wire valid Parse ptype count body "\<lambda>p. p"
  by unfold_locales (fact wire_body count_le body_words Parse_body)+

context rtcp_codec
begin

lemma Build_Parse:
  assumes "valid p"
  shows "\<exists>h. CommonHeader_Parse h0 (wire p @ rest) = Some (True, h) \<and> Parse q h = Some (True, p) \<and>
    NextPacket h = rest \<and> packet_size h = BlockLength p"
  using exact.Build_Parse_canon [OF assms, of h0 rest q] by blast

lemmas roundtrip = exact.roundtrip_canon

end

end
