(* ===== verification/Rtcp_Reports.thy ===== *)
theory Rtcp_Reports
  imports Rtcp_Packet
begin

text \<open>
  Sender report, receiver report and extended jitter report
  (\<^verbatim>\<open>rtcp_packet/{report_block,sender_report,receiver_report,extended_jitter_report}.{h,cc}\<close>).
\<close>

subsection \<open>Report block\<close>

record report_block =
  source_ssrc :: u32
  fraction_lost :: u8
  cumulative_lost_signed :: i32
  extended_high_seq_num :: u32
  jitter :: u32
  last_sr :: u32
  delay_since_last_sr :: u32

definition ReportBlock :: report_block where
  "ReportBlock = \<lparr>source_ssrc = 0, fraction_lost = 0, cumulative_lost_signed = 0,
     extended_high_seq_num = 0, jitter = 0, last_sr = 0, delay_since_last_sr = 0\<rparr>"

definition kReportBlockLength :: nat where
  "kReportBlockLength = 24"

text \<open>\<^verbatim>\<open>Parse(buffer, length)\<close>: the buffer is given by the bytes \<open>data\<close> and the offset \<open>off\<close> in it.\<close>

definition ReportBlock_Parse ::
    "report_block \<Rightarrow> u8 list \<Rightarrow> nat \<Rightarrow> nat \<Rightarrow> (bool \<times> report_block) option" where
  "ReportBlock_Parse b data off len =
     (if len < kReportBlockLength then Some (False, b)
      else do {
        v0 \<leftarrow> ReadBE32 data (off + 0);
        v4 \<leftarrow> load data (off + 4);
        v5 \<leftarrow> ReadBE24s data (off + 5);
        v8 \<leftarrow> ReadBE32 data (off + 8);
        v12 \<leftarrow> ReadBE32 data (off + 12);
        v16 \<leftarrow> ReadBE32 data (off + 16);
        v20 \<leftarrow> ReadBE32 data (off + 20);
        Some (True, b\<lparr>source_ssrc := v0, fraction_lost := v4, cumulative_lost_signed := v5,
          extended_high_seq_num := v8, jitter := v12, last_sr := v16, delay_since_last_sr := v20\<rparr>)
      })"

definition ReportBlock_Create :: "report_block \<Rightarrow> u8 list \<Rightarrow> nat \<Rightarrow> u8 list option" where
  "ReportBlock_Create b buffer off = do {
     dcheck (sint (cumulative_lost_signed b) < 2 ^ 23);
     buffer \<leftarrow> WriteBE32 buffer (off + 0) (source_ssrc b);
     buffer \<leftarrow> WriteBE8 buffer (off + 4) (fraction_lost b);
     buffer \<leftarrow> WriteBE24 buffer (off + 5) (cumulative_lost_signed b);
     buffer \<leftarrow> WriteBE32 buffer (off + 8) (extended_high_seq_num b);
     buffer \<leftarrow> WriteBE32 buffer (off + 12) (jitter b);
     buffer \<leftarrow> WriteBE32 buffer (off + 16) (last_sr b);
     WriteBE32 buffer (off + 20) (delay_since_last_sr b)
   }"

definition SetCumulativeLost :: "report_block \<Rightarrow> i32 \<Rightarrow> bool \<times> report_block" where
  "SetCumulativeLost b lost =
     (if sint lost \<ge> 2 ^ 23 \<or> sint lost < - (2 ^ 23) then (False, b)
      else (True, b\<lparr>cumulative_lost_signed := lost\<rparr>))"

definition cumulative_lost :: "report_block \<Rightarrow> u32" where
  "cumulative_lost b = (if sint (cumulative_lost_signed b) < 0 then 0 else cumulative_lost_signed b)"

text \<open>What \<open>SetCumulativeLost\<close> maintains; without it \<open>Create\<close> would truncate the value.\<close>

definition report_block_ok :: "report_block \<Rightarrow> bool" where
  "report_block_ok b \<longleftrightarrow>
     - (2 ^ 23) \<le> sint (cumulative_lost_signed b) \<and> sint (cumulative_lost_signed b) < 2 ^ 23"

definition report_block_wire :: "report_block \<Rightarrow> u8 list" where
  "report_block_wire b = be_bytes 4 (source_ssrc b) @ [fraction_lost b]
     @ be_bytes 3 (cumulative_lost_signed b) @ be_bytes 4 (extended_high_seq_num b)
     @ be_bytes 4 (jitter b) @ be_bytes 4 (last_sr b) @ be_bytes 4 (delay_since_last_sr b)"

subsection \<open>Lists of report blocks\<close>

text \<open>\<^verbatim>\<open>for (ReportBlock& block : report_blocks_) { block.Parse(next, kLength); next += kLength; }\<close>\<close>

fun ParseBlocks :: "report_block list \<Rightarrow> u8 list \<Rightarrow> nat \<Rightarrow> (report_block list \<times> nat) option" where
  "ParseBlocks [] data next_block = Some ([], next_block)"
| "ParseBlocks (block # blocks) data next_block = do {
     (block_parsed, block) \<leftarrow> ReportBlock_Parse block data next_block kReportBlockLength;
     dcheck block_parsed;
     (blocks, next_block) \<leftarrow> ParseBlocks blocks data (next_block + kReportBlockLength);
     Some (block # blocks, next_block)
   }"

lemma length_report_block_wire [simp]: "length (report_block_wire b) = 24"
  by (simp add: report_block_wire_def)

lemma report_block_wire_not_Nil [simp]: "report_block_wire b \<noteq> []"
  using length_report_block_wire [of b] by fastforce

lemma ReportBlock_Create_put [write_simps]:
  "report_block_ok b \<Longrightarrow> ReportBlock_Create b buffer off = put buffer off (report_block_wire b)"
  by (simp add: ReportBlock_Create_def report_block_ok_def report_block_wire_def write_simps)

lemma ReportBlock_Parse_wire:
  assumes "report_block_ok b" "off = length xs" "24 \<le> len"
  shows "ReportBlock_Parse b0 (xs @ report_block_wire b @ ys) off len = Some (True, b)"
  using assms
  by (simp add: ReportBlock_Parse_def kReportBlockLength_def report_block_wire_def report_block_ok_def
      read_simps)

lemma ReportBlock_Parse_total:
  assumes "off + 24 \<le> length data" "24 \<le> len"
  shows "\<exists>b. ReportBlock_Parse b0 data off len = Some (True, b)"
  using assms by (simp add: ReportBlock_Parse_def kReportBlockLength_def read_simps slice_fits load_fits)

lemma ParseBlocks_wire:
  assumes "list_all report_block_ok bs" "length olds = length bs" "off = length xs"
  shows "ParseBlocks olds (xs @ concat (map report_block_wire bs)) off = Some (bs, off + 24 * length bs)"
  using assms
proof (induction bs arbitrary: olds xs off)
  case Nil
  then show ?case by simp
next
  case (Cons b bs)
  then obtain o' os where olds: "olds = o' # os" and len: "length os = length bs"
    by (metis length_Suc_conv)
  have "ParseBlocks os ((xs @ report_block_wire b) @ concat (map report_block_wire bs)) (off + 24)
      = Some (bs, off + 24 + 24 * length bs)"
    using Cons.prems len by (intro Cons.IH) simp_all
  moreover have "ReportBlock_Parse o' (xs @ report_block_wire b @ concat (map report_block_wire bs)) off 24
      = Some (True, b)"
    using Cons.prems by (intro ReportBlock_Parse_wire) simp_all
  ultimately show ?case by (simp add: olds kReportBlockLength_def)
qed

lemma ParseBlocks_total:
  assumes "off + 24 * length olds \<le> length data"
  shows "\<exists>bs. ParseBlocks olds data off = Some (bs, off + 24 * length olds) \<and> length bs = length olds"
  using assms
proof (induction olds arbitrary: off)
  case Nil
  then show ?case by simp
next
  case (Cons o' os)
  obtain b where "ReportBlock_Parse o' data off 24 = Some (True, b)"
    using ReportBlock_Parse_total [of off data 24] Cons.prems by auto
  moreover obtain bs where "ParseBlocks os data (off + 24) = Some (bs, off + 24 + 24 * length os)"
      "length bs = length os"
    using Cons.IH [of "off + 24"] Cons.prems by (auto simp: algebra_simps)
  ultimately show ?case by (simp add: kReportBlockLength_def algebra_simps)
qed

subsection \<open>NTP time\<close>

text \<open>
  \<^verbatim>\<open>NtpTime\<close> (\<^verbatim>\<open>system_wrappers/include/ntp_time.h\<close>) is not part of the repository.  It is a parameter:
  its constructor from seconds and fractions and its two accessors.  The only fact used is the
  documented one that setting the seconds and fractions of a time gives that time.
\<close>

record 'n ntp_ops =
  ntp_set :: "u32 \<Rightarrow> u32 \<Rightarrow> 'n"
  ntp_seconds :: "'n \<Rightarrow> u32"
  ntp_fractions :: "'n \<Rightarrow> u32"

definition ntp_ok :: "'n ntp_ops \<Rightarrow> bool" where
  "ntp_ok N \<longleftrightarrow> (\<forall>t. ntp_set N (ntp_seconds N t) (ntp_fractions N t) = t)"

subsection \<open>Sender report\<close>

record 'n sender_report = rtcp_packet +
  sr_ntp :: 'n
  sr_rtp_timestamp :: u32
  sender_packet_count :: u32
  sender_octet_count :: u32
  sr_report_blocks :: "report_block list"

definition kSenderReportPacketType :: u8 where
  "kSenderReportPacketType = 200"

definition kMaxNumberOfReportBlocks :: nat where
  "kMaxNumberOfReportBlocks = 0x1f"

definition kSenderBaseLength :: nat where
  "kSenderBaseLength = 24"

definition SenderReport_Parse ::
    "'n ntp_ops \<Rightarrow> 'n sender_report \<Rightarrow> common_header \<Rightarrow> (bool \<times> 'n sender_report) option" where
  "SenderReport_Parse N p h = do {
     dcheck (packet_type h = kSenderReportPacketType);
     let report_block_count = unat (count_or_format h);
     if payload_size h < kSenderBaseLength + report_block_count * kReportBlockLength
     then Some (False, p)
     else do {
       let payload = payload_view h;
       ssrc \<leftarrow> ReadBE32 payload 0;
       let p = SetSenderSsrc ssrc p;
       secs \<leftarrow> ReadBE32 payload 4;
       frac \<leftarrow> ReadBE32 payload 8;
       ts \<leftarrow> ReadBE32 payload 12;
       pc \<leftarrow> ReadBE32 payload 16;
       oc \<leftarrow> ReadBE32 payload 20;
       let p = p\<lparr>sr_ntp := ntp_set N secs frac, sr_rtp_timestamp := ts, sender_packet_count := pc,
                 sender_octet_count := oc,
                 sr_report_blocks := resize (sr_report_blocks p) report_block_count ReportBlock\<rparr>;
       (blocks, next_block) \<leftarrow> ParseBlocks (sr_report_blocks p) payload kSenderBaseLength;
       dcheck (next_block \<le> payload_size h);
       Some (True, p\<lparr>sr_report_blocks := blocks\<rparr>)
     }
   }"

definition SenderReport_BlockLength :: "'n sender_report \<Rightarrow> nat" where
  "SenderReport_BlockLength p =
     kHeaderLength + kSenderBaseLength + length (sr_report_blocks p) * kReportBlockLength"

definition SenderReport_Create ::
    "'n ntp_ops \<Rightarrow> 'n sender_report \<Rightarrow> nat \<Rightarrow> bool \<Rightarrow> sink \<Rightarrow> (bool \<times> sink) option" where
  "SenderReport_Create N p = create_at (SenderReport_BlockLength p) (\<lambda>pkt index. do {
     let index_end = index + SenderReport_BlockLength p;
     hl \<leftarrow> HeaderLength (SenderReport_BlockLength p);
     (pkt, index) \<leftarrow> CreateHeader (length (sr_report_blocks p)) kSenderReportPacketType hl False pkt index;
     pkt \<leftarrow> WriteBE32 pkt (index + 0) (sender_ssrc p);
     pkt \<leftarrow> WriteBE32 pkt (index + 4) (ntp_seconds N (sr_ntp p));
     pkt \<leftarrow> WriteBE32 pkt (index + 8) (ntp_fractions N (sr_ntp p));
     pkt \<leftarrow> WriteBE32 pkt (index + 12) (sr_rtp_timestamp p);
     pkt \<leftarrow> WriteBE32 pkt (index + 16) (sender_packet_count p);
     pkt \<leftarrow> WriteBE32 pkt (index + 20) (sender_octet_count p);
     let index = index + kSenderBaseLength;
     (pkt, index) \<leftarrow> write_each ReportBlock_Create kReportBlockLength (sr_report_blocks p) pkt index;
     dcheck (index = index_end);
     Some (pkt, index)
   })"

definition SenderReport_AddReportBlock ::
    "'n sender_report \<Rightarrow> report_block \<Rightarrow> bool \<times> 'n sender_report" where
  "SenderReport_AddReportBlock p block =
     (if length (sr_report_blocks p) \<ge> kMaxNumberOfReportBlocks then (False, p)
      else (True, p\<lparr>sr_report_blocks := sr_report_blocks p @ [block]\<rparr>))"

definition SenderReport_SetReportBlocks ::
    "'n sender_report \<Rightarrow> report_block list \<Rightarrow> bool \<times> 'n sender_report" where
  "SenderReport_SetReportBlocks p blocks =
     (if length blocks > kMaxNumberOfReportBlocks then (False, p)
      else (True, p\<lparr>sr_report_blocks := blocks\<rparr>))"

definition sr_valid :: "'n sender_report \<Rightarrow> bool" where
  "sr_valid p \<longleftrightarrow>
     length (sr_report_blocks p) \<le> kMaxNumberOfReportBlocks \<and> list_all report_block_ok (sr_report_blocks p)"

definition sr_body :: "'n ntp_ops \<Rightarrow> 'n sender_report \<Rightarrow> u8 list" where
  "sr_body N p = be_bytes 4 (sender_ssrc p) @ be_bytes 4 (ntp_seconds N (sr_ntp p))
     @ be_bytes 4 (ntp_fractions N (sr_ntp p)) @ be_bytes 4 (sr_rtp_timestamp p)
     @ be_bytes 4 (sender_packet_count p) @ be_bytes 4 (sender_octet_count p)
     @ concat (map report_block_wire (sr_report_blocks p))"

definition sr_wire :: "'n ntp_ops \<Rightarrow> 'n sender_report \<Rightarrow> u8 list" where
  "sr_wire N p = header_wire (length (sr_report_blocks p)) kSenderReportPacketType
     (length (sr_body N p) div 4) False @ sr_body N p"

lemma length_report_blocks_wire [simp]:
  "length (concat (map report_block_wire bs)) = 24 * length bs"
  by (rule length_concat_const) simp

lemma length_sr_body [simp]: "length (sr_body N p) = 24 + 24 * length (sr_report_blocks p)"
  by (simp add: sr_body_def)

lemma SenderReport_Create_emits:
  assumes "sr_valid p"
  shows "SenderReport_Create N p = create_at (SenderReport_BlockLength p) (emit (sr_wire N p))"
proof -
  let ?n = "length (sr_report_blocks p)"
  have w: "\<And>x data i. x \<in> set (sr_report_blocks p) \<Longrightarrow>
      ReportBlock_Create x data i = put data i (report_block_wire x)"
    using assms by (simp add: sr_valid_def list_all_iff write_simps)
  show ?thesis
    using assms
    by (simp add: SenderReport_Create_def SenderReport_BlockLength_def kHeaderLength_def
      kSenderBaseLength_def kReportBlockLength_def kMaxNumberOfReportBlocks_def sr_valid_def write_simps
      put_write_each [OF w] emit_def [abs_def] sr_wire_def sr_body_def ac_simps)
qed

lemma SenderReport_Parse_body:
  assumes "ntp_ok N" "sr_valid p" "packet_type h = kSenderReportPacketType"
    "count_or_format h = word_of_nat (length (sr_report_blocks p))"
    "payload_size h = length (sr_body N p)" "payload_view h = sr_body N p"
  shows "SenderReport_Parse N q h = Some (True, p)"
proof -
  let ?bs = "sr_report_blocks p"
  let ?pre = "be_bytes 4 (sender_ssrc p) @ be_bytes 4 (ntp_seconds N (sr_ntp p))
     @ be_bytes 4 (ntp_fractions N (sr_ntp p)) @ be_bytes 4 (sr_rtp_timestamp p)
     @ be_bytes 4 (sender_packet_count p) @ be_bytes 4 (sender_octet_count p)"
  have "ParseBlocks (resize (sr_report_blocks q) (length ?bs) ReportBlock)
      (?pre @ concat (map report_block_wire ?bs)) 24 = Some (?bs, 24 + 24 * length ?bs)"
    using assms by (intro ParseBlocks_wire) (simp_all add: sr_valid_def)
  then show ?thesis
    using assms
    by (simp add: SenderReport_Parse_def sr_body_def read_simps kSenderBaseLength_def
        kReportBlockLength_def SetSenderSsrc_def ntp_ok_def sr_valid_def kMaxNumberOfReportBlocks_def)
qed

lemma SenderReport_Parse_total:
  assumes "wf_header h" "packet_type h = kSenderReportPacketType"
  shows "SenderReport_Parse N p h \<noteq> None"
proof -
  have len: "length (payload_view h) = payload_size h"
    using assms(1) by simp
  show ?thesis
  proof (cases "payload_size h < 24 + unat (count_or_format h) * 24")
    case True
    with assms show ?thesis
      by (simp add: SenderReport_Parse_def kSenderBaseLength_def kReportBlockLength_def)
  next
    case False
    then obtain bs where "ParseBlocks (resize (sr_report_blocks p) (unat (count_or_format h)) ReportBlock)
        (payload_view h) 24 = Some (bs, 24 + 24 * unat (count_or_format h))"
      using ParseBlocks_total [of 24 "resize (sr_report_blocks p) (unat (count_or_format h)) ReportBlock"
          "payload_view h"] len by auto
    with assms False len show ?thesis
      by (simp add: SenderReport_Parse_def kSenderBaseLength_def kReportBlockLength_def read_simps
          slice_fits SetSenderSsrc_def Let_def)
  qed
qed

interpretation sr: rtcp_codec SenderReport_BlockLength "SenderReport_Create N" "sr_wire N"
    "\<lambda>p. ntp_ok N \<and> sr_valid p" "SenderReport_Parse N" kSenderReportPacketType
    "\<lambda>p. length (sr_report_blocks p)" "sr_body N" for N :: "'n ntp_ops"
proof unfold_locales
  fix p :: "'n sender_report" and h q
  assume p: "ntp_ok N \<and> sr_valid p"
  then show "SenderReport_Create N p = create_at (SenderReport_BlockLength p) (emit (sr_wire N p))"
    by (simp add: SenderReport_Create_emits)
  show "length (sr_wire N p) = SenderReport_BlockLength p"
    by (simp add: sr_wire_def SenderReport_BlockLength_def kHeaderLength_def kSenderBaseLength_def
        kReportBlockLength_def)
  show "0 < SenderReport_BlockLength p"
    by (simp add: SenderReport_BlockLength_def kHeaderLength_def)
  show "sr_wire N p = header_wire (length (sr_report_blocks p)) kSenderReportPacketType
      (length (sr_body N p) div 4) False @ sr_body N p"
    by (simp only: sr_wire_def)
  show "length (sr_report_blocks p) \<le> 31"
    and "length (sr_body N p) mod 4 = 0 \<and> length (sr_body N p) \<le> 4 * 65535"
    using p by (auto simp: sr_valid_def kMaxNumberOfReportBlocks_def)
  show "SenderReport_Parse N q h = Some (True, p)"
    if "packet_type h = kSenderReportPacketType"
      "count_or_format h = word_of_nat (length (sr_report_blocks p))"
      "payload_size h = length (sr_body N p)" "payload_view h = sr_body N p"
    using p that by (simp add: SenderReport_Parse_body)
qed

interpretation srp: rtcp_parser "SenderReport_Parse N" "\<lambda>h. packet_type h = kSenderReportPacketType"
    for N :: "'n ntp_ops"
  by unfold_locales (rule SenderReport_Parse_total)

subsection \<open>Receiver report\<close>

record receiver_report = rtcp_packet +
  rr_report_blocks :: "report_block list"

definition kReceiverReportPacketType :: u8 where
  "kReceiverReportPacketType = 201"

definition kRrBaseLength :: nat where
  "kRrBaseLength = 4"

text \<open>Here the result of \<^verbatim>\<open>block.Parse\<close> is not looked at.\<close>

fun RR_ParseBlocks :: "report_block list \<Rightarrow> u8 list \<Rightarrow> nat \<Rightarrow> (report_block list \<times> nat) option" where
  "RR_ParseBlocks [] data next_block = Some ([], next_block)"
| "RR_ParseBlocks (block # blocks) data next_block = do {
     (_, block) \<leftarrow> ReportBlock_Parse block data next_block kReportBlockLength;
     (blocks, next_block) \<leftarrow> RR_ParseBlocks blocks data (next_block + kReportBlockLength);
     Some (block # blocks, next_block)
   }"

definition ReceiverReport_Parse ::
    "receiver_report \<Rightarrow> common_header \<Rightarrow> (bool \<times> receiver_report) option" where
  "ReceiverReport_Parse p h = do {
     dcheck (packet_type h = kReceiverReportPacketType);
     let report_blocks_count = unat (count_or_format h);
     if payload_size h < kRrBaseLength + report_blocks_count * kReportBlockLength
     then Some (False, p)
     else do {
       ssrc \<leftarrow> ReadBE32 (payload_view h) 0;
       let p = SetSenderSsrc ssrc p;
       let p = p\<lparr>rr_report_blocks := resize (rr_report_blocks p) report_blocks_count ReportBlock\<rparr>;
       (blocks, next_report_block) \<leftarrow> RR_ParseBlocks (rr_report_blocks p) (payload_view h) kRrBaseLength;
       dcheck (next_report_block \<le> payload_size h);
       Some (True, p\<lparr>rr_report_blocks := blocks\<rparr>)
     }
   }"

definition ReceiverReport_BlockLength :: "receiver_report \<Rightarrow> nat" where
  "ReceiverReport_BlockLength p =
     kHeaderLength + kRrBaseLength + length (rr_report_blocks p) * kReportBlockLength"

definition ReceiverReport_Create ::
    "receiver_report \<Rightarrow> nat \<Rightarrow> bool \<Rightarrow> sink \<Rightarrow> (bool \<times> sink) option" where
  "ReceiverReport_Create p = create_at (ReceiverReport_BlockLength p) (\<lambda>pkt index. do {
     hl \<leftarrow> HeaderLength (ReceiverReport_BlockLength p);
     (pkt, index) \<leftarrow> CreateHeader (length (rr_report_blocks p)) kReceiverReportPacketType hl False pkt index;
     pkt \<leftarrow> WriteBE32 pkt index (sender_ssrc p);
     let index = index + kRrBaseLength;
     (pkt, index) \<leftarrow> write_each ReportBlock_Create kReportBlockLength (rr_report_blocks p) pkt index;
     Some (pkt, index)
   })"

definition ReceiverReport_AddReportBlock ::
    "receiver_report \<Rightarrow> report_block \<Rightarrow> bool \<times> receiver_report" where
  "ReceiverReport_AddReportBlock p block =
     (if length (rr_report_blocks p) \<ge> kMaxNumberOfReportBlocks then (False, p)
      else (True, p\<lparr>rr_report_blocks := rr_report_blocks p @ [block]\<rparr>))"

definition ReceiverReport_SetReportBlocks ::
    "receiver_report \<Rightarrow> report_block list \<Rightarrow> bool \<times> receiver_report" where
  "ReceiverReport_SetReportBlocks p blocks =
     (if length blocks > kMaxNumberOfReportBlocks then (False, p)
      else (True, p\<lparr>rr_report_blocks := blocks\<rparr>))"

definition rr_valid :: "receiver_report \<Rightarrow> bool" where
  "rr_valid p \<longleftrightarrow>
     length (rr_report_blocks p) \<le> kMaxNumberOfReportBlocks \<and> list_all report_block_ok (rr_report_blocks p)"

definition rr_body :: "receiver_report \<Rightarrow> u8 list" where
  "rr_body p = be_bytes 4 (sender_ssrc p) @ concat (map report_block_wire (rr_report_blocks p))"

definition rr_wire :: "receiver_report \<Rightarrow> u8 list" where
  "rr_wire p = header_wire (length (rr_report_blocks p)) kReceiverReportPacketType
     (length (rr_body p) div 4) False @ rr_body p"

lemma RR_ParseBlocks_eq:
  "ParseBlocks olds data off = Some r \<Longrightarrow> RR_ParseBlocks olds data off = Some r"
  by (induction olds arbitrary: off r) (auto split: bind_splits)

lemma length_rr_body [simp]: "length (rr_body p) = 4 + 24 * length (rr_report_blocks p)"
  by (simp add: rr_body_def)

lemma ReceiverReport_Create_emits:
  assumes "rr_valid p"
  shows "ReceiverReport_Create p = create_at (ReceiverReport_BlockLength p) (emit (rr_wire p))"
proof -
  have w: "\<And>x data i. x \<in> set (rr_report_blocks p) \<Longrightarrow>
      ReportBlock_Create x data i = put data i (report_block_wire x)"
    using assms by (simp add: rr_valid_def list_all_iff write_simps)
  show ?thesis
    using assms
    by (simp add: ReceiverReport_Create_def ReceiverReport_BlockLength_def kHeaderLength_def
      kRrBaseLength_def kReportBlockLength_def kMaxNumberOfReportBlocks_def rr_valid_def write_simps
      put_write_each_last [OF w] emit_def [abs_def] rr_wire_def rr_body_def ac_simps)
qed

lemma ReceiverReport_Parse_body:
  assumes "rr_valid p" "packet_type h = kReceiverReportPacketType"
    "count_or_format h = word_of_nat (length (rr_report_blocks p))"
    "payload_size h = length (rr_body p)" "payload_view h = rr_body p"
  shows "ReceiverReport_Parse q h = Some (True, p)"
proof -
  let ?bs = "rr_report_blocks p"
  have "ParseBlocks (resize (rr_report_blocks q) (length ?bs) ReportBlock)
      (be_bytes 4 (sender_ssrc p) @ concat (map report_block_wire ?bs)) 4 = Some (?bs, 4 + 24 * length ?bs)"
    using assms by (intro ParseBlocks_wire) (simp_all add: rr_valid_def)
  note RR_ParseBlocks_eq [OF this]
  then show ?thesis
    using assms
    by (simp add: ReceiverReport_Parse_def rr_body_def read_simps kRrBaseLength_def
        kReportBlockLength_def SetSenderSsrc_def rr_valid_def kMaxNumberOfReportBlocks_def)
qed

lemma ReceiverReport_Parse_total:
  assumes "wf_header h" "packet_type h = kReceiverReportPacketType"
  shows "ReceiverReport_Parse p h \<noteq> None"
proof -
  have len: "length (payload_view h) = payload_size h"
    using assms(1) by simp
  show ?thesis
  proof (cases "payload_size h < 4 + unat (count_or_format h) * 24")
    case True
    with assms show ?thesis
      by (simp add: ReceiverReport_Parse_def kRrBaseLength_def kReportBlockLength_def)
  next
    case False
    then obtain bs where "RR_ParseBlocks (resize (rr_report_blocks p) (unat (count_or_format h)) ReportBlock)
        (payload_view h) 4 = Some (bs, 4 + 24 * unat (count_or_format h))"
      using ParseBlocks_total [of 4 "resize (rr_report_blocks p) (unat (count_or_format h)) ReportBlock"
          "payload_view h"] len RR_ParseBlocks_eq by fastforce
    with assms False len show ?thesis
      by (simp add: ReceiverReport_Parse_def kRrBaseLength_def kReportBlockLength_def read_simps
          slice_fits SetSenderSsrc_def Let_def)
  qed
qed

interpretation rr: rtcp_codec ReceiverReport_BlockLength ReceiverReport_Create rr_wire rr_valid
    ReceiverReport_Parse kReceiverReportPacketType "\<lambda>p. length (rr_report_blocks p)" rr_body
proof unfold_locales
  fix p q h
  assume p: "rr_valid p"
  then show "ReceiverReport_Create p = create_at (ReceiverReport_BlockLength p) (emit (rr_wire p))"
    by (rule ReceiverReport_Create_emits)
  show "length (rr_wire p) = ReceiverReport_BlockLength p"
    by (simp add: rr_wire_def ReceiverReport_BlockLength_def kHeaderLength_def kRrBaseLength_def
        kReportBlockLength_def)
  show "0 < ReceiverReport_BlockLength p"
    by (simp add: ReceiverReport_BlockLength_def kHeaderLength_def)
  show "rr_wire p = header_wire (length (rr_report_blocks p)) kReceiverReportPacketType
      (length (rr_body p) div 4) False @ rr_body p"
    by (simp only: rr_wire_def)
  show "length (rr_report_blocks p) \<le> 31"
    and "length (rr_body p) mod 4 = 0 \<and> length (rr_body p) \<le> 4 * 65535"
    using p by (auto simp: rr_valid_def kMaxNumberOfReportBlocks_def)
  show "ReceiverReport_Parse q h = Some (True, p)"
    if "packet_type h = kReceiverReportPacketType"
      "count_or_format h = word_of_nat (length (rr_report_blocks p))"
      "payload_size h = length (rr_body p)" "payload_view h = rr_body p"
    using p that by (rule ReceiverReport_Parse_body)
qed

interpretation rrp: rtcp_parser ReceiverReport_Parse "\<lambda>h. packet_type h = kReceiverReportPacketType"
  by unfold_locales (rule ReceiverReport_Parse_total)

subsection \<open>Extended jitter report\<close>

record extended_jitter_report = rtcp_packet +
  inter_arrival_jitters :: "u32 list"

definition kExtendedJitterReportPacketType :: u8 where
  "kExtendedJitterReportPacketType = 195"

definition kMaxNumberOfJitterValues :: nat where
  "kMaxNumberOfJitterValues = 0x1f"

definition kJitterSizeBytes :: nat where
  "kJitterSizeBytes = 4"

definition ExtendedJitterReport_Parse ::
    "extended_jitter_report \<Rightarrow> common_header \<Rightarrow> (bool \<times> extended_jitter_report) option" where
  "ExtendedJitterReport_Parse p h = do {
     dcheck (packet_type h = kExtendedJitterReportPacketType);
     let number_of_jitters = unat (count_or_format h);
     if payload_size h < number_of_jitters * kJitterSizeBytes then Some (False, p)
     else do {
       (jitters, _) \<leftarrow> read_each ReadBE32 kJitterSizeBytes number_of_jitters (payload_view h) 0;
       Some (True, p\<lparr>inter_arrival_jitters := jitters\<rparr>)
     }
   }"

definition SetJitterValues :: "extended_jitter_report \<Rightarrow> u32 list \<Rightarrow> bool \<times> extended_jitter_report" where
  "SetJitterValues p values =
     (if length values > kMaxNumberOfJitterValues then (False, p)
      else (True, p\<lparr>inter_arrival_jitters := values\<rparr>))"

definition ExtendedJitterReport_BlockLength :: "extended_jitter_report \<Rightarrow> nat" where
  "ExtendedJitterReport_BlockLength p = kHeaderLength + kJitterSizeBytes * length (inter_arrival_jitters p)"

definition ExtendedJitterReport_Create ::
    "extended_jitter_report \<Rightarrow> nat \<Rightarrow> bool \<Rightarrow> sink \<Rightarrow> (bool \<times> sink) option" where
  "ExtendedJitterReport_Create p = create_at (ExtendedJitterReport_BlockLength p) (\<lambda>pkt index. do {
     let index_end = index + ExtendedJitterReport_BlockLength p;
     let len = length (inter_arrival_jitters p);
     (pkt, index) \<leftarrow> CreateHeader len kExtendedJitterReportPacketType len False pkt index;
     (pkt, index) \<leftarrow> write_each (\<lambda>jitter pkt index. WriteBE32 pkt index jitter) kJitterSizeBytes
       (inter_arrival_jitters p) pkt index;
     dcheck (index_end = index);
     Some (pkt, index)
   })"

definition ij_valid :: "extended_jitter_report \<Rightarrow> bool" where
  "ij_valid p \<longleftrightarrow> length (inter_arrival_jitters p) \<le> kMaxNumberOfJitterValues"

definition ij_wire :: "extended_jitter_report \<Rightarrow> u8 list" where
  "ij_wire p = header_wire (length (inter_arrival_jitters p)) kExtendedJitterReportPacketType
     (length (inter_arrival_jitters p)) False @ concat (map (be_bytes 4) (inter_arrival_jitters p))"

lemma length_concat_be_bytes [simp]: "length (concat (map (be_bytes B) xs)) = B * length xs"
  by (rule length_concat_const) simp

lemma ExtendedJitterReport_Create_emits:
  "ij_valid p \<Longrightarrow>
     ExtendedJitterReport_Create p = create_at (ExtendedJitterReport_BlockLength p) (emit (ij_wire p))"
  by (simp add: ExtendedJitterReport_Create_def ExtendedJitterReport_BlockLength_def ij_valid_def
      kMaxNumberOfJitterValues_def kHeaderLength_def kJitterSizeBytes_def write_simps
      put_write_each [where enc = "be_bytes 4"] emit_def [abs_def] ij_wire_def ac_simps
      Let_def)

lemma ReadBE32_at: "ReadBE32 (ys @ be_bytes 4 x @ zs) (length ys) = Some x"
  by (simp add: read_simps)

text \<open>The sender SSRC is not part of this packet, so it keeps the value the object had.\<close>

lemma ExtendedJitterReport_roundtrip:
  assumes "ij_valid p"
  shows "\<exists>h. CommonHeader_Parse h0 (ij_wire p @ rest) = Some (True, h) \<and>
    ExtendedJitterReport_Parse q h = Some (True, p\<lparr>sender_ssrc := sender_ssrc q\<rparr>)"
proof -
  let ?js = "inter_arrival_jitters p"
  let ?body = "concat (map (be_bytes 4) ?js)"
  have "CommonHeader_Parse h0
      (header_wire (length ?js) kExtendedJitterReportPacketType (length ?js) False @ ?body @ rest) =
    Some (True, h0\<lparr>packet_type := kExtendedJitterReportPacketType,
      count_or_format := word_of_nat (length ?js), padding_size := 0,
      payload_size := length ?body, payload := ?body @ rest\<rparr>)"
    using assms by (intro CommonHeader_Parse_wire) (simp_all add: ij_valid_def kMaxNumberOfJitterValues_def)
  moreover have "read_each ReadBE32 4 (length ?js) ?body 0 = Some (?js, 4 * length ?js)"
    using read_each_wire [of ?js ReadBE32 "be_bytes 4" 4 "length ?js" 0 "[]" "[]"] ReadBE32_at by simp
  ultimately show ?thesis
    using assms
    by (simp add: ij_wire_def ExtendedJitterReport_Parse_def kJitterSizeBytes_def payload_view_def
        ij_valid_def kMaxNumberOfJitterValues_def)
qed

lemma ExtendedJitterReport_Parse_total:
  assumes "wf_header h" "packet_type h = kExtendedJitterReportPacketType"
  shows "ExtendedJitterReport_Parse p h \<noteq> None"
  unfolding ExtendedJitterReport_Parse_def Let_def kJitterSizeBytes_def
  by (intro safe_intros) (use assms in \<open>auto simp add: defined_simps simp del: not_None_eq\<close>)

interpretation ij: rtcp_serializer ExtendedJitterReport_BlockLength ExtendedJitterReport_Create ij_wire ij_valid
  by unfold_locales
    (simp_all add: ExtendedJitterReport_Create_emits ij_wire_def ExtendedJitterReport_BlockLength_def
      kHeaderLength_def kJitterSizeBytes_def)

interpretation ijp: rtcp_parser ExtendedJitterReport_Parse "\<lambda>h. packet_type h = kExtendedJitterReportPacketType"
  by unfold_locales (rule ExtendedJitterReport_Parse_total)

end
