(* ===== verification/Rtcp_Extended.thy ===== *)
theory Rtcp_Extended
  imports Rtcp_Reports
begin

text \<open>
  Extended reports of RFC 3611 and their report blocks:
  \<^verbatim>\<open>rtcp_packet/{rrtr,dlrr,target_bitrate,extended_reports}.{h,cc}\<close>.

  The locale \<open>xr_block\<close> is the contract between the packet and a kind of report block: \<open>Create\<close>
  writes the block's wire image, which starts with the block type and the length the packet's
  parser steps by.
\<close>

subsection \<open>The contract of a report block\<close>

locale xr_block =
  fixes Create :: "'b \<Rightarrow> u8 list \<Rightarrow> nat \<Rightarrow> u8 list option"
    and wire :: "'b \<Rightarrow> u8 list"
    and valid :: "'b \<Rightarrow> bool"
    and btype :: u8
    and words :: "'b \<Rightarrow> nat"
    and content :: "'b \<Rightarrow> u8 list"
  assumes Create_put: "valid b \<Longrightarrow> Create b data i = put data i (wire b)"
    and wire_header: "valid b \<Longrightarrow> wire b = [btype, 0] @ be_bytes 2 (word_of_nat (words b) :: u16) @ content b"
    and content_words: "valid b \<Longrightarrow> length (content b) = 4 * words b \<and> words b \<le> 65535"
begin

lemma length_block: "valid b \<Longrightarrow> length (wire b) = 4 + 4 * words b"
  using content_words by (simp add: wire_header)

lemma block_header_read:
  assumes "valid b" "off = length ys"
  shows "load (ys @ wire b @ zs) off = Some btype"
    and "ReadBE8 (ys @ wire b @ zs) off = Some btype"
    and "ReadBE16 (ys @ wire b @ zs) (off + 2) = Some (word_of_nat (words b))"
  using assms by (simp_all add: wire_header read_simps)

lemma block_wf: "valid b \<Longrightarrow> unat (word_of_nat (words b) :: u16) = words b"
  using content_words by simp

end

subsection \<open>Receiver reference time\<close>

record 'n rrtr =
  rrtr_ntp :: 'n

definition Rrtr_kBlockType :: u8 where
  "Rrtr_kBlockType = 4"

definition Rrtr_kBlockLength :: u16 where
  "Rrtr_kBlockLength = 2"

definition Rrtr_kLength :: nat where
  "Rrtr_kLength = 4 * (unat Rrtr_kBlockLength + 1)"

definition Rrtr_Parse :: "'n ntp_ops \<Rightarrow> u8 list \<Rightarrow> nat \<Rightarrow> 'n rrtr option" where
  "Rrtr_Parse N buffer off = do {
     b0 \<leftarrow> load buffer off;
     dcheck (b0 = Rrtr_kBlockType);
     len \<leftarrow> ReadBE16 buffer (off + 2);
     dcheck (len = Rrtr_kBlockLength);
     seconds \<leftarrow> ReadBE32 buffer (off + 4);
     fraction \<leftarrow> ReadBE32 buffer (off + 8);
     Some \<lparr>rrtr_ntp = ntp_set N seconds fraction\<rparr>
   }"

definition Rrtr_Create :: "'n ntp_ops \<Rightarrow> 'n rrtr \<Rightarrow> u8 list \<Rightarrow> nat \<Rightarrow> u8 list option" where
  "Rrtr_Create N b buffer off = do {
     buffer \<leftarrow> store buffer (off + 0) Rrtr_kBlockType;
     buffer \<leftarrow> store buffer (off + 1) 0;
     buffer \<leftarrow> WriteBE16 buffer (off + 2) Rrtr_kBlockLength;
     buffer \<leftarrow> WriteBE32 buffer (off + 4) (ntp_seconds N (rrtr_ntp b));
     WriteBE32 buffer (off + 8) (ntp_fractions N (rrtr_ntp b))
   }"

definition rrtr_content :: "'n ntp_ops \<Rightarrow> 'n rrtr \<Rightarrow> u8 list" where
  "rrtr_content N b = be_bytes 4 (ntp_seconds N (rrtr_ntp b)) @ be_bytes 4 (ntp_fractions N (rrtr_ntp b))"

definition rrtr_wire :: "'n ntp_ops \<Rightarrow> 'n rrtr \<Rightarrow> u8 list" where
  "rrtr_wire N b = [Rrtr_kBlockType, 0] @ be_bytes 2 Rrtr_kBlockLength @ rrtr_content N b"

interpretation rrtr: xr_block "Rrtr_Create N" "rrtr_wire N" "\<lambda>_. True" Rrtr_kBlockType "\<lambda>_. 2"
    "rrtr_content N" for N :: "'n ntp_ops"
  by unfold_locales
    (simp_all add: Rrtr_Create_def write_simps rrtr_wire_def rrtr_content_def Rrtr_kBlockLength_def)

lemma Rrtr_Parse_wire:
  "ntp_ok N \<Longrightarrow> off = length ys \<Longrightarrow> Rrtr_Parse N (ys @ rrtr_wire N b @ zs) off = Some b"
  by (simp add: Rrtr_Parse_def rrtr_wire_def rrtr_content_def read_simps ntp_ok_def)

subsection \<open>Delay since the last receiver report\<close>

record receive_time_info =
  rti_ssrc :: u32
  last_rr :: u32
  delay_since_last_rr :: u32

type_synonym dlrr = "receive_time_info list"

definition Dlrr_kBlockType :: u8 where
  "Dlrr_kBlockType = 5"

definition kBlockHeaderLength :: nat where
  "kBlockHeaderLength = 4"

definition kSubBlockLength :: nat where
  "kSubBlockLength = 12"

definition Dlrr_Parse :: "dlrr \<Rightarrow> u8 list \<Rightarrow> nat \<Rightarrow> u16 \<Rightarrow> (bool \<times> dlrr) option" where
  "Dlrr_Parse sub_blocks buffer off block_length_32bits = do {
     b0 \<leftarrow> load buffer off;
     dcheck (b0 = Dlrr_kBlockType);
     len \<leftarrow> ReadBE16 buffer (off + 2);
     dcheck (block_length_32bits = len);
     if unat block_length_32bits mod 3 \<noteq> 0 then Some (False, sub_blocks)
     else do {
       let blocks_count = unat block_length_32bits div 3;
       (sub_blocks, _) \<leftarrow> read_each (\<lambda>data read_at. do {
           ssrc \<leftarrow> ReadBE32 data (read_at + 0);
           lrr \<leftarrow> ReadBE32 data (read_at + 4);
           delay \<leftarrow> ReadBE32 data (read_at + 8);
           Some \<lparr>rti_ssrc = ssrc, last_rr = lrr, delay_since_last_rr = delay\<rparr>
         }) kSubBlockLength blocks_count buffer (off + kBlockHeaderLength);
       Some (True, sub_blocks)
     }
   }"

definition Dlrr_BlockLength :: "dlrr \<Rightarrow> nat" where
  "Dlrr_BlockLength sub_blocks =
     (if sub_blocks = [] then 0 else kBlockHeaderLength + kSubBlockLength * length sub_blocks)"

definition Dlrr_Create :: "dlrr \<Rightarrow> u8 list \<Rightarrow> nat \<Rightarrow> u8 list option" where
  "Dlrr_Create sub_blocks buffer off =
     (if sub_blocks = [] then Some buffer
      else do {
        buffer \<leftarrow> store buffer (off + 0) Dlrr_kBlockType;
        buffer \<leftarrow> store buffer (off + 1) 0;
        dcheck (3 * length sub_blocks \<le> 0xffff);
        buffer \<leftarrow> WriteBE16 buffer (off + 2) (word_of_nat (3 * length sub_blocks));
        (buffer, write_at) \<leftarrow> write_each (\<lambda>sub_block buffer write_at. do {
            buffer \<leftarrow> WriteBE32 buffer (write_at + 0) (rti_ssrc sub_block);
            buffer \<leftarrow> WriteBE32 buffer (write_at + 4) (last_rr sub_block);
            WriteBE32 buffer (write_at + 8) (delay_since_last_rr sub_block)
          }) kSubBlockLength sub_blocks buffer (off + kBlockHeaderLength);
        dcheck (off + Dlrr_BlockLength sub_blocks = write_at);
        Some buffer
      })"

definition rti_wire :: "receive_time_info \<Rightarrow> u8 list" where
  "rti_wire r = be_bytes 4 (rti_ssrc r) @ be_bytes 4 (last_rr r) @ be_bytes 4 (delay_since_last_rr r)"

definition dlrr_content :: "dlrr \<Rightarrow> u8 list" where
  "dlrr_content b = concat (map rti_wire b)"

definition dlrr_wire :: "dlrr \<Rightarrow> u8 list" where
  "dlrr_wire b = [Dlrr_kBlockType, 0] @ be_bytes 2 (word_of_nat (3 * length b) :: u16) @ dlrr_content b"

lemma length_rti_wire [simp]: "length (rti_wire r) = 12"
  by (simp add: rti_wire_def)

lemma length_dlrr_content [simp]: "length (dlrr_content b) = 12 * length b"
  by (simp add: dlrr_content_def length_concat_const)

interpretation dlrr: xr_block Dlrr_Create dlrr_wire "\<lambda>b. b \<noteq> [] \<and> length b \<le> 21845" Dlrr_kBlockType
    "\<lambda>b. 3 * length b" dlrr_content
  by unfold_locales
    (simp_all add: Dlrr_Create_def write_simps dlrr_wire_def dlrr_content_def kBlockHeaderLength_def
      kSubBlockLength_def Dlrr_BlockLength_def put_write_each [where enc = rti_wire] rti_wire_def
      length_concat_const)

lemma Dlrr_Parse_wire:
  assumes "length b \<le> 21845" "off = length ys"
  shows "Dlrr_Parse q (ys @ dlrr_wire b @ zs) off (word_of_nat (3 * length b)) = Some (True, b)"
proof -
  let ?r = "\<lambda>data read_at. do { ssrc \<leftarrow> ReadBE32 data (read_at + 0); lrr \<leftarrow> ReadBE32 data (read_at + 4);
           delay \<leftarrow> ReadBE32 data (read_at + 8);
           Some \<lparr>rti_ssrc = ssrc, last_rr = lrr, delay_since_last_rr = delay\<rparr> }"
  let ?h = "[Dlrr_kBlockType, 0] @ be_bytes 2 (word_of_nat (3 * length b) :: u16)"
  have "read_each ?r 12 (length b) ((ys @ ?h) @ concat (map rti_wire b) @ zs) (off + 4)
      = Some (b, off + 4 + 12 * length b)"
    using assms(2) by (intro read_each_wire) (simp_all add: rti_wire_def read_simps)
  moreover have "unat (word_of_nat (3 * length b) :: u16) = 3 * length b"
    using assms(1) by (intro unat_of_nat_u16) simp
  ultimately show ?thesis
    using assms
    by (simp add: Dlrr_Parse_def dlrr_wire_def dlrr_content_def read_simps kSubBlockLength_def
        kBlockHeaderLength_def del: of_nat_mult)
qed

subsection \<open>Target bitrate\<close>

record bitrate_item =
  spatial_layer :: u8
  temporal_layer :: u8
  target_bitrate_kbps :: u32

type_synonym target_bitrate = "bitrate_item list"

definition TargetBitrate_kBlockType :: u8 where
  "TargetBitrate_kBlockType = 42"

definition kTargetBitrateHeaderSizeBytes :: nat where
  "kTargetBitrateHeaderSizeBytes = 4"

definition kBitrateItemSizeBytes :: nat where
  "kBitrateItemSizeBytes = 4"

definition AddTargetBitrate :: "target_bitrate \<Rightarrow> u8 \<Rightarrow> u8 \<Rightarrow> u32 \<Rightarrow> target_bitrate option" where
  "AddTargetBitrate bitrates spatial temporal kbps = do {
     dcheck (spatial \<le> 0x0F);
     dcheck (temporal \<le> 0x0F);
     dcheck (kbps \<le> 0x00FFFFFF);
     Some (bitrates @ [\<lparr>spatial_layer = spatial, temporal_layer = temporal, target_bitrate_kbps = kbps\<rparr>])
   }"

fun TargetBitrate_ParseItems :: "nat \<Rightarrow> u8 list \<Rightarrow> nat \<Rightarrow> target_bitrate \<Rightarrow> target_bitrate option" where
  "TargetBitrate_ParseItems 0 block i bitrates = Some bitrates"
| "TargetBitrate_ParseItems (Suc n) block i bitrates = do {
     layers \<leftarrow> load block i;
     bitrate_kbps \<leftarrow> ReadBE24 block (i + 1);
     bitrates \<leftarrow> AddTargetBitrate bitrates (drop_bit 4 layers AND 0x0F) (layers AND 0x0F) bitrate_kbps;
     TargetBitrate_ParseItems n block (i + kBitrateItemSizeBytes) bitrates
   }"

definition TargetBitrate_Parse :: "u8 list \<Rightarrow> nat \<Rightarrow> u16 \<Rightarrow> target_bitrate option" where
  "TargetBitrate_Parse buffer block block_length = do {
     b0 \<leftarrow> load buffer block;
     dcheck (b0 = TargetBitrate_kBlockType);
     len \<leftarrow> ReadBE16 buffer (block + 2);
     dcheck (block_length = len);
     let payload_bytes = unat block_length * 4;
     let num_items = payload_bytes div kBitrateItemSizeBytes;
     TargetBitrate_ParseItems num_items buffer (block + kTargetBitrateHeaderSizeBytes) []
   }"

definition TargetBitrate_BlockLength :: "target_bitrate \<Rightarrow> nat" where
  "TargetBitrate_BlockLength bitrates =
     kTargetBitrateHeaderSizeBytes + length bitrates * kBitrateItemSizeBytes"

definition TargetBitrate_Create :: "target_bitrate \<Rightarrow> u8 list \<Rightarrow> nat \<Rightarrow> u8 list option" where
  "TargetBitrate_Create bitrates buffer off = do {
     buffer \<leftarrow> store buffer (off + 0) TargetBitrate_kBlockType;
     buffer \<leftarrow> store buffer (off + 1) 0;
     let block_length_words = TargetBitrate_BlockLength bitrates div 4 - 1;
     dcheck (block_length_words \<le> 0xffff);
     buffer \<leftarrow> WriteBE16 buffer (off + 2) (word_of_nat block_length_words);
     (buffer, _) \<leftarrow> write_each (\<lambda>item buffer i. do {
         buffer \<leftarrow> store buffer i
           (ucast (push_bit 4 (ucast (spatial_layer item) :: i32) OR ucast (temporal_layer item)));
         WriteBE24 buffer (i + 1) (target_bitrate_kbps item)
       }) kBitrateItemSizeBytes bitrates buffer (off + kTargetBitrateHeaderSizeBytes);
     Some buffer
   }"

definition bitrate_item_valid :: "bitrate_item \<Rightarrow> bool" where
  "bitrate_item_valid item \<longleftrightarrow> spatial_layer item \<le> 0x0F \<and> temporal_layer item \<le> 0x0F \<and>
     target_bitrate_kbps item \<le> 0x00FFFFFF"

definition layers_byte :: "u8 \<Rightarrow> u8 \<Rightarrow> u8" where
  "layers_byte sp tp = ucast (push_bit 4 (ucast sp :: i32) OR ucast tp)"

definition bitrate_item_wire :: "bitrate_item \<Rightarrow> u8 list" where
  "bitrate_item_wire item =
     layers_byte (spatial_layer item) (temporal_layer item) # be_bytes 3 (target_bitrate_kbps item)"

definition tb_content :: "target_bitrate \<Rightarrow> u8 list" where
  "tb_content b = concat (map bitrate_item_wire b)"

definition tb_wire :: "target_bitrate \<Rightarrow> u8 list" where
  "tb_wire b = [TargetBitrate_kBlockType, 0] @ be_bytes 2 (word_of_nat (length b) :: u16) @ tb_content b"

definition tb_valid :: "target_bitrate \<Rightarrow> bool" where
  "tb_valid b \<longleftrightarrow> length b \<le> 65379 \<and> list_all bitrate_item_valid b"

lemma length_bitrate_item_wire [simp]: "length (bitrate_item_wire item) = 4"
  by (simp add: bitrate_item_wire_def)

lemma length_tb_content [simp]: "length (tb_content b) = 4 * length b"
  by (simp add: tb_content_def length_concat_const)

interpretation tb: xr_block TargetBitrate_Create tb_wire tb_valid TargetBitrate_kBlockType length tb_content
  by unfold_locales
    (simp_all add: TargetBitrate_Create_def write_simps tb_wire_def tb_content_def tb_valid_def
      kTargetBitrateHeaderSizeBytes_def kBitrateItemSizeBytes_def TargetBitrate_BlockLength_def
      put_write_each [where enc = bitrate_item_wire] bitrate_item_wire_def layers_byte_def
      length_concat_const)

lemma layers_byte_split:
  assumes "sp \<le> 0x0F" "tp \<le> 0x0F"
  shows "drop_bit 4 (layers_byte sp tp) AND 0x0F = sp" "layers_byte sp tp AND 0x0F = tp"
proof -
  have m: "(0x0F :: u8) = mask 4" by (simp add: mask_eq_exp_minus_1)
  have "unat sp < 2 ^ 4" "unat tp < 2 ^ 4" using assms by (simp_all add: word_le_nat_alt)
  note high = bit_imp_less [OF this(1)] bit_imp_less [OF this(2)]
  show "drop_bit 4 (layers_byte sp tp) AND 0x0F = sp" "layers_byte sp tp AND 0x0F = tp"
    unfolding m by (rule bit_word_eqI; auto simp: layers_byte_def bit_simps dest: high)+
qed

lemma be_24_roundtrip: "(v :: u32) \<le> 0x00FFFFFF \<Longrightarrow> be_val (be_bytes 3 v) = v"
  by (simp add: be_val_be_bytes take_bit_word_id word_le_nat_alt)

lemma TargetBitrate_ParseItems_wire:
  assumes "list_all bitrate_item_valid b" "off = length ys"
  shows "TargetBitrate_ParseItems (length b) (ys @ concat (map bitrate_item_wire b) @ zs) off acc = Some (acc @ b)"
  using assms
proof (induction b arbitrary: ys off acc)
  case (Cons item b)
  have "TargetBitrate_ParseItems (length b) ((ys @ bitrate_item_wire item) @ concat (map bitrate_item_wire b) @ zs)
      (off + 4) (acc @ [item]) = Some ((acc @ [item]) @ b)"
    using Cons.prems by (intro Cons.IH) simp_all
  moreover have "load (ys @ bitrate_item_wire item @ r) off
        = Some (layers_byte (spatial_layer item) (temporal_layer item))"
      "ReadBE24 (ys @ bitrate_item_wire item @ r) (off + 1) = Some (target_bitrate_kbps item)" for r
    using Cons.prems
    by (simp_all add: bitrate_item_wire_def bitrate_item_valid_def read_simps be_24_roundtrip)
  moreover have "AddTargetBitrate acc (spatial_layer item) (temporal_layer item) (target_bitrate_kbps item)
      = Some (acc @ [item])"
    using Cons.prems(1) by (cases item) (simp add: AddTargetBitrate_def bitrate_item_valid_def)
  ultimately show ?case
    using Cons.prems(1)
    by (simp add: bitrate_item_valid_def layers_byte_split kBitrateItemSizeBytes_def)
qed simp

lemma TargetBitrate_Parse_wire:
  assumes "tb_valid b" "off = length ys"
  shows "TargetBitrate_Parse (ys @ tb_wire b @ zs) off (word_of_nat (length b)) = Some b"
proof -
  let ?h = "[TargetBitrate_kBlockType, 0] @ be_bytes 2 (word_of_nat (length b) :: u16)"
  have "TargetBitrate_ParseItems (length b) ((ys @ ?h) @ concat (map bitrate_item_wire b) @ zs) (off + 4) []
      = Some ([] @ b)"
    using assms by (intro TargetBitrate_ParseItems_wire) (simp_all add: tb_valid_def)
  then show ?thesis
    using assms
    by (simp add: TargetBitrate_Parse_def tb_wire_def tb_content_def read_simps tb_valid_def
        kBitrateItemSizeBytes_def kTargetBitrateHeaderSizeBytes_def)
qed

text \<open>
  What the parser of a block asserts about the values it read always holds: four and twenty-four bits
  were read.
\<close>

lemma TargetBitrate_ParseItems_safe:
  "off + 4 * n \<le> length data \<Longrightarrow> TargetBitrate_ParseItems n data off acc \<noteq> None"
proof (induction n arbitrary: off acc)
  case (Suc n)
  have "be_val bs \<le> (0x00FFFFFF :: u32)" if "length bs = 3" for bs
  proof -
    have "take_bit 24 (be_val bs :: u32) = be_val bs"
      using that by (intro bit_word_eqI) (auto simp: bit_simps bit_be_val)
    then have "be_val bs AND mask 24 = (be_val bs :: u32)" by (simp add: take_bit_eq_mask)
    then have "be_val bs \<le> (mask 24 :: u32)" by (metis word_and_le1)
    then show ?thesis by (simp add: mask_eq_exp_minus_1)
  qed
  then show ?case
    using Suc by (auto simp: AddTargetBitrate_def kBitrateItemSizeBytes_def load_def slice_def read_simps
        word_and_le1)
qed simp

subsection \<open>The packet\<close>

record 'n extended_reports = rtcp_packet +
  rrtr_block :: "'n rrtr option"
  dlrr_block :: dlrr
  xr_target_bitrate :: "target_bitrate option"

definition kXrPacketType :: u8 where
  "kXrPacketType = 207"

definition kMaxNumberOfDlrrItems :: nat where
  "kMaxNumberOfDlrrItems = 50"

definition kXrBaseLength :: nat where
  "kXrBaseLength = 4"

definition ParseRrtrBlock ::
    "'n ntp_ops \<Rightarrow> 'n extended_reports \<Rightarrow> u8 list \<Rightarrow> nat \<Rightarrow> u16 \<Rightarrow> 'n extended_reports option" where
  "ParseRrtrBlock N p data block block_length =
     (if block_length \<noteq> Rrtr_kBlockLength then Some p
      else if rrtr_block p \<noteq> None then Some p
      else do {
        b \<leftarrow> Rrtr_Parse N data block;
        Some (p\<lparr>rrtr_block := Some b\<rparr>)
      })"

definition ParseDlrrBlock ::
    "'n extended_reports \<Rightarrow> u8 list \<Rightarrow> nat \<Rightarrow> u16 \<Rightarrow> 'n extended_reports option" where
  "ParseDlrrBlock p data block block_length =
     (if dlrr_block p \<noteq> [] then Some p
      else do {
        (_, b) \<leftarrow> Dlrr_Parse (dlrr_block p) data block block_length;
        Some (p\<lparr>dlrr_block := b\<rparr>)
      })"

definition ParseTargetBitrateBlock ::
    "'n extended_reports \<Rightarrow> u8 list \<Rightarrow> nat \<Rightarrow> u16 \<Rightarrow> 'n extended_reports option" where
  "ParseTargetBitrateBlock p data block block_length = do {
     b \<leftarrow> TargetBitrate_Parse data block block_length;
     Some (p\<lparr>xr_target_bitrate := Some b\<rparr>)
   }"

definition ParseReportBlock ::
    "'n ntp_ops \<Rightarrow> 'n extended_reports \<Rightarrow> u8 list \<Rightarrow> nat \<Rightarrow> u8 \<Rightarrow> u16 \<Rightarrow> 'n extended_reports option" where
  "ParseReportBlock N p data block block_type block_length =
     (if block_type = Rrtr_kBlockType then ParseRrtrBlock N p data block block_length
      else if block_type = Dlrr_kBlockType then ParseDlrrBlock p data block block_length
      else if block_type = TargetBitrate_kBlockType then ParseTargetBitrateBlock p data block block_length
      else Some p)"

text \<open>The loop of \<^verbatim>\<open>Parse\<close> over the report blocks of the payload.\<close>

function XR_ParseBlocks ::
    "'n ntp_ops \<Rightarrow> 'n extended_reports \<Rightarrow> u8 list \<Rightarrow> nat \<Rightarrow> (bool \<times> 'n extended_reports) option" where
  "XR_ParseBlocks N p data current_block =
     (if current_block + 4 \<le> length data then
        (case (ReadBE8 data current_block, ReadBE16 data (current_block + 2)) of
           (Some block_type, Some block_length) \<Rightarrow>
             let next_block = current_block + 4 + unat block_length * 4 in
             if next_block > length data then Some (False, p)
             else (case ParseReportBlock N p data current_block block_type block_length of
                 None \<Rightarrow> None
               | Some p' \<Rightarrow> XR_ParseBlocks N p' data next_block)
         | _ \<Rightarrow> None)
      else Some (True, p))"
  by pat_completeness auto
termination
  by (relation "measure (\<lambda>(_, _, data, i). length data - i)") auto

declare XR_ParseBlocks.simps [simp del]

definition ExtendedReports_Parse ::
    "'n ntp_ops \<Rightarrow> 'n extended_reports \<Rightarrow> common_header \<Rightarrow> (bool \<times> 'n extended_reports) option" where
  "ExtendedReports_Parse N p h = do {
     dcheck (packet_type h = kXrPacketType);
     if payload_size h < kXrBaseLength then Some (False, p)
     else do {
       sender \<leftarrow> ReadBE32 (payload_view h) 0;
       let p = (SetSenderSsrc sender p)\<lparr>rrtr_block := None, dlrr_block := [], xr_target_bitrate := None\<rparr>;
       XR_ParseBlocks N p (payload_view h) kXrBaseLength
     }
   }"

definition SetRrtr :: "'n extended_reports \<Rightarrow> 'n rrtr \<Rightarrow> 'n extended_reports" where
  "SetRrtr p b = p\<lparr>rrtr_block := Some b\<rparr>"

definition AddDlrrItem :: "'n extended_reports \<Rightarrow> receive_time_info \<Rightarrow> bool \<times> 'n extended_reports" where
  "AddDlrrItem p time_info =
     (if length (dlrr_block p) \<ge> kMaxNumberOfDlrrItems then (False, p)
      else (True, p\<lparr>dlrr_block := dlrr_block p @ [time_info]\<rparr>))"

definition SetTargetBitrate :: "'n extended_reports \<Rightarrow> target_bitrate \<Rightarrow> 'n extended_reports" where
  "SetTargetBitrate p b = p\<lparr>xr_target_bitrate := Some b\<rparr>"

definition ExtendedReports_BlockLength :: "'n extended_reports \<Rightarrow> nat" where
  "ExtendedReports_BlockLength p =
     kHeaderLength + kXrBaseLength + (if rrtr_block p \<noteq> None then Rrtr_kLength else 0)
       + Dlrr_BlockLength (dlrr_block p)
       + (case xr_target_bitrate p of None \<Rightarrow> 0 | Some b \<Rightarrow> TargetBitrate_BlockLength b)"

definition ExtendedReports_Create ::
    "'n ntp_ops \<Rightarrow> 'n extended_reports \<Rightarrow> nat \<Rightarrow> bool \<Rightarrow> sink \<Rightarrow> (bool \<times> sink) option" where
  "ExtendedReports_Create N p = create_at (ExtendedReports_BlockLength p) (\<lambda>pkt index. do {
     let index_end = index + ExtendedReports_BlockLength p;
     hl \<leftarrow> HeaderLength (ExtendedReports_BlockLength p);
     (pkt, index) \<leftarrow> CreateHeader 0 kXrPacketType hl False pkt index;
     pkt \<leftarrow> WriteBE32 pkt index (sender_ssrc p);
     let index = index + 4;
     (pkt, index) \<leftarrow> (case rrtr_block p of None \<Rightarrow> Some (pkt, index)
       | Some b \<Rightarrow> do { pkt \<leftarrow> Rrtr_Create N b pkt index; Some (pkt, index + Rrtr_kLength) });
     (pkt, index) \<leftarrow> (if dlrr_block p = [] then Some (pkt, index)
       else do { pkt \<leftarrow> Dlrr_Create (dlrr_block p) pkt index;
                 Some (pkt, index + Dlrr_BlockLength (dlrr_block p)) });
     (pkt, index) \<leftarrow> (case xr_target_bitrate p of None \<Rightarrow> Some (pkt, index)
       | Some b \<Rightarrow> do { pkt \<leftarrow> TargetBitrate_Create b pkt index;
                       Some (pkt, index + TargetBitrate_BlockLength b) });
     dcheck (index = index_end);
     Some (pkt, index)
   })"

text \<open>The limit on the target bitrates keeps the whole packet within the 16-bit length field.\<close>

definition xr_valid :: "'n extended_reports \<Rightarrow> bool" where
  "xr_valid p \<longleftrightarrow> length (dlrr_block p) \<le> kMaxNumberOfDlrrItems \<and>
     (case xr_target_bitrate p of None \<Rightarrow> True | Some b \<Rightarrow> tb_valid b)"

definition xr_rrtr :: "'n ntp_ops \<Rightarrow> 'n extended_reports \<Rightarrow> u8 list" where
  "xr_rrtr N p = (case rrtr_block p of None \<Rightarrow> [] | Some b \<Rightarrow> rrtr_wire N b)"

definition xr_dlrr :: "'n extended_reports \<Rightarrow> u8 list" where
  "xr_dlrr p = (if dlrr_block p = [] then [] else dlrr_wire (dlrr_block p))"

definition xr_tb :: "'n extended_reports \<Rightarrow> u8 list" where
  "xr_tb p = (case xr_target_bitrate p of None \<Rightarrow> [] | Some b \<Rightarrow> tb_wire b)"

definition xr_body :: "'n ntp_ops \<Rightarrow> 'n extended_reports \<Rightarrow> u8 list" where
  "xr_body N p = be_bytes 4 (sender_ssrc p) @ xr_rrtr N p @ xr_dlrr p @ xr_tb p"

definition xr_wire :: "'n ntp_ops \<Rightarrow> 'n extended_reports \<Rightarrow> u8 list" where
  "xr_wire N p = header_wire 0 kXrPacketType (length (xr_body N p) div 4) False @ xr_body N p"

lemmas xr_lengths = Rrtr_kLength_def Rrtr_kBlockLength_def Dlrr_BlockLength_def
  TargetBitrate_BlockLength_def kBlockHeaderLength_def kSubBlockLength_def kXrBaseLength_def
  kTargetBitrateHeaderSizeBytes_def kBitrateItemSizeBytes_def kHeaderLength_def

lemma xr_validD:
  assumes "xr_valid p"
  shows "dlrr_block p \<noteq> [] \<Longrightarrow> dlrr_block p \<noteq> [] \<and> length (dlrr_block p) \<le> 21845"
    "xr_target_bitrate p = Some b \<Longrightarrow> tb_valid b" "length (dlrr_block p) \<le> 50"
  using assms by (auto simp: xr_valid_def kMaxNumberOfDlrrItems_def)

lemma xr_part_lengths:
  assumes "xr_valid p"
  shows "length (xr_rrtr N p) = (if rrtr_block p \<noteq> None then 12 else 0)"
    "length (xr_dlrr p) = Dlrr_BlockLength (dlrr_block p)"
    "length (xr_tb p) = (case xr_target_bitrate p of None \<Rightarrow> 0 | Some b \<Rightarrow> TargetBitrate_BlockLength b)"
  using xr_validD [OF assms]
  by (auto simp: xr_rrtr_def xr_dlrr_def xr_tb_def rrtr.length_block dlrr.length_block tb.length_block
      xr_lengths split: option.split)

lemma length_xr_body:
  assumes "xr_valid p"
  shows "ExtendedReports_BlockLength p = 4 + length (xr_body N p)"
    "\<exists>n. length (xr_body N p) = 4 * n \<and> n \<le> 65535"
proof -
  note parts = xr_part_lengths [OF assms]
  show "ExtendedReports_BlockLength p = 4 + length (xr_body N p)"
    unfolding ExtendedReports_BlockLength_def xr_body_def using parts by (simp add: xr_lengths)
  let ?r = "if rrtr_block p \<noteq> None then 3 else (0::nat)"
  let ?d = "if dlrr_block p = [] then 0 else 1 + 3 * length (dlrr_block p)"
  let ?t = "case xr_target_bitrate p of None \<Rightarrow> 0 | Some b \<Rightarrow> 1 + length b"
  have "length (xr_body N p) = 4 * (1 + ?r + ?d + ?t)"
    unfolding xr_body_def using parts by (simp add: xr_lengths split: option.split)
  moreover have "?r \<le> 3" "?d \<le> 151" "?t \<le> 65380"
    using xr_validD [OF assms] by (auto simp: tb_valid_def split: option.split)
  ultimately show "\<exists>n. length (xr_body N p) = 4 * n \<and> n \<le> 65535"
    by (intro exI [of _ "1 + ?r + ?d + ?t"]) linarith
qed

lemma ExtendedReports_Create_emits:
  assumes "xr_valid p"
  shows "ExtendedReports_Create N p = create_at (ExtendedReports_BlockLength p) (emit (xr_wire N p))"
proof -
  let ?w = "length (xr_body N p) div 4"
  obtain n where n: "length (xr_body N p) = 4 * n" "n \<le> 65535" using length_xr_body(2) [OF assms] by blast
  have H: "HeaderLength (ExtendedReports_BlockLength p) = Some ?w" "?w \<le> 65535"
    using n by (simp_all add: length_xr_body(1) [OF assms, of N] HeaderLength_eq)
  have D: "dlrr_block p \<noteq> [] \<Longrightarrow> Dlrr_Create (dlrr_block p) d i = put d i (dlrr_wire (dlrr_block p))" for d i
    using xr_validD(1) [OF assms] by (rule dlrr.Create_put)
  have T: "xr_target_bitrate p = Some b \<Longrightarrow> TargetBitrate_Create b d i = put d i (tb_wire b)" for b d i
    using xr_validD(2) [OF assms] by (rule tb.Create_put)
  have L: "dlrr_block p \<noteq> [] \<Longrightarrow> length (dlrr_wire (dlrr_block p)) = Dlrr_BlockLength (dlrr_block p)"
      "xr_target_bitrate p = Some b \<Longrightarrow> length (tb_wire b) = TargetBitrate_BlockLength b"
      "length (rrtr_wire N c) = Rrtr_kLength" for b c
    using xr_part_lengths [OF assms] by (simp_all add: xr_dlrr_def xr_tb_def rrtr.length_block xr_lengths)
  show ?thesis
    unfolding ExtendedReports_Create_def xr_wire_def H(1)
    using H(2)
    by (cases "rrtr_block p"; cases "dlrr_block p = []"; cases "xr_target_bitrate p")
      (simp_all add: write_simps D T L rrtr.Create_put emit_def [abs_def] length_xr_body(1) [OF assms, of N]
        xr_body_def xr_rrtr_def xr_dlrr_def xr_tb_def add.assoc)
qed

text \<open>One turn of the block loop on a block written by its own \<open>Create\<close>.\<close>

lemma XR_ParseBlocks_end: "length data < i + 4 \<Longrightarrow> XR_ParseBlocks N p data i = Some (True, p)"
  by (subst XR_ParseBlocks.simps) simp

lemma XR_ParseBlocks_turn:
  assumes "ReadBE8 data i = Some t" "ReadBE16 data (i + 2) = Some l" "i + 4 + unat l * 4 \<le> length data"
    "ParseReportBlock N p data i t l = Some p'"
  shows "XR_ParseBlocks N p data i = XR_ParseBlocks N p' data (i + 4 + unat l * 4)"
  using assms by (subst XR_ParseBlocks.simps) (simp add: Let_def)

lemma XR_turn_rrtr:
  assumes "ntp_ok N" "rrtr_block q = None" "off = length ys"
  shows "XR_ParseBlocks N q (ys @ rrtr_wire N b @ zs) off =
    XR_ParseBlocks N (q\<lparr>rrtr_block := Some b\<rparr>) (ys @ rrtr_wire N b @ zs) (off + 12)"
proof -
  have "ParseReportBlock N q (ys @ rrtr_wire N b @ zs) off Rrtr_kBlockType 2 = Some (q\<lparr>rrtr_block := Some b\<rparr>)"
    using assms by (simp add: ParseReportBlock_def ParseRrtrBlock_def Rrtr_kBlockLength_def Rrtr_Parse_wire)
  then show ?thesis
    using XR_ParseBlocks_turn [OF rrtr.block_header_read(2,3), of off ys N b zs N q]
      assms(3) rrtr.length_block [of N b] by (simp add: add.commute)
qed

lemma XR_turn_dlrr:
  assumes "b \<noteq> [] \<and> length b \<le> 21845" "dlrr_block q = []" "off = length ys"
  shows "XR_ParseBlocks N q (ys @ dlrr_wire b @ zs) off =
    XR_ParseBlocks N (q\<lparr>dlrr_block := b\<rparr>) (ys @ dlrr_wire b @ zs) (off + Dlrr_BlockLength b)"
proof -
  have "ParseReportBlock N q (ys @ dlrr_wire b @ zs) off Dlrr_kBlockType (word_of_nat (3 * length b))
      = Some (q\<lparr>dlrr_block := b\<rparr>)"
    using assms
    by (simp add: ParseReportBlock_def ParseDlrrBlock_def Dlrr_Parse_wire Dlrr_kBlockType_def
        Rrtr_kBlockType_def del: of_nat_mult)
  then show ?thesis
    using XR_ParseBlocks_turn [OF dlrr.block_header_read(2,3), of b off ys zs N q]
      assms dlrr.length_block [of b] dlrr.block_wf [of b]
    by (simp add: xr_lengths mult.commute add.assoc del: of_nat_mult)
qed

lemma XR_turn_tb:
  assumes "tb_valid b" "off = length ys"
  shows "XR_ParseBlocks N q (ys @ tb_wire b @ zs) off =
    XR_ParseBlocks N (q\<lparr>xr_target_bitrate := Some b\<rparr>) (ys @ tb_wire b @ zs)
      (off + TargetBitrate_BlockLength b)"
proof -
  have "ParseReportBlock N q (ys @ tb_wire b @ zs) off TargetBitrate_kBlockType (word_of_nat (length b))
      = Some (q\<lparr>xr_target_bitrate := Some b\<rparr>)"
    using assms
    by (simp add: ParseReportBlock_def ParseTargetBitrateBlock_def TargetBitrate_Parse_wire
        Dlrr_kBlockType_def Rrtr_kBlockType_def TargetBitrate_kBlockType_def [symmetric])
      (simp add: TargetBitrate_kBlockType_def)
  then show ?thesis
    using XR_ParseBlocks_turn [OF tb.block_header_read(2,3), of b off ys zs N q]
      assms tb.length_block [of b] tb.block_wf [of b]
    by (simp add: xr_lengths add.assoc)
qed

lemma xr_unset:
  "rrtr_block q = None \<Longrightarrow> q\<lparr>rrtr_block := None\<rparr> = q"
  "dlrr_block q = [] \<Longrightarrow> q\<lparr>dlrr_block := []\<rparr> = q"
  "xr_target_bitrate q = None \<Longrightarrow> q\<lparr>xr_target_bitrate := None\<rparr> = q"
  by (cases q; simp)+

lemma XR_ParseBlocks_body:
  fixes p q :: "'n extended_reports"
  assumes "ntp_ok N" "xr_valid p"
    and "rrtr_block q = None" "dlrr_block q = []" "xr_target_bitrate q = None" "sender_ssrc q = sender_ssrc p"
  shows "XR_ParseBlocks N q (xr_body N p) 4 = Some (True, p)"
proof -
  let ?s = "be_bytes 4 (sender_ssrc p)" and ?R = "xr_rrtr N p" and ?D = "xr_dlrr p" and ?T = "xr_tb p"
  define q1 where "q1 = q\<lparr>rrtr_block := rrtr_block p\<rparr>"
  define q2 where "q2 = q1\<lparr>dlrr_block := dlrr_block p\<rparr>"
  define q3 where "q3 = q2\<lparr>xr_target_bitrate := xr_target_bitrate p\<rparr>"
  have "XR_ParseBlocks N q (?s @ ?R @ ?D @ ?T) 4 = XR_ParseBlocks N q1 (?s @ ?R @ ?D @ ?T) (4 + length ?R)"
    using assms(1,3) rrtr.length_block [of N] XR_turn_rrtr [of N q 4 ?s _ "?D @ ?T"]
    by (cases "rrtr_block p") (simp_all add: xr_rrtr_def q1_def xr_unset)
  also have "\<dots> = XR_ParseBlocks N q2 ((?s @ ?R) @ ?D @ ?T) (4 + length ?R + length ?D)"
    using assms(4) XR_turn_dlrr [OF xr_validD(1) [OF assms(2)], of q1 "4 + length ?R" "?s @ ?R" N ?T]
      xr_part_lengths(2) [OF assms(2)]
    by (cases "dlrr_block p = []") (simp_all add: xr_dlrr_def q2_def q1_def xr_unset)
  also have "\<dots> = XR_ParseBlocks N q3 ((?s @ ?R @ ?D) @ ?T @ []) (4 + length ?R + length ?D + length ?T)"
    using assms(5) XR_turn_tb [OF xr_validD(2) [OF assms(2)], of _ "4 + length ?R + length ?D" "?s @ ?R @ ?D" N q2 "[]"]
      xr_part_lengths(3) [OF assms(2)]
    by (cases "xr_target_bitrate p") (simp_all add: xr_tb_def q3_def q2_def q1_def xr_unset)
  also have "\<dots> = Some (True, q3)" by (rule XR_ParseBlocks_end) simp
  also have "q3 = p"
    using assms(6) by (cases q; cases p) (simp add: q3_def q2_def q1_def)
  finally show ?thesis by (simp add: xr_body_def)
qed

lemma ExtendedReports_Parse_body:
  assumes "ntp_ok N \<and> xr_valid p" "packet_type h = kXrPacketType"
    "payload_size h = length (xr_body N p)" "payload_view h = xr_body N p"
  shows "ExtendedReports_Parse N q h = Some (True, p)"
proof -
  have "ReadBE32 (xr_body N p) 0 = Some (sender_ssrc p)" "4 \<le> length (xr_body N p)"
    by (simp_all add: xr_body_def read_simps)
  then show ?thesis
    using assms XR_ParseBlocks_body [of N p]
    by (simp add: ExtendedReports_Parse_def kXrBaseLength_def SetSenderSsrc_def)
qed

interpretation xr: rtcp_codec ExtendedReports_BlockLength "ExtendedReports_Create N" "xr_wire N"
    "\<lambda>p. ntp_ok N \<and> xr_valid p" "ExtendedReports_Parse N" kXrPacketType "\<lambda>_. 0" "xr_body N"
  for N :: "'n ntp_ops"
proof unfold_locales
  fix p :: "'n extended_reports"
  assume p: "ntp_ok N \<and> xr_valid p"
  obtain n where n: "length (xr_body N p) = 4 * n" "n \<le> 65535" using length_xr_body(2) p by blast
  show "length (xr_wire N p) = ExtendedReports_BlockLength p" "0 < ExtendedReports_BlockLength p"
    using p length_xr_body(1) [of p N] by (simp_all add: xr_wire_def)
  show "length (xr_body N p) mod 4 = 0 \<and> length (xr_body N p) \<le> 4 * 65535" using n by simp
qed (simp_all add: ExtendedReports_Create_emits ExtendedReports_Parse_body xr_wire_def)

text \<open>Whatever the blocks contain, the parser stays within the payload.\<close>

lemma ParseReportBlock_safe:
  assumes "i + 4 + unat l * 4 \<le> length data" "ReadBE8 data i = Some t" "ReadBE16 data (i + 2) = Some l"
  shows "ParseReportBlock N p data i t l \<noteq> None"
proof -
  have t: "load data i = Some t" using assms(2) by (simp add: read_simps)
  have R: "l = 2 \<Longrightarrow> t = Rrtr_kBlockType \<Longrightarrow> Rrtr_Parse N data i \<noteq> None"
    unfolding Rrtr_Parse_def
    by (intro safe_intros) (use assms t in \<open>auto simp: defined_simps Rrtr_kBlockLength_def simp del: not_None_eq\<close>)
  have D: "t = Dlrr_kBlockType \<Longrightarrow> Dlrr_Parse b data i l \<noteq> None" for b
    unfolding Dlrr_Parse_def Let_def kSubBlockLength_def kBlockHeaderLength_def
    by (intro safe_intros) (use assms t in \<open>auto simp: defined_simps simp del: not_None_eq\<close>)
  have T: "t = TargetBitrate_kBlockType \<Longrightarrow> TargetBitrate_Parse data i l \<noteq> None"
    unfolding TargetBitrate_Parse_def Let_def kBitrateItemSizeBytes_def kTargetBitrateHeaderSizeBytes_def
    by (intro safe_intros TargetBitrate_ParseItems_safe)
      (use assms t in \<open>auto simp: defined_simps simp del: not_None_eq\<close>)
  show ?thesis
    unfolding ParseReportBlock_def ParseRrtrBlock_def ParseDlrrBlock_def ParseTargetBitrateBlock_def
      Rrtr_kBlockLength_def
    by (intro safe_intros R D T) simp_all
qed

lemma XR_ParseBlocks_safe: "XR_ParseBlocks N p data i \<noteq> None"
proof (induction "length data - i" arbitrary: i p rule: less_induct)
  case less
  show ?case
  proof (cases "i + 4 \<le> length data")
    case False
    then show ?thesis by (simp add: XR_ParseBlocks_end)
  next
    case True
    then have "ReadBE8 data i \<noteq> None" "ReadBE16 data (i + 2) \<noteq> None"
      by (simp_all add: defined_simps del: not_None_eq)
    then obtain t l where r: "ReadBE8 data i = Some t" "ReadBE16 data (i + 2) = Some l" by auto
    show ?thesis
    proof (cases "i + 4 + unat l * 4 \<le> length data")
      case False
      with True r show ?thesis by (subst XR_ParseBlocks.simps) (simp add: Let_def)
    next
      case fits: True
      obtain p' where "ParseReportBlock N p data i t l = Some p'"
        using ParseReportBlock_safe [OF fits r] by auto
      moreover have "length data - (i + 4 + unat l * 4) < length data - i" using True by linarith
      ultimately show ?thesis
        using XR_ParseBlocks_turn [OF r fits, of N p p'] less.hyps [of "i + 4 + unat l * 4" p'] by simp
    qed
  qed
qed

interpretation xrp: rtcp_parser "ExtendedReports_Parse N" "\<lambda>h. packet_type h = kXrPacketType"
  for N :: "'n ntp_ops"
  unfolding ExtendedReports_Parse_def kXrBaseLength_def Let_def
  by unfold_locales
    (intro safe_intros XR_ParseBlocks_safe; auto simp add: defined_simps simp del: not_None_eq)

end
