(* ===== verification/Rtcp_Session.thy ===== *)
theory Rtcp_Session
  imports Rtcp_Packet
begin

text \<open>
  Session-level packets of RFC 3550 with text or application data of variable length:
  \<^verbatim>\<open>rtcp_packet/{bye,app,sdes}.{h,cc}\<close>.  A \<^verbatim>\<open>std::string\<close> is the list of its bytes.
\<close>

subsection \<open>Goodbye\<close>

record bye = rtcp_packet +
  csrcs :: "u32 list"
  reason :: "u8 list"

definition kByePacketType :: u8 where
  "kByePacketType = 203"

definition kMaxNumberOfCsrcs :: nat where
  "kMaxNumberOfCsrcs = 0x1f - 1"

definition Bye_Parse :: "bye \<Rightarrow> common_header \<Rightarrow> (bool \<times> bye) option" where
  "Bye_Parse p h = do {
     dcheck (packet_type h = kByePacketType);
     let src_count = unat (count_or_format h);
     if payload_size h < 4 * src_count then Some (False, p)
     else do {
       let payload = payload_view h;
       let has_reason = (payload_size h > 4 * src_count);
       reason_length \<leftarrow> (if has_reason then load payload (4 * src_count) else Some 0);
       if has_reason \<and> payload_size h - 4 * src_count < 1 + unat reason_length then Some (False, p)
       else do {
         p \<leftarrow> (if src_count = 0 then Some ((SetSenderSsrc 0 p)\<lparr>csrcs := []\<rparr>)
              else do {
                sender \<leftarrow> ReadBE32 payload 0;
                (xs, _) \<leftarrow> read_each ReadBE32 4 (src_count - 1) payload 4;
                Some ((SetSenderSsrc sender p)\<lparr>csrcs := xs\<rparr>)
              });
         p \<leftarrow> (if has_reason then do {
                  r \<leftarrow> slice payload (4 * src_count + 1) (unat reason_length);
                  Some (p\<lparr>reason := r\<rparr>)
                } else Some (p\<lparr>reason := []\<rparr>));
         Some (True, p)
       }
     }
   }"

definition Bye_BlockLength :: "bye \<Rightarrow> nat" where
  "Bye_BlockLength p =
     (let src_count = 1 + length (csrcs p);
          reason_size_in_32bits = (if reason p = [] then 0 else length (reason p) div 4 + 1)
      in kHeaderLength + 4 * (src_count + reason_size_in_32bits))"

definition Bye_WriteReason :: "u8 list \<Rightarrow> nat \<Rightarrow> u8 list \<Rightarrow> nat \<Rightarrow> (u8 list \<times> nat) option" where
  "Bye_WriteReason r index_end pkt i =
     (if r \<noteq> [] then do {
        let reason_length = (word_of_nat (length r) :: u8);
        pkt \<leftarrow> store pkt i reason_length;
        let i = i + 1;
        pkt \<leftarrow> copy_to pkt i (take (unat reason_length) r);
        let i = i + unat reason_length;
        let bytes_to_pad = size_sub index_end i;
        dcheck (bytes_to_pad \<le> 3);
        if bytes_to_pad > 0 then do {
          pkt \<leftarrow> copy_to pkt i (replicate bytes_to_pad 0);
          Some (pkt, i + bytes_to_pad)
        } else Some (pkt, i)
      } else Some (pkt, i))"

definition Bye_Create :: "bye \<Rightarrow> nat \<Rightarrow> bool \<Rightarrow> sink \<Rightarrow> (bool \<times> sink) option" where
  "Bye_Create p = create_at (Bye_BlockLength p) (\<lambda>pkt index. do {
     let index_end = index + Bye_BlockLength p;
     hl \<leftarrow> HeaderLength (Bye_BlockLength p);
     (pkt, index) \<leftarrow> CreateHeader (1 + length (csrcs p)) kByePacketType hl False pkt index;
     pkt \<leftarrow> WriteBE32 pkt index (sender_ssrc p);
     let index = index + 4;
     (pkt, index) \<leftarrow> write_each (\<lambda>csrc pkt index. WriteBE32 pkt index csrc) 4 (csrcs p) pkt index;
     (pkt, index) \<leftarrow> Bye_WriteReason (reason p) index_end pkt index;
     dcheck (index_end = index);
     Some (pkt, index)
   })"

definition SetCsrcs :: "bye \<Rightarrow> u32 list \<Rightarrow> bool \<times> bye" where
  "SetCsrcs p xs = (if length xs > kMaxNumberOfCsrcs then (False, p) else (True, p\<lparr>csrcs := xs\<rparr>))"

definition SetReason :: "bye \<Rightarrow> u8 list \<Rightarrow> bye option" where
  "SetReason p r = do { dcheck (length r \<le> 0xff); Some (p\<lparr>reason := r\<rparr>) }"

definition bye_valid :: "bye \<Rightarrow> bool" where
  "bye_valid p \<longleftrightarrow> length (csrcs p) \<le> kMaxNumberOfCsrcs \<and> length (reason p) \<le> 0xff"

definition reason_wire :: "u8 list \<Rightarrow> u8 list" where
  "reason_wire r = (if r = [] then []
     else word_of_nat (length r) # r @ replicate (3 - length r mod 4) 0)"

definition bye_body :: "bye \<Rightarrow> u8 list" where
  "bye_body p = be_bytes 4 (sender_ssrc p) @ concat (map (be_bytes 4) (csrcs p)) @ reason_wire (reason p)"

definition bye_wire :: "bye \<Rightarrow> u8 list" where
  "bye_wire p = header_wire (1 + length (csrcs p)) kByePacketType (length (bye_body p) div 4) False
     @ bye_body p"

lemma pad_to_word: "1 + (n::nat) + (3 - n mod 4) = 4 * (n div 4 + 1)"
  by presburger

lemma length_reason_wire [simp]:
  "length (reason_wire r) = (if r = [] then 0 else 4 * (length r div 4 + 1))"
  using pad_to_word [of "length r"] by (simp add: reason_wire_def)

lemma length_bye_body [simp]:
  "length (bye_body p) = 4 * (1 + length (csrcs p) + length (reason_wire (reason p)) div 4)"
  by (simp add: bye_body_def length_concat_const)

lemma Bye_BlockLength_body: "Bye_BlockLength p = 4 + length (bye_body p)"
  by (simp add: Bye_BlockLength_def kHeaderLength_def Let_def)

lemma put_WriteReason:
  assumes "length r \<le> 255" "j = i + length bs" "index_end = j + length (reason_wire r)"
  shows "Option.bind (put data i bs) (\<lambda>d. Option.bind (Bye_WriteReason r index_end d j) f) =
    Option.bind (put data i (bs @ reason_wire r)) (\<lambda>d. f (d, index_end))"
proof (cases "r = []")
  case True
  with assms show ?thesis by (simp add: Bye_WriteReason_def reason_wire_def)
next
  case False
  define m where "m = 3 - length r mod 4"
  have "index_end = j + 1 + length r + m"
    using assms(3) False pad_to_word [of "length r"] by (simp add: m_def)
  then have pad: "size_sub index_end (j + 1 + length r) = m" "m \<le> 3" by (simp_all add: m_def)
  show ?thesis
  proof (cases "m = 0")
    case True
    with False pad assms show ?thesis
      by (simp add: Bye_WriteReason_def Let_def  write_simps reason_wire_def flip: m_def)
  next
    case False
    with \<open>r \<noteq> []\<close> pad assms show ?thesis
      by (simp add: Bye_WriteReason_def Let_def  write_simps reason_wire_def add.assoc flip: m_def)
  qed
qed

lemma Bye_Create_emits:
  assumes "bye_valid p"
  shows "Bye_Create p = create_at (Bye_BlockLength p) (emit (bye_wire p))"
proof -
  have b: "length (reason p) \<le> 255" "length (csrcs p) \<le> 30"
    using assms by (auto simp: bye_valid_def kMaxNumberOfCsrcs_def)
  then obtain m where m: "length (reason_wire (reason p)) = 4 * m" "m \<le> 64"
    using that [of 0] that [of "length (reason p) div 4 + 1"] by (cases "reason p = []") auto
  then have body: "length (bye_body p) = 4 * (1 + length (csrcs p) + m)" by simp
  show ?thesis
    using b m
    by (simp add: Bye_Create_def Bye_BlockLength_body body write_simps
      put_write_each [where enc = "be_bytes 4"] put_WriteReason emit_def [abs_def] bye_wire_def
      bye_body_def length_concat_const ac_simps del: length_reason_wire length_bye_body)
qed

lemma Bye_Parse_body:
  assumes "bye_valid p" "packet_type h = kByePacketType"
    "count_or_format h = word_of_nat (1 + length (csrcs p))"
    "payload_size h = length (bye_body p)" "payload_view h = bye_body p"
  shows "Bye_Parse q h = Some (True, p)"
proof -
  let ?xs = "csrcs p"
  have b: "length (reason p) \<le> 255" "length ?xs \<le> 30"
    using assms(1) by (auto simp: bye_valid_def kMaxNumberOfCsrcs_def)
  have "unat (count_or_format h) = 1 + length ?xs"
    using b(2) unat_of_nat_u8 [of "1 + length ?xs"] assms(3) by simp
  moreover have "read_each ReadBE32 4 (length ?xs)
      (be_bytes 4 (sender_ssrc p) @ concat (map (be_bytes 4) ?xs) @ reason_wire (reason p)) 4
      = Some (?xs, 4 + 4 * length ?xs)"
    by (rule read_each_wire) (simp_all add: read_simps)
  note count = calculation and csrcs_read = this
  show ?thesis
  proof (cases "reason p = []")
    case True
    then show ?thesis
      using assms(2,4,5) count csrcs_read
      by (simp add: Bye_Parse_def bye_body_def read_simps length_concat_const SetSenderSsrc_def
        reason_wire_def)
  next
    case False
    define k where "k = 3 - length (reason p) mod 4"
    let ?tail = "reason p @ replicate k 0"
    have "bye_body p = be_bytes 4 (sender_ssrc p) @ concat (map (be_bytes 4) ?xs)
        @ word_of_nat (length (reason p)) # ?tail" (is "_ = ?body")
      using False by (simp add: bye_body_def reason_wire_def k_def)
    moreover have "payload_size h = 4 * (1 + length ?xs) + 1 + length ?tail"
      using calculation assms(4) by (simp add: length_concat_const del: length_bye_body)
    ultimately show ?thesis
      using assms(2,5) count csrcs_read False b(1)
      by (simp add: Bye_Parse_def read_simps length_concat_const SetSenderSsrc_def
        reason_wire_def flip: k_def)
  qed
qed

interpretation bye: rtcp_codec Bye_BlockLength Bye_Create bye_wire bye_valid Bye_Parse
    kByePacketType "\<lambda>p. 1 + length (csrcs p)" bye_body
  by unfold_locales
    (auto simp: Bye_Create_emits Bye_Parse_body bye_wire_def Bye_BlockLength_body bye_valid_def
      kMaxNumberOfCsrcs_def)

interpretation byep: rtcp_parser Bye_Parse "\<lambda>h. packet_type h = kByePacketType"
  unfolding Bye_Parse_def Let_def
  by unfold_locales (intro safe_intros; auto simp add: defined_simps simp del: not_None_eq)

subsection \<open>Application-defined packet\<close>

record app = rtcp_packet +
  sub_type :: u8
  app_name :: u32
  app_data :: "u8 list"

definition kAppPacketType :: u8 where
  "kAppPacketType = 204"

definition kAppBaseLength :: nat where
  "kAppBaseLength = 8"

definition kMaxDataSize :: nat where
  "kMaxDataSize = 0xffff * 4 - kAppBaseLength"

definition App_Parse :: "app \<Rightarrow> common_header \<Rightarrow> (bool \<times> app) option" where
  "App_Parse p h = do {
     dcheck (packet_type h = kAppPacketType);
     if payload_size h < kAppBaseLength then Some (False, p)
     else if payload_size h mod 4 \<noteq> 0 then Some (False, p)
     else do {
       let p = p\<lparr>sub_type := count_or_format h\<rparr>;
       sender \<leftarrow> ReadBE32 (payload_view h) 0;
       nm \<leftarrow> ReadBE32 (payload_view h) 4;
       data \<leftarrow> slice (payload_view h) kAppBaseLength (payload_size h - kAppBaseLength);
       Some (True, (SetSenderSsrc sender p)\<lparr>app_name := nm, app_data := data\<rparr>)
     }
   }"

definition SetSubType :: "app \<Rightarrow> u8 \<Rightarrow> app option" where
  "SetSubType p subtype = do { dcheck (subtype \<le> 0x1f); Some (p\<lparr>sub_type := subtype\<rparr>) }"

definition SetData :: "app \<Rightarrow> u8 list \<Rightarrow> app option" where
  "SetData p data = do {
     dcheck (length data mod 4 = 0);
     dcheck (length data \<le> kMaxDataSize);
     Some (p\<lparr>app_data := data\<rparr>)
   }"

definition App_BlockLength :: "app \<Rightarrow> nat" where
  "App_BlockLength p = kHeaderLength + kAppBaseLength + length (app_data p)"

definition App_Create :: "app \<Rightarrow> nat \<Rightarrow> bool \<Rightarrow> sink \<Rightarrow> (bool \<times> sink) option" where
  "App_Create p = create_at (App_BlockLength p) (\<lambda>pkt index. do {
     let index_end = index + App_BlockLength p;
     hl \<leftarrow> HeaderLength (App_BlockLength p);
     (pkt, index) \<leftarrow> CreateHeader (unat (sub_type p)) kAppPacketType hl False pkt index;
     pkt \<leftarrow> WriteBE32 pkt (index + 0) (sender_ssrc p);
     pkt \<leftarrow> WriteBE32 pkt (index + 4) (app_name p);
     pkt \<leftarrow> copy_to pkt (index + 8) (app_data p);
     let index = index + (8 + length (app_data p));
     dcheck (index_end = index);
     Some (pkt, index)
   })"

definition app_valid :: "app \<Rightarrow> bool" where
  "app_valid p \<longleftrightarrow> sub_type p \<le> 0x1f \<and> length (app_data p) mod 4 = 0 \<and> length (app_data p) \<le> kMaxDataSize"

definition app_body :: "app \<Rightarrow> u8 list" where
  "app_body p = be_bytes 4 (sender_ssrc p) @ be_bytes 4 (app_name p) @ app_data p"

definition app_wire :: "app \<Rightarrow> u8 list" where
  "app_wire p = header_wire (unat (sub_type p)) kAppPacketType (length (app_body p) div 4) False @ app_body p"

lemma length_app_body [simp]: "length (app_body p) = 8 + length (app_data p)"
  by (simp add: app_body_def)

lemma app_validD:
  assumes "app_valid p"
  shows "unat (sub_type p) \<le> 31" "\<exists>n. length (app_data p) = 4 * n \<and> n \<le> 65533"
proof -
  show "unat (sub_type p) \<le> 31" using assms by (simp add: app_valid_def word_le_nat_alt)
  obtain n where n: "length (app_data p) = 4 * n" using assms by (auto simp: app_valid_def)
  moreover have "length (app_data p) \<le> 262132"
    using assms by (simp add: app_valid_def kMaxDataSize_def kAppBaseLength_def)
  ultimately have "n \<le> 65533" by linarith
  with n show "\<exists>n. length (app_data p) = 4 * n \<and> n \<le> 65533" by blast
qed

lemma App_Create_emits:
  assumes "app_valid p"
  shows "App_Create p = create_at (App_BlockLength p) (emit (app_wire p))"
proof -
  obtain n where "length (app_data p) = 4 * n" "n \<le> 65533" using app_validD(2) [OF assms] by blast
  then show ?thesis
    using app_validD(1) [OF assms]
    by (simp add: App_Create_def App_BlockLength_def kHeaderLength_def kAppBaseLength_def write_simps
      emit_def [abs_def] app_wire_def app_body_def ac_simps)
qed

lemma App_Parse_body:
  assumes "app_valid p" "packet_type h = kAppPacketType"
    "count_or_format h = word_of_nat (unat (sub_type p))"
    "payload_size h = length (app_body p)" "payload_view h = app_body p"
  shows "App_Parse q h = Some (True, p)"
proof -
  obtain n where "length (app_data p) = 4 * n" using app_validD(2) [OF assms(1)] by blast
  then show ?thesis
    using assms
    by (simp add: App_Parse_def kAppBaseLength_def app_body_def read_simps SetSenderSsrc_def)
qed

interpretation app: rtcp_codec App_BlockLength App_Create app_wire app_valid App_Parse
    kAppPacketType "\<lambda>p. unat (sub_type p)" app_body
  by unfold_locales
    (use app_validD in \<open>fastforce simp: App_Create_emits App_Parse_body app_wire_def App_BlockLength_def
      kHeaderLength_def kAppBaseLength_def\<close>)+

interpretation appp: rtcp_parser App_Parse "\<lambda>h. packet_type h = kAppPacketType"
  unfolding App_Parse_def Let_def kAppBaseLength_def
  by unfold_locales (intro safe_intros; auto simp add: defined_simps simp del: not_None_eq)

subsection \<open>Source description\<close>

record sdes_chunk =
  chunk_ssrc :: u32
  cname :: "u8 list"

record sdes = rtcp_packet +
  chunks :: "sdes_chunk list"
  block_length :: nat

definition kSdesPacketType :: u8 where
  "kSdesPacketType = 202"

definition kMaxNumberOfChunks :: nat where
  "kMaxNumberOfChunks = 0x1f"

definition kTerminatorTag :: u8 where
  "kTerminatorTag = 0"

definition kCnameTag :: u8 where
  "kCnameTag = 1"

definition ChunkSize :: "sdes_chunk \<Rightarrow> nat" where
  "ChunkSize chunk =
     (let chunk_payload_size = 4 + 1 + 1 + length (cname chunk);
          padding_size = 4 - chunk_payload_size mod 4
      in chunk_payload_size + padding_size)"

text \<open>
  The loop over the items of one chunk.  The result is \<open>(ok, looking_at, cname_found, cname)\<close>;
  \<open>ok = False\<close> is a \<^verbatim>\<open>return false\<close> of the enclosing function.
\<close>

function Sdes_ParseItems ::
    "u8 list \<Rightarrow> nat \<Rightarrow> bool \<Rightarrow> u8 list \<Rightarrow> (bool \<times> nat \<times> bool \<times> u8 list) option" where
  "Sdes_ParseItems data looking_at cname_found nm =
     (case load data looking_at of
        None \<Rightarrow> None
      | Some item_type \<Rightarrow>
          if item_type = kTerminatorTag then Some (True, looking_at + 1, cname_found, nm)
          else if looking_at + 1 \<ge> length data then Some (False, looking_at + 1, cname_found, nm)
          else (case load data (looking_at + 1) of
             None \<Rightarrow> None
           | Some item_length \<Rightarrow>
               if looking_at + 2 + unat item_length + 1 > length data
               then Some (False, looking_at + 2, cname_found, nm)
               else if item_type = kCnameTag then
                 if cname_found then Some (False, looking_at + 2, cname_found, nm)
                 else (case slice data (looking_at + 2) (unat item_length) of
                     None \<Rightarrow> None
                   | Some text \<Rightarrow>
                       Sdes_ParseItems data (looking_at + 2 + unat item_length) True text)
               else Sdes_ParseItems data (looking_at + 2 + unat item_length) cname_found nm))"
  by pat_completeness auto
termination
  by (relation "measure (\<lambda>(data, i, _). length data - i)") auto

declare Sdes_ParseItems.simps [simp del]

text \<open>
  The loop over the chunks; \<open>chunks\<close> holds the first \<open>i\<close> entries of the vector (the entry at \<open>i\<close> is
  rewritten by every turn, those behind it are never read).
\<close>

function Sdes_ParseChunks ::
    "u8 list \<Rightarrow> nat \<Rightarrow> nat \<Rightarrow> nat \<Rightarrow> sdes_chunk list \<Rightarrow> nat \<Rightarrow> (bool \<times> sdes_chunk list \<times> nat) option" where
  "Sdes_ParseChunks data number_of_chunks i looking_at cs blen =
     (if i < number_of_chunks then
        if length data - looking_at < 8 then Some (False, cs, blen)
        else (case ReadBE32 data looking_at of
            None \<Rightarrow> None
          | Some ssrc \<Rightarrow>
            (case Sdes_ParseItems data (looking_at + 4) False [] of
               None \<Rightarrow> None
             | Some (ok, looking_at', cname_found, nm) \<Rightarrow>
                 if \<not> ok then Some (False, cs, blen)
                 else let next = looking_at' + (length data - looking_at') mod 4;
                          chunk = \<lparr>chunk_ssrc = ssrc, cname = nm\<rparr>
                      in if cname_found
                         then Sdes_ParseChunks data number_of_chunks (i + 1) next
                                (cs @ [chunk]) (blen + ChunkSize chunk)
                         else Sdes_ParseChunks data (number_of_chunks - 1) i next cs blen))
      else Some (True, cs, blen))"
  by pat_completeness auto
termination
  by (relation "measure (\<lambda>(_, n, i, _). n - i)") auto

declare Sdes_ParseChunks.simps [simp del]

definition Sdes_Parse :: "sdes \<Rightarrow> common_header \<Rightarrow> (bool \<times> sdes) option" where
  "Sdes_Parse p h = do {
     dcheck (packet_type h = kSdesPacketType);
     (ok, cs, blen) \<leftarrow>
       Sdes_ParseChunks (payload_view h) (unat (count_or_format h)) 0 0 [] kHeaderLength;
     if ok then Some (True, p\<lparr>chunks := cs, block_length := blen\<rparr>) else Some (False, p)
   }"

definition AddCName :: "sdes \<Rightarrow> u32 \<Rightarrow> u8 list \<Rightarrow> (bool \<times> sdes) option" where
  "AddCName p ssrc nm = do {
     dcheck (length nm \<le> 0xff);
     if length (chunks p) \<ge> kMaxNumberOfChunks then Some (False, p)
     else do {
       let chunk = \<lparr>chunk_ssrc = ssrc, cname = nm\<rparr>;
       Some (True, p\<lparr>chunks := chunks p @ [chunk], block_length := block_length p + ChunkSize chunk\<rparr>)
     }
   }"

definition Sdes_BlockLength :: "sdes \<Rightarrow> nat" where
  "Sdes_BlockLength p = block_length p"

definition Sdes_Create :: "sdes \<Rightarrow> nat \<Rightarrow> bool \<Rightarrow> sink \<Rightarrow> (bool \<times> sink) option" where
  "Sdes_Create p = create_at (Sdes_BlockLength p) (\<lambda>pkt index. do {
     let index_end = index + Sdes_BlockLength p;
     hl \<leftarrow> HeaderLength (Sdes_BlockLength p);
     (pkt, index) \<leftarrow> CreateHeader (length (chunks p)) kSdesPacketType hl False pkt index;
     (pkt, index) \<leftarrow> write_all (\<lambda>chunk pkt index. do {
         pkt \<leftarrow> WriteBE32 pkt (index + 0) (chunk_ssrc chunk);
         pkt \<leftarrow> WriteBE8 pkt (index + 4) kCnameTag;
         pkt \<leftarrow> WriteBE8 pkt (index + 5) (word_of_nat (length (cname chunk)));
         pkt \<leftarrow> copy_to pkt (index + 6) (cname chunk);
         let index = index + (6 + length (cname chunk));
         let padding_size = 4 - (6 + length (cname chunk)) mod 4;
         pkt \<leftarrow> copy_to pkt index (replicate padding_size 0);
         Some (pkt, index + padding_size)
       }) (chunks p) pkt index;
     dcheck (index = index_end);
     Some (pkt, index)
   })"

definition Sdes_default :: sdes where
  "Sdes_default = \<lparr>sender_ssrc = 0, chunks = [], block_length = kHeaderLength\<rparr>"

definition sdes_valid :: "sdes \<Rightarrow> bool" where
  "sdes_valid p \<longleftrightarrow> length (chunks p) \<le> kMaxNumberOfChunks \<and>
     list_all (\<lambda>c. length (cname c) \<le> 0xff) (chunks p) \<and>
     block_length p = kHeaderLength + sum_list (map ChunkSize (chunks p))"

definition chunk_wire :: "sdes_chunk \<Rightarrow> u8 list" where
  "chunk_wire c = be_bytes 4 (chunk_ssrc c) @ [1, word_of_nat (length (cname c))] @ cname c
     @ replicate (4 - (6 + length (cname c)) mod 4) 0"

definition sdes_body :: "sdes \<Rightarrow> u8 list" where
  "sdes_body p = concat (map chunk_wire (chunks p))"

definition sdes_wire :: "sdes \<Rightarrow> u8 list" where
  "sdes_wire p = header_wire (length (chunks p)) kSdesPacketType (length (sdes_body p) div 4) False
     @ sdes_body p"

lemma ChunkSize_words: "\<exists>n. ChunkSize c = 4 * n \<and> 2 \<le> n \<and> 4 * n \<le> 10 + length (cname c)"
proof -
  have "(x::nat) + (4 - x mod 4) = 4 * (x div 4 + 1)" for x by presburger
  then have "ChunkSize c = 4 * ((6 + length (cname c)) div 4 + 1)" by (simp add: ChunkSize_def Let_def)
  moreover have "2 \<le> (6 + length (cname c)) div 4 + 1" by simp
  ultimately show ?thesis by (intro exI [of _ "(6 + length (cname c)) div 4 + 1"]) simp
qed

lemma length_chunk_wire [simp]: "length (chunk_wire c) = ChunkSize c"
  by (simp add: chunk_wire_def ChunkSize_def)

lemma length_sdes_body: "length (sdes_body p) = sum_list (map ChunkSize (chunks p))"
  by (simp add: sdes_body_def length_concat o_def)

lemma sum_ChunkSize:
  "list_all (\<lambda>c. length (cname c) \<le> 255) cs \<Longrightarrow>
     \<exists>n. sum_list (map ChunkSize cs) = 4 * n \<and> n \<le> 67 * length cs"
proof (induction cs)
  case (Cons c cs)
  then obtain n where n: "sum_list (map ChunkSize cs) = 4 * n" "n \<le> 67 * length cs" by auto
  obtain m where m: "ChunkSize c = 4 * m" "4 * m \<le> 10 + length (cname c)"
    using ChunkSize_words [of c] by blast
  have "m \<le> 67" using m(2) Cons.prems by simp
  then show ?case using n m by (intro exI [of _ "m + n"]) simp
qed simp

text \<open>The default object, \<open>AddCName\<close> and a successful \<open>Parse\<close> keep the cached block length exact.\<close>

lemma Sdes_default_valid: "sdes_valid Sdes_default"
  by (simp add: Sdes_default_def sdes_valid_def)

lemma AddCName_valid:
  "sdes_valid p \<Longrightarrow> AddCName p ssrc nm = Some (ok, p') \<Longrightarrow> sdes_valid p'"
  by (auto simp: AddCName_def sdes_valid_def Let_def split: if_splits bind_splits)

lemma Sdes_ParseItems_total:
  assumes "la < length data" "length nm \<le> 255"
  shows "\<exists>ok i found' nm'. Sdes_ParseItems data la found nm = Some (ok, i, found', nm') \<and>
    (ok \<longrightarrow> la < i \<and> i \<le> length data \<and> length nm' \<le> 255)"
  using assms
proof (induction "length data - la" arbitrary: la found nm rule: less_induct)
  case less
  let ?n = "unat (data ! (la + 1))"
  have u8: "?n \<le> 255" using unsigned_less [of "data ! (la + 1)", where ?'a = nat] by simp
  show ?case
  proof (cases "data ! la = kTerminatorTag \<or> length data \<le> la + 1 \<or>
      length data < la + 2 + ?n + 1 \<or> (data ! la = kCnameTag \<and> found)")
    case True
    with less.prems show ?thesis
      by (subst Sdes_ParseItems.simps) (auto simp: load_def slice_def)
  next
    case False
    let ?next = "la + 2 + ?n" and ?found = "data ! la = kCnameTag \<or> found"
    let ?nm = "if data ! la = kCnameTag then take ?n (drop (la + 2) data) else nm"
    have "Sdes_ParseItems data la found nm = Sdes_ParseItems data ?next ?found ?nm"
      using False less.prems by (subst Sdes_ParseItems.simps) (simp add: load_def slice_def)
    moreover have "\<exists>ok i found' nm'. Sdes_ParseItems data ?next ?found ?nm = Some (ok, i, found', nm') \<and>
        (ok \<longrightarrow> ?next < i \<and> i \<le> length data \<and> length nm' \<le> 255)"
      using False less.prems u8 by (intro less.hyps) auto
    ultimately show ?thesis by fastforce
  qed
qed

text \<open>
  The chunk loop never faults, and on success it has collected at most the announced number of
  chunks and the exact block length.
\<close>

lemma Sdes_ParseChunks_total:
  assumes "i = length cs" "list_all (\<lambda>c. length (cname c) \<le> 255) cs"
    "blen = 4 + sum_list (map ChunkSize cs)" "length cs \<le> n"
  shows "\<exists>ok cs' blen'. Sdes_ParseChunks data n i la cs blen = Some (ok, cs', blen') \<and>
    (ok \<longrightarrow> length cs' \<le> n \<and> list_all (\<lambda>c. length (cname c) \<le> 255) cs' \<and>
       blen' = 4 + sum_list (map ChunkSize cs'))"
  using assms
proof (induction "n - i" arbitrary: n i la cs blen rule: less_induct)
  case less
  show ?case
  proof (cases "i < n \<and> 8 \<le> length data - la")
    case False
    with less.prems show ?thesis by (subst Sdes_ParseChunks.simps) auto
  next
    case True
    from True have "8 \<le> length data - la" by simp
    then have lt: "la + 8 \<le> length data" by linarith
    then have "ReadBE32 data la \<noteq> None" by (simp add: defined_simps del: not_None_eq)
    then obtain ssrc where ssrc: "ReadBE32 data la = Some ssrc" by auto
    obtain ok la' found nm where items: "Sdes_ParseItems data (la + 4) False [] = Some (ok, la', found, nm)"
        "ok \<longrightarrow> length nm \<le> 255"
      using lt Sdes_ParseItems_total [of "la + 4" data "[]" False] by auto
    let ?c = "\<lparr>chunk_ssrc = ssrc, cname = nm\<rparr>" and ?next = "la' + (length data - la') mod 4"
    consider (bad) "\<not> ok" | (cname) ok found | (none) ok "\<not> found" by blast
    then show ?thesis
    proof cases
      case bad
      with True ssrc items show ?thesis by (subst Sdes_ParseChunks.simps) auto
    next
      case cname
      have "Sdes_ParseChunks data n i la cs blen =
          Sdes_ParseChunks data n (i + 1) ?next (cs @ [?c]) (blen + ChunkSize ?c)"
        using True ssrc items cname by (subst Sdes_ParseChunks.simps) (auto simp: Let_def)
      moreover have "n - (i + 1) < n - i" using True by auto
      ultimately show ?thesis
        using less.hyps [of n "i + 1" "cs @ [?c]" "blen + ChunkSize ?c" ?next] True less.prems items cname
        by simp
    next
      case none
      have "Sdes_ParseChunks data n i la cs blen = Sdes_ParseChunks data (n - 1) i ?next cs blen"
        using True ssrc items none by (subst Sdes_ParseChunks.simps) (auto simp: Let_def)
      then show ?thesis
        using less.hyps [of "n - 1" i cs blen ?next] True less.prems
        by (fastforce intro: order_trans)
    qed
  qed
qed

lemma Sdes_Parse_total:
  assumes "packet_type h = kSdesPacketType" "count_or_format h \<le> 31"
  shows "\<exists>ok p'. Sdes_Parse p h = Some (ok, p') \<and> (ok \<longrightarrow> sdes_valid p') \<and> (\<not> ok \<longrightarrow> p' = p)"
proof -
  have "unat (count_or_format h) \<le> 31" using assms(2) by (simp add: word_le_nat_alt)
  then show ?thesis
    using assms(1) Sdes_ParseChunks_total [of 0 "[]" 4 "unat (count_or_format h)" "payload_view h" 0]
    by (auto simp: Sdes_Parse_def sdes_valid_def kHeaderLength_def kMaxNumberOfChunks_def)
qed

interpretation sdesp: rtcp_parser Sdes_Parse "\<lambda>h. packet_type h = kSdesPacketType"
proof unfold_locales
  fix h p
  assume "wf_header h" "packet_type h = kSdesPacketType"
  then show "Sdes_Parse p h \<noteq> None"
    using Sdes_Parse_total [of h p] by (auto simp: wf_header_def)
qed

lemma put_chunk:
  assumes "length (cname c) \<le> 255" "j = i + length bs"
  shows "Option.bind (put data i bs) (\<lambda>pkt. Option.bind (do {
         pkt \<leftarrow> WriteBE32 pkt (j + 0) (chunk_ssrc c);
         pkt \<leftarrow> WriteBE8 pkt (j + 4) kCnameTag;
         pkt \<leftarrow> WriteBE8 pkt (j + 5) (word_of_nat (length (cname c)));
         pkt \<leftarrow> copy_to pkt (j + 6) (cname c);
         let index = j + (6 + length (cname c));
         let padding_size = 4 - (6 + length (cname c)) mod 4;
         pkt \<leftarrow> copy_to pkt index (replicate padding_size 0);
         Some (pkt, index + padding_size)
       }) f) = Option.bind (put data i (bs @ chunk_wire c)) (\<lambda>d. f (d, j + length (chunk_wire c)))"
proof -
  have len: "length (chunk_wire c) = 6 + length (cname c) + (4 - (6 + length (cname c)) mod 4)"
    by (simp add: ChunkSize_def Let_def)
  show ?thesis
    unfolding len using assms
    by (simp add: write_simps Let_def kCnameTag_def chunk_wire_def add.assoc)
qed

lemma sdes_validD:
  assumes "sdes_valid p"
  shows "\<exists>n. length (sdes_body p) = 4 * n \<and> n \<le> 65535" "length (chunks p) \<le> 31"
    "Sdes_BlockLength p = 4 + length (sdes_body p)"
proof -
  show c: "length (chunks p) \<le> 31" and "Sdes_BlockLength p = 4 + length (sdes_body p)"
    using assms by (simp_all add: sdes_valid_def kMaxNumberOfChunks_def Sdes_BlockLength_def
        length_sdes_body kHeaderLength_def)
  obtain n where n: "length (sdes_body p) = 4 * n" "n \<le> 67 * length (chunks p)"
    using sum_ChunkSize [of "chunks p"] assms by (auto simp: sdes_valid_def length_sdes_body)
  then show "\<exists>n. length (sdes_body p) = 4 * n \<and> n \<le> 65535" using c by auto
qed

lemma Sdes_Create_emits:
  assumes "sdes_valid p"
  shows "Sdes_Create p = create_at (Sdes_BlockLength p) (emit (sdes_wire p))"
proof -
  obtain n where n: "length (sdes_body p) = 4 * n" "n \<le> 65535" using sdes_validD(1) [OF assms] by blast
  then have body: "length (concat (map chunk_wire (chunks p))) = 4 * n" by (simp add: sdes_body_def)
  have "length (cname c) \<le> 255" if "c \<in> set (chunks p)" for c
    using assms that by (auto simp: sdes_valid_def list_all_iff)
  note chunk = put_chunk [OF this]
  have "Option.bind (put pkt index (header_wire (length (chunks p)) kSdesPacketType n False))
     (\<lambda>pkt. Option.bind (write_all (\<lambda>chunk pkt index. do {
         pkt \<leftarrow> WriteBE32 pkt (index + 0) (chunk_ssrc chunk);
         pkt \<leftarrow> WriteBE8 pkt (index + 4) kCnameTag;
         pkt \<leftarrow> WriteBE8 pkt (index + 5) (word_of_nat (length (cname chunk)));
         pkt \<leftarrow> copy_to pkt (index + 6) (cname chunk);
         let index = index + (6 + length (cname chunk));
         let padding_size = 4 - (6 + length (cname chunk)) mod 4;
         pkt \<leftarrow> copy_to pkt index (replicate padding_size 0);
         Some (pkt, index + padding_size)
       }) (chunks p) pkt (index + 4)) f)
    = Option.bind (put pkt index (header_wire (length (chunks p)) kSdesPacketType n False @ sdes_body p))
        (\<lambda>d. f (d, index + 4 + 4 * n))" for pkt index and f :: "u8 list \<times> nat \<Rightarrow> (u8 list \<times> nat) option"
    unfolding sdes_body_def body [symmetric]
    by (rule put_write_all) (rule chunk, simp_all)
  then show ?thesis
    using sdes_validD(2,3) [OF assms] n
    by (simp add: Sdes_Create_def sdes_validD(3) [OF assms] write_simps emit_def [abs_def] sdes_wire_def
      ac_simps)
qed

interpretation sdes: rtcp_serializer Sdes_BlockLength Sdes_Create sdes_wire sdes_valid
  by unfold_locales (simp_all add: Sdes_Create_emits sdes_wire_def sdes_validD(3))

lemma Sdes_ParseItems_wire:
  assumes "length nm \<le> 255" "0 < k" "la = length ys"
  shows "Sdes_ParseItems (ys @ 1 # word_of_nat (length nm) # nm @ replicate k 0 @ zs) la False [] =
    Some (True, la + 3 + length nm, True, nm)"
proof -
  obtain k' where k: "k = Suc k'" using assms(2) by (cases k) auto
  show ?thesis
    using assms(1,3) k
    by (subst Sdes_ParseItems.simps, simp add: read_simps kTerminatorTag_def kCnameTag_def,
        subst Sdes_ParseItems.simps, simp add: read_simps kTerminatorTag_def)
qed

lemma Sdes_ParseChunks_wire:
  assumes "list_all (\<lambda>c. length (cname c) \<le> 255) cs" "n = i + length cs" "la = length ys"
  shows "Sdes_ParseChunks (ys @ concat (map chunk_wire cs)) n i la acc blen =
    Some (True, acc @ cs, blen + sum_list (map ChunkSize cs))"
  using assms
proof (induction cs arbitrary: i la ys acc blen)
  case Nil
  then show ?case by (subst Sdes_ParseChunks.simps) simp
next
  case (Cons c cs)
  let ?nm = "cname c" and ?rest = "concat (map chunk_wire cs)"
  let ?data = "ys @ chunk_wire c @ ?rest"
  define k where "k = 4 - (6 + length ?nm) mod 4"
  have k: "0 < k" "k \<le> 4" "ChunkSize c = 6 + length ?nm + k" by (simp_all add: k_def ChunkSize_def)
  obtain m where m: "length ?rest = 4 * m"
    using sum_ChunkSize [of cs] Cons.prems(1) by (auto simp: length_concat o_def)
  have c: "chunk_wire c = be_bytes 4 (chunk_ssrc c) @ 1 # word_of_nat (length ?nm) # ?nm @ replicate k 0"
    by (simp add: chunk_wire_def k_def)
  have items: "Sdes_ParseItems ?data (la + 4) False [] = Some (True, la + 7 + length ?nm, True, ?nm)"
    using Cons.prems k Sdes_ParseItems_wire [of ?nm k "la + 4" "ys @ be_bytes 4 (chunk_ssrc c)" ?rest]
    by (simp add: c add.commute)
  have ssrc: "ReadBE32 ?data la = Some (chunk_ssrc c)"
    using Cons.prems by (simp add: c read_simps)
  have "length ?data - (la + 7 + length ?nm) = (k - 1) + 4 * m"
    using Cons.prems(3) k m by simp
  moreover have "((k - 1) + 4 * m) mod 4 = k - 1" using k(1,2) by (cases k) simp_all
  ultimately have "(length ?data - (la + 7 + length ?nm)) mod 4 = k - 1" by (simp only:)
  then have next_at:
      "la + 7 + length ?nm + (length ?data - (la + 7 + length ?nm)) mod 4 = la + ChunkSize c"
    using k(1,3) by linarith
  have room: "\<not> length ?data - la < 8"
    using ChunkSize_words [of c] Cons.prems(3) by auto
  have eta: "\<lparr>chunk_ssrc = chunk_ssrc c, cname = cname c\<rparr> = c" by simp
  have "Sdes_ParseChunks ?data n i la acc blen =
      Sdes_ParseChunks ?data n (i + 1) (la + ChunkSize c) (acc @ [c]) (blen + ChunkSize c)"
    using Cons.prems(2)
    by (subst Sdes_ParseChunks.simps) (simp only: room items ssrc next_at eta Let_def option.case
        prod.case if_True if_False not_True_eq_False list.size, simp)
  also have "?data = (ys @ chunk_wire c) @ ?rest" by simp
  also have "Sdes_ParseChunks \<dots> n (i + 1) (la + ChunkSize c) (acc @ [c]) (blen + ChunkSize c)
      = Some (True, (acc @ [c]) @ cs, blen + ChunkSize c + sum_list (map ChunkSize cs))"
    using Cons.prems by (intro Cons.IH) simp_all
  finally show ?case by (simp add: add.assoc)
qed

text \<open>The sender SSRC is not part of this packet, so it keeps the value the object had.\<close>

lemma Sdes_Parse_wire:
  assumes "sdes_valid p"
  shows "\<exists>h. CommonHeader_Parse h0 (sdes_wire p @ rest) = Some (True, h) \<and> NextPacket h = rest \<and>
    Sdes_Parse q h = Some (True, p\<lparr>sender_ssrc := sender_ssrc q\<rparr>)"
proof -
  let ?b = "sdes_body p"
  obtain n where n: "length ?b = 4 * n" "n \<le> 65535" using sdes_validD(1) [OF assms] by blast
  let ?h = "h0\<lparr>packet_type := kSdesPacketType, count_or_format := word_of_nat (length (chunks p)),
      padding_size := 0, payload_size := length ?b, payload := ?b @ rest\<rparr>"
  have "CommonHeader_Parse h0 (header_wire (length (chunks p)) kSdesPacketType n False @ ?b @ rest)
      = Some (True, ?h)"
    using n sdes_validD(2) [OF assms] by (intro CommonHeader_Parse_wire) simp_all
  moreover have "Sdes_ParseChunks ?b (length (chunks p)) 0 0 [] 4 =
      Some (True, chunks p, 4 + sum_list (map ChunkSize (chunks p)))"
    using assms Sdes_ParseChunks_wire [of "chunks p" "length (chunks p)" 0 0 "[]" "[]" 4]
    by (simp add: sdes_body_def sdes_valid_def)
  then have "Sdes_Parse q ?h = Some (True, p\<lparr>sender_ssrc := sender_ssrc q\<rparr>)"
    using assms sdes_validD(2) [OF assms]
    by (simp add: Sdes_Parse_def payload_view_def kHeaderLength_def sdes_valid_def)
  ultimately show ?thesis using n(1) by (auto simp: sdes_wire_def NextPacket_def)
qed

text \<open>
  The objects a client can get: a default object changed by any sequence of calls.  The cached
  \<^verbatim>\<open>block_length_\<close> of all of them is exact, which is what \<open>Sdes_Create\<close> relies on.
\<close>

inductive sdes_reachable :: "sdes \<Rightarrow> bool" where
  sdes_init: "sdes_reachable Sdes_default"
| sdes_ssrc: "sdes_reachable p \<Longrightarrow> sdes_reachable (SetSenderSsrc s p)"
| sdes_add: "sdes_reachable p \<Longrightarrow> AddCName p s nm = Some (ok, p') \<Longrightarrow> sdes_reachable p'"
| sdes_parse: "sdes_reachable p \<Longrightarrow> packet_type h = kSdesPacketType \<Longrightarrow> count_or_format h \<le> 31 \<Longrightarrow>
    Sdes_Parse p h = Some (ok, p') \<Longrightarrow> sdes_reachable p'"

lemma sdes_reachable_valid: "sdes_reachable p \<Longrightarrow> sdes_valid p"
proof (induction rule: sdes_reachable.induct)
  case (sdes_parse p h ok p')
  then show ?case using Sdes_Parse_total [of h p] by (cases ok) auto
next
  case (sdes_ssrc p s)
  then show ?case by (simp add: sdes_valid_def SetSenderSsrc_def)
qed (simp_all add: Sdes_default_valid AddCName_valid)

end
