(* ===== verification/Rtcp_Feedback.thy ===== *)
theory Rtcp_Feedback
  imports Rtcp_Packet
begin

text \<open>
  Feedback messages of RFC 4585 and RFC 5104 with a fixed layout or a plain list of entries:
  \<^verbatim>\<open>rtcp_packet/{psfb,rtpfb,pli,rapid_resync_request,fir,loss_notification}.{h,cc}\<close>.
\<close>

subsection \<open>Common feedback headers\<close>

record rtpfb = rtcp_packet +
  rtpfb_media_ssrc :: u32

record psfb = rtcp_packet +
  psfb_media_ssrc :: u32

definition kRtpfbPacketType :: u8 where
  "kRtpfbPacketType = 205"

definition kPsfbPacketType :: u8 where
  "kPsfbPacketType = 206"

definition kAfbMessageType :: u8 where
  "kAfbMessageType = 15"

definition kCommonFeedbackLength :: nat where
  "kCommonFeedbackLength = 8"

definition Rtpfb_ParseCommonFeedback :: "u8 list \<Rightarrow> 'a rtpfb_scheme \<Rightarrow> 'a rtpfb_scheme option" where
  "Rtpfb_ParseCommonFeedback data p = do {
     sender \<leftarrow> ReadBE32 data 0;
     media \<leftarrow> ReadBE32 data 4;
     Some ((SetSenderSsrc sender p)\<lparr>rtpfb_media_ssrc := media\<rparr>)
   }"

definition Rtpfb_CreateCommonFeedback :: "'a rtpfb_scheme \<Rightarrow> u8 list \<Rightarrow> nat \<Rightarrow> u8 list option" where
  "Rtpfb_CreateCommonFeedback p pkt off = do {
     pkt \<leftarrow> WriteBE32 pkt (off + 0) (sender_ssrc p);
     WriteBE32 pkt (off + 4) (rtpfb_media_ssrc p)
   }"

definition Psfb_ParseCommonFeedback :: "u8 list \<Rightarrow> 'a psfb_scheme \<Rightarrow> 'a psfb_scheme option" where
  "Psfb_ParseCommonFeedback data p = do {
     sender \<leftarrow> ReadBE32 data 0;
     media \<leftarrow> ReadBE32 data 4;
     Some ((SetSenderSsrc sender p)\<lparr>psfb_media_ssrc := media\<rparr>)
   }"

definition Psfb_CreateCommonFeedback :: "'a psfb_scheme \<Rightarrow> u8 list \<Rightarrow> nat \<Rightarrow> u8 list option" where
  "Psfb_CreateCommonFeedback p pkt off = do {
     pkt \<leftarrow> WriteBE32 pkt (off + 0) (sender_ssrc p);
     WriteBE32 pkt (off + 4) (psfb_media_ssrc p)
   }"

definition rtpfb_common :: "'a rtpfb_scheme \<Rightarrow> u8 list" where
  "rtpfb_common p = be_bytes 4 (sender_ssrc p) @ be_bytes 4 (rtpfb_media_ssrc p)"

definition psfb_common :: "'a psfb_scheme \<Rightarrow> u8 list" where
  "psfb_common p = be_bytes 4 (sender_ssrc p) @ be_bytes 4 (psfb_media_ssrc p)"

lemma length_common [simp]: "length (rtpfb_common p) = 8" "length (psfb_common q) = 8"
  by (simp_all add: rtpfb_common_def psfb_common_def)

lemma CreateCommonFeedback_put [write_simps]:
  "Rtpfb_CreateCommonFeedback p pkt off = put pkt off (rtpfb_common p)"
  "Psfb_CreateCommonFeedback q pkt off = put pkt off (psfb_common q)"
  by (simp_all add: Rtpfb_CreateCommonFeedback_def Psfb_CreateCommonFeedback_def rtpfb_common_def
      psfb_common_def write_simps)

lemma ParseCommonFeedback_wire [read_simps]:
  "Rtpfb_ParseCommonFeedback (rtpfb_common p @ ys) q =
     Some (q\<lparr>sender_ssrc := sender_ssrc p, rtpfb_media_ssrc := rtpfb_media_ssrc p\<rparr>)"
  "Psfb_ParseCommonFeedback (psfb_common p' @ ys) q' =
     Some (q'\<lparr>sender_ssrc := sender_ssrc p', psfb_media_ssrc := psfb_media_ssrc p'\<rparr>)"
  by (simp_all add: Rtpfb_ParseCommonFeedback_def Psfb_ParseCommonFeedback_def rtpfb_common_def
      psfb_common_def read_simps SetSenderSsrc_def)

lemma ParseCommonFeedback_safe [safe_intros]:
  "8 \<le> length data \<Longrightarrow> Rtpfb_ParseCommonFeedback data p \<noteq> None"
  "8 \<le> length data \<Longrightarrow> Psfb_ParseCommonFeedback data q \<noteq> None"
  unfolding Rtpfb_ParseCommonFeedback_def Psfb_ParseCommonFeedback_def
  by (intro safe_intros; simp add: defined_simps del: not_None_eq)+

subsection \<open>Picture loss indication\<close>

type_synonym pli = psfb

definition kPliFeedbackMessageType :: u8 where
  "kPliFeedbackMessageType = 1"

definition Pli_Parse :: "pli \<Rightarrow> common_header \<Rightarrow> (bool \<times> pli) option" where
  "Pli_Parse p h = do {
     dcheck (packet_type h = kPsfbPacketType);
     dcheck (count_or_format h = kPliFeedbackMessageType);
     if payload_size h < kCommonFeedbackLength then Some (False, p)
     else do {
       p \<leftarrow> Psfb_ParseCommonFeedback (payload_view h) p;
       Some (True, p)
     }
   }"

definition Pli_BlockLength :: "pli \<Rightarrow> nat" where
  "Pli_BlockLength p = kHeaderLength + kCommonFeedbackLength"

definition Pli_Create :: "pli \<Rightarrow> nat \<Rightarrow> bool \<Rightarrow> sink \<Rightarrow> (bool \<times> sink) option" where
  "Pli_Create p = create_at (Pli_BlockLength p) (\<lambda>pkt index. do {
     hl \<leftarrow> HeaderLength (Pli_BlockLength p);
     (pkt, index) \<leftarrow> CreateHeader (unat kPliFeedbackMessageType) kPsfbPacketType hl False pkt index;
     pkt \<leftarrow> Psfb_CreateCommonFeedback p pkt index;
     let index = index + kCommonFeedbackLength;
     Some (pkt, index)
   })"

definition pli_wire :: "pli \<Rightarrow> u8 list" where
  "pli_wire p = header_wire 1 kPsfbPacketType 2 False @ psfb_common p"

lemma unat_kPliFeedbackMessageType [simp]: "unat kPliFeedbackMessageType = 1"
  by (simp add: kPliFeedbackMessageType_def)

interpretation pli: rtcp_codec Pli_BlockLength Pli_Create pli_wire "\<lambda>_. True" Pli_Parse
    kPsfbPacketType "\<lambda>_. 1" psfb_common
proof unfold_locales
  show "Pli_Parse q h = Some (True, p)"
    if "packet_type h = kPsfbPacketType" "count_or_format h = word_of_nat 1"
      "payload_size h = length (psfb_common p)" "payload_view h = psfb_common p" for p q h
    using that ParseCommonFeedback_wire(2) [of p "[]" q]
    by (simp add: Pli_Parse_def kPliFeedbackMessageType_def kCommonFeedbackLength_def)
  show "Pli_Create p = create_at (Pli_BlockLength p) (emit (pli_wire p))" for p
    by (simp add: Pli_Create_def Pli_BlockLength_def kHeaderLength_def kCommonFeedbackLength_def
        write_simps emit_def [abs_def] pli_wire_def ac_simps)
qed (simp_all add: pli_wire_def Pli_BlockLength_def kHeaderLength_def kCommonFeedbackLength_def)

interpretation plip: rtcp_parser Pli_Parse
    "\<lambda>h. packet_type h = kPsfbPacketType \<and> count_or_format h = kPliFeedbackMessageType"
  unfolding Pli_Parse_def kCommonFeedbackLength_def
  by unfold_locales (intro safe_intros; simp)

subsection \<open>Rapid resynchronisation request\<close>

type_synonym rapid_resync_request = rtpfb

definition kRrrFeedbackMessageType :: u8 where
  "kRrrFeedbackMessageType = 5"

definition RapidResyncRequest_Parse ::
    "rapid_resync_request \<Rightarrow> common_header \<Rightarrow> (bool \<times> rapid_resync_request) option" where
  "RapidResyncRequest_Parse p h = do {
     dcheck (packet_type h = kRtpfbPacketType);
     dcheck (count_or_format h = kRrrFeedbackMessageType);
     if payload_size h \<noteq> kCommonFeedbackLength then Some (False, p)
     else do {
       p \<leftarrow> Rtpfb_ParseCommonFeedback (payload_view h) p;
       Some (True, p)
     }
   }"

definition RapidResyncRequest_BlockLength :: "rapid_resync_request \<Rightarrow> nat" where
  "RapidResyncRequest_BlockLength p = kHeaderLength + kCommonFeedbackLength"

definition RapidResyncRequest_Create ::
    "rapid_resync_request \<Rightarrow> nat \<Rightarrow> bool \<Rightarrow> sink \<Rightarrow> (bool \<times> sink) option" where
  "RapidResyncRequest_Create p = create_at (RapidResyncRequest_BlockLength p) (\<lambda>pkt index. do {
     hl \<leftarrow> HeaderLength (RapidResyncRequest_BlockLength p);
     (pkt, index) \<leftarrow> CreateHeader (unat kRrrFeedbackMessageType) kRtpfbPacketType hl False pkt index;
     pkt \<leftarrow> Rtpfb_CreateCommonFeedback p pkt index;
     let index = index + kCommonFeedbackLength;
     Some (pkt, index)
   })"

definition rrr_wire :: "rapid_resync_request \<Rightarrow> u8 list" where
  "rrr_wire p = header_wire 5 kRtpfbPacketType 2 False @ rtpfb_common p"

lemma unat_kRrrFeedbackMessageType [simp]: "unat kRrrFeedbackMessageType = 5"
  by (simp add: kRrrFeedbackMessageType_def)

interpretation rrr: rtcp_codec RapidResyncRequest_BlockLength RapidResyncRequest_Create rrr_wire
    "\<lambda>_. True" RapidResyncRequest_Parse kRtpfbPacketType "\<lambda>_. 5" rtpfb_common
proof unfold_locales
  show "RapidResyncRequest_Parse q h = Some (True, p)"
    if "packet_type h = kRtpfbPacketType" "count_or_format h = word_of_nat 5"
      "payload_size h = length (rtpfb_common p)" "payload_view h = rtpfb_common p" for p q h
    using that ParseCommonFeedback_wire(1) [of p "[]" q]
    by (simp add: RapidResyncRequest_Parse_def kRrrFeedbackMessageType_def kCommonFeedbackLength_def)
  show "RapidResyncRequest_Create p = create_at (RapidResyncRequest_BlockLength p) (emit (rrr_wire p))"
    for p
    by (simp add: RapidResyncRequest_Create_def RapidResyncRequest_BlockLength_def kHeaderLength_def
        kCommonFeedbackLength_def write_simps emit_def [abs_def]
        rrr_wire_def ac_simps)
qed (simp_all add: rrr_wire_def RapidResyncRequest_BlockLength_def kHeaderLength_def
    kCommonFeedbackLength_def)

interpretation rrrp: rtcp_parser RapidResyncRequest_Parse
    "\<lambda>h. packet_type h = kRtpfbPacketType \<and> count_or_format h = kRrrFeedbackMessageType"
  unfolding RapidResyncRequest_Parse_def kCommonFeedbackLength_def
  by unfold_locales (intro safe_intros; simp)

subsection \<open>Full intra request\<close>

record fir_request =
  fir_ssrc :: u32
  fir_seq_nr :: u8

record fir = psfb +
  fir_items :: "fir_request list"

definition kFirFeedbackMessageType :: u8 where
  "kFirFeedbackMessageType = 4"

definition kFciLength :: nat where
  "kFciLength = 8"

definition Fir_Parse :: "fir \<Rightarrow> common_header \<Rightarrow> (bool \<times> fir) option" where
  "Fir_Parse p h = do {
     dcheck (packet_type h = kPsfbPacketType);
     dcheck (count_or_format h = kFirFeedbackMessageType);
     if payload_size h < kCommonFeedbackLength + kFciLength then Some (False, p)
     else if (payload_size h - kCommonFeedbackLength) mod kFciLength \<noteq> 0 then Some (False, p)
     else do {
       p \<leftarrow> Psfb_ParseCommonFeedback (payload_view h) p;
       let number_of_fci_items = (payload_size h - kCommonFeedbackLength) div kFciLength;
       (items, _) \<leftarrow> read_each (\<lambda>data next_fci. do {
           ssrc \<leftarrow> ReadBE32 data next_fci;
           seq_nr \<leftarrow> ReadBE8 data (next_fci + 4);
           Some \<lparr>fir_ssrc = ssrc, fir_seq_nr = seq_nr\<rparr>
         }) kFciLength number_of_fci_items (payload_view h) kCommonFeedbackLength;
       Some (True, p\<lparr>fir_items := items\<rparr>)
     }
   }"

definition AddRequestTo :: "fir \<Rightarrow> u32 \<Rightarrow> u8 \<Rightarrow> fir" where
  "AddRequestTo p ssrc seq_num =
     p\<lparr>fir_items := fir_items p @ [\<lparr>fir_ssrc = ssrc, fir_seq_nr = seq_num\<rparr>]\<rparr>"

definition Fir_BlockLength :: "fir \<Rightarrow> nat" where
  "Fir_BlockLength p = kHeaderLength + kCommonFeedbackLength + kFciLength * length (fir_items p)"

definition Fir_Create :: "fir \<Rightarrow> nat \<Rightarrow> bool \<Rightarrow> sink \<Rightarrow> (bool \<times> sink) option" where
  "Fir_Create p max_length cb st = do {
     dcheck (fir_items p \<noteq> []);
     create_at (Fir_BlockLength p) (\<lambda>pkt index. do {
       let index_end = index + Fir_BlockLength p;
       hl \<leftarrow> HeaderLength (Fir_BlockLength p);
       (pkt, index) \<leftarrow> CreateHeader (unat kFirFeedbackMessageType) kPsfbPacketType hl False pkt index;
       dcheck (psfb_media_ssrc p = 0);
       pkt \<leftarrow> Psfb_CreateCommonFeedback p pkt index;
       let index = index + kCommonFeedbackLength;
       (pkt, index) \<leftarrow> write_each (\<lambda>request pkt index. do {
           pkt \<leftarrow> WriteBE32 pkt index (fir_ssrc request);
           pkt \<leftarrow> WriteBE8 pkt (index + 4) (fir_seq_nr request);
           WriteBE24 pkt (index + 5) 0
         }) kFciLength (fir_items p) pkt index;
       dcheck (index = index_end);
       Some (pkt, index)
     }) max_length cb st
   }"

text \<open>
  What \<open>Create\<close> asserts, and the largest number of entries the 16-bit length field of the common
  header can describe.
\<close>

definition fir_valid :: "fir \<Rightarrow> bool" where
  "fir_valid p \<longleftrightarrow> fir_items p \<noteq> [] \<and> psfb_media_ssrc p = 0 \<and> length (fir_items p) \<le> 32766"

definition fir_request_wire :: "fir_request \<Rightarrow> u8 list" where
  "fir_request_wire r = be_bytes 4 (fir_ssrc r) @ [fir_seq_nr r] @ be_bytes 3 (0 :: u32)"

definition fir_body :: "fir \<Rightarrow> u8 list" where
  "fir_body p = psfb_common p @ concat (map fir_request_wire (fir_items p))"

definition fir_wire :: "fir \<Rightarrow> u8 list" where
  "fir_wire p = header_wire 4 kPsfbPacketType (length (fir_body p) div 4) False @ fir_body p"

lemma unat_kFirFeedbackMessageType [simp]: "unat kFirFeedbackMessageType = 4"
  by (simp add: kFirFeedbackMessageType_def)

lemma length_fir_request_wire [simp]: "length (fir_request_wire r) = 8"
  by (simp add: fir_request_wire_def)

lemma length_fir_body [simp]: "length (fir_body p) = 8 + 8 * length (fir_items p)"
  by (simp add: fir_body_def length_concat_const)

lemma Fir_Create_emits:
  assumes "fir_valid p"
  shows "Fir_Create p = create_at (Fir_BlockLength p) (emit (fir_wire p))"
  using assms
  by (simp add: Fir_Create_def [abs_def] Fir_BlockLength_def kHeaderLength_def fir_valid_def
      kCommonFeedbackLength_def kFciLength_def write_simps
      put_write_each [where enc = fir_request_wire] fir_request_wire_def
      emit_def [abs_def] fir_wire_def fir_body_def length_concat_const ac_simps)

lemma Fir_Parse_body:
  assumes "fir_valid p" "packet_type h = kPsfbPacketType" "count_or_format h = word_of_nat 4"
    "payload_size h = length (fir_body p)" "payload_view h = fir_body p"
  shows "Fir_Parse q h = Some (True, p)"
proof -
  let ?r = "\<lambda>data next_fci. do { ssrc \<leftarrow> ReadBE32 data next_fci; seq_nr \<leftarrow> ReadBE8 data (next_fci + 4);
           Some \<lparr>fir_ssrc = ssrc, fir_seq_nr = seq_nr\<rparr> }"
  have "read_each ?r 8 (length (fir_items p)) (psfb_common p @ concat (map fir_request_wire (fir_items p)) @ [])
      8 = Some (fir_items p, 8 + 8 * length (fir_items p))"
    by (rule read_each_wire) (simp_all add: fir_request_wire_def read_simps)
  moreover have "0 < length (fir_items p)" using assms(1) by (simp add: fir_valid_def)
  ultimately show ?thesis
    using assms
    by (simp add: Fir_Parse_def kFirFeedbackMessageType_def kCommonFeedbackLength_def kFciLength_def
        fir_body_def read_simps length_concat_const)
qed

interpretation fir: rtcp_codec Fir_BlockLength Fir_Create fir_wire fir_valid Fir_Parse
    kPsfbPacketType "\<lambda>_. 4" fir_body
  by unfold_locales
    (auto simp: Fir_Create_emits Fir_Parse_body fir_wire_def Fir_BlockLength_def kHeaderLength_def
      kCommonFeedbackLength_def kFciLength_def fir_valid_def)

interpretation firp: rtcp_parser Fir_Parse
    "\<lambda>h. packet_type h = kPsfbPacketType \<and> count_or_format h = kFirFeedbackMessageType"
  unfolding Fir_Parse_def kCommonFeedbackLength_def kFciLength_def Let_def
  by unfold_locales (intro safe_intros; auto simp add: defined_simps simp del: not_None_eq)

subsection \<open>Loss notification\<close>

record loss_notification = psfb +
  last_decoded :: u16
  last_received :: u16
  decodability_flag :: bool

definition kLntfUniqueIdentifier :: u32 where
  "kLntfUniqueIdentifier = 0x4C4E5446"

definition kLossNotificationPayloadLength :: nat where
  "kLossNotificationPayloadLength = 8"

definition LossNotification_BlockLength :: "loss_notification \<Rightarrow> nat" where
  "LossNotification_BlockLength p =
     kHeaderLength + kCommonFeedbackLength + kLossNotificationPayloadLength"

definition LossNotification_Create ::
    "loss_notification \<Rightarrow> nat \<Rightarrow> bool \<Rightarrow> sink \<Rightarrow> (bool \<times> sink) option" where
  "LossNotification_Create p = create_at (LossNotification_BlockLength p) (\<lambda>pkt index. do {
     let index_end = index + LossNotification_BlockLength p;
     hl \<leftarrow> HeaderLength (LossNotification_BlockLength p);
     (pkt, index) \<leftarrow> CreateHeader (unat kAfbMessageType) kPsfbPacketType hl False pkt index;
     pkt \<leftarrow> Psfb_CreateCommonFeedback p pkt index;
     let index = index + kCommonFeedbackLength;
     pkt \<leftarrow> WriteBE32 pkt index kLntfUniqueIdentifier;
     let index = index + 4;
     pkt \<leftarrow> WriteBE16 pkt index (last_decoded p);
     let index = index + 2;
     let last_received_delta = last_received p - last_decoded p;
     dcheck (last_received_delta \<le> 0x7fff);
     let last_received_delta_and_decodability =
       push_bit 1 last_received_delta OR (if decodability_flag p then 1 else 0);
     pkt \<leftarrow> WriteBE16 pkt index last_received_delta_and_decodability;
     let index = index + 2;
     dcheck (index_end = index);
     Some (pkt, index)
   })"

definition LossNotification_Parse ::
    "loss_notification \<Rightarrow> common_header \<Rightarrow> (bool \<times> loss_notification) option" where
  "LossNotification_Parse p h = do {
     dcheck (packet_type h = kPsfbPacketType);
     dcheck (count_or_format h = kAfbMessageType);
     if payload_size h < kCommonFeedbackLength + kLossNotificationPayloadLength then Some (False, p)
     else do {
       let payload = payload_view h;
       identifier \<leftarrow> ReadBE32 payload 8;
       if identifier \<noteq> kLntfUniqueIdentifier then Some (False, p)
       else do {
         p \<leftarrow> Psfb_ParseCommonFeedback payload p;
         decoded \<leftarrow> ReadBE16 payload 12;
         last_received_delta_and_decodability \<leftarrow> ReadBE16 payload 14;
         Some (True, p\<lparr>last_decoded := decoded,
           last_received := decoded + drop_bit 1 last_received_delta_and_decodability,
           decodability_flag := (last_received_delta_and_decodability AND 1 \<noteq> 0)\<rparr>)
       }
     }
   }"

definition LossNotification_Set ::
    "loss_notification \<Rightarrow> u16 \<Rightarrow> u16 \<Rightarrow> bool \<Rightarrow> bool \<times> loss_notification" where
  "LossNotification_Set p decoded received flag =
     (let delta = received - decoded in
      if delta > 0x7fff then (False, p)
      else (True, p\<lparr>last_received := received, last_decoded := decoded, decodability_flag := flag\<rparr>))"

definition lntf_valid :: "loss_notification \<Rightarrow> bool" where
  "lntf_valid p \<longleftrightarrow> last_received p - last_decoded p \<le> 0x7fff"

definition lntf_body :: "loss_notification \<Rightarrow> u8 list" where
  "lntf_body p = psfb_common p @ be_bytes 4 kLntfUniqueIdentifier @ be_bytes 2 (last_decoded p)
     @ be_bytes 2 (push_bit 1 (last_received p - last_decoded p) OR (if decodability_flag p then 1 else 0))"

definition lntf_wire :: "loss_notification \<Rightarrow> u8 list" where
  "lntf_wire p = header_wire 15 kPsfbPacketType 4 False @ lntf_body p"

lemma unat_kAfbMessageType [simp]: "unat kAfbMessageType = 15"
  by (simp add: kAfbMessageType_def)

lemma length_lntf_body [simp]: "length (lntf_body p) = 16"
  by (simp add: lntf_body_def)

lemma LossNotification_Create_emits:
  "lntf_valid p \<Longrightarrow>
     LossNotification_Create p = create_at (LossNotification_BlockLength p) (emit (lntf_wire p))"
  by (simp add: LossNotification_Create_def LossNotification_BlockLength_def kHeaderLength_def
      kCommonFeedbackLength_def kLossNotificationPayloadLength_def lntf_valid_def write_simps
      emit_def [abs_def] lntf_wire_def lntf_body_def Let_def ac_simps)

text \<open>Fifteen bits of delta and one flag bit share a 16-bit word without loss.\<close>

lemma delta_and_flag:
  fixes d :: u16
  assumes "d \<le> 0x7fff"
  shows "drop_bit 1 (push_bit 1 d OR (if f then 1 else 0)) = d"
    and "(push_bit 1 d OR (if f then 1 else 0)) AND 1 \<noteq> 0 \<longleftrightarrow> f"
proof -
  have "unat d < 2 ^ 15"
    using assms by (simp add: word_le_nat_alt)
  then have high: "bit d n \<Longrightarrow> n < 15" for n by (rule bit_imp_less)
  show "drop_bit 1 (push_bit 1 d OR (if f then 1 else 0)) = d"
    by (rule bit_word_eqI) (auto simp: bit_simps simp del: push_bit_Suc drop_bit_Suc dest: high)
  show "(push_bit 1 d OR (if f then 1 else 0)) AND 1 \<noteq> 0 \<longleftrightarrow> f"
    by (simp add: and_1_iff bit_or_iff bit_push_bit_iff del: push_bit_Suc)
qed

lemma LossNotification_Parse_body:
  assumes "lntf_valid p" "packet_type h = kPsfbPacketType" "count_or_format h = word_of_nat 15"
    "payload_size h = length (lntf_body p)" "payload_view h = lntf_body p"
  shows "LossNotification_Parse q h = Some (True, p)"
  using assms delta_and_flag [of "last_received p - last_decoded p" "decodability_flag p"]
  by (simp add: LossNotification_Parse_def kAfbMessageType_def kCommonFeedbackLength_def
      kLossNotificationPayloadLength_def lntf_body_def lntf_valid_def read_simps Let_def
      del: push_bit_Suc drop_bit_Suc)

interpretation lntf: rtcp_codec LossNotification_BlockLength LossNotification_Create lntf_wire
    lntf_valid LossNotification_Parse kPsfbPacketType "\<lambda>_. 15" lntf_body
  by unfold_locales
    (auto simp: LossNotification_Create_emits LossNotification_Parse_body lntf_wire_def
      LossNotification_BlockLength_def kHeaderLength_def kCommonFeedbackLength_def
      kLossNotificationPayloadLength_def)

interpretation lntfp: rtcp_parser LossNotification_Parse
    "\<lambda>h. packet_type h = kPsfbPacketType \<and> count_or_format h = kAfbMessageType"
  unfolding LossNotification_Parse_def kCommonFeedbackLength_def kLossNotificationPayloadLength_def
    Let_def
  by unfold_locales (intro safe_intros; auto simp add: defined_simps simp del: not_None_eq)

text \<open>
  \<open>Set\<close> establishes what \<open>Create\<close> asserts, and refuses exactly the pairs whose distance does not
  fit the fifteen bits of the wire format.
\<close>

lemma LossNotification_Set_valid:
  "LossNotification_Set p decoded received flag = (True, p') \<Longrightarrow> lntf_valid p'"
  by (auto simp: LossNotification_Set_def lntf_valid_def Let_def split: if_splits)

lemma LossNotification_Set_refuses:
  "fst (LossNotification_Set p decoded received flag) \<longleftrightarrow> received - decoded \<le> 0x7fff"
  by (auto simp: LossNotification_Set_def Let_def)

end
