(* ===== verification/Rtcp_Bitrate.thy ===== *)
theory Rtcp_Bitrate
  imports Rtcp_Feedback
begin

text \<open>
  Messages that carry a bitrate as a mantissa and an exponent:
  \<^verbatim>\<open>rtcp_packet/{tmmb_item,tmmbr,tmmbn,remb}.{h,cc}\<close>.

  The encoders drop low-order bits until the mantissa fits its field, so what a receiver sees is
  the bitrate rounded down (\<open>quantize\<close>).  The packets satisfy the contract \<open>rtcp_lossy_codec\<close>.
\<close>

subsection \<open>Mantissa and exponent\<close>

lemma unat_drop_bit_div: "unat (drop_bit k (b :: 'a::len word)) = unat b div 2 ^ k"
  unfolding unat_drop_bit_eq by (simp add: drop_bit_eq_div)

lemma drop_bit_1_less: "k < m \<Longrightarrow> unat (drop_bit 1 (m :: 'a::len word)) < unat m"
  unfolding unat_drop_bit_div by (simp add: word_less_nat_alt)

text \<open>\<^verbatim>\<open>while (mantissa > kMaxMantissa) { mantissa >>= 1; ++exponent; }\<close>\<close>

function shrink_mantissa :: "u64 \<Rightarrow> u64 \<Rightarrow> 'e::len word \<Rightarrow> u64 \<times> 'e word" where
  "shrink_mantissa kMaxMantissa mantissa exponent =
     (if mantissa > kMaxMantissa
      then shrink_mantissa kMaxMantissa (drop_bit 1 mantissa) (exponent + 1)
      else (mantissa, exponent))"
  by pat_completeness auto
termination
  by (relation "measure (\<lambda>(_, m, _). unat m)") (simp_all add: drop_bit_1_less [simplified] del: drop_bit_Suc)

text \<open>The number of bits that do not fit, and the value that is left without them.\<close>

function excess_bits :: "u64 \<Rightarrow> u64 \<Rightarrow> nat" where
  "excess_bits K b = (if b > K then Suc (excess_bits K (drop_bit 1 b)) else 0)"
  by pat_completeness auto
termination
  by (relation "measure (\<lambda>(_, m). unat m)") (simp_all add: drop_bit_1_less [simplified] del: drop_bit_Suc)

declare shrink_mantissa.simps [simp del] excess_bits.simps [simp del]

definition quantize :: "u64 \<Rightarrow> u64 \<Rightarrow> u64" where
  "quantize K b = push_bit (excess_bits K b) (drop_bit (excess_bits K b) b)"

lemma shrink_mantissa_eq:
  "shrink_mantissa K b e = (drop_bit (excess_bits K b) b, e + word_of_nat (excess_bits K b))"
proof (induction K b e rule: shrink_mantissa.induct)
  case (1 K m e)
  then show ?case
    by (subst shrink_mantissa.simps, subst (1 2) excess_bits.simps)
      (simp add: drop_bit_drop_bit ac_simps)
qed

lemma excess_bits_spec:
  "drop_bit (excess_bits K b) b \<le> K \<and>
     (0 < excess_bits K b \<longrightarrow> K < drop_bit (excess_bits K b - 1) b)"
proof (induction K b rule: excess_bits.induct)
  case (1 K b)
  show ?case
  proof (cases "K < b")
    case True
    with 1 [OF True] show ?thesis
      by (subst (1 2 3) excess_bits.simps)
        (cases "excess_bits K (drop_bit 1 b)"; simp add: drop_bit_drop_bit ac_simps)
  next
    case False
    then show ?thesis by (subst (1 2 3) excess_bits.simps) (simp add: not_less)
  qed
qed

text \<open>
  With a mantissa of \<open>n\<close> bits the exponent stays at most \<open>64 - n\<close>, and after any shift the top bit
  of the mantissa is set.
\<close>

lemma excess_bits_mask:
  fixes b :: u64
  assumes "unat K = 2 ^ n - 1" "0 < n" "n \<le> 64"
  defines "k \<equiv> excess_bits K b"
  shows "unat b div 2 ^ k < 2 ^ n" "0 < k \<Longrightarrow> 2 ^ (n - 1) \<le> unat b div 2 ^ k" "k \<le> 64 - n"
proof -
  have pos: "(0::nat) < 2 ^ n" by simp
  have "unat b div 2 ^ k \<le> 2 ^ n - 1"
    using excess_bits_spec [of K b] assms(1) by (simp add: k_def word_le_nat_alt unat_drop_bit_div)
  with pos show "unat b div 2 ^ k < 2 ^ n" by linarith
  have big: "2 ^ n \<le> unat b div 2 ^ (k - 1)" if "0 < k"
  proof -
    have "2 ^ n - 1 < unat b div 2 ^ (k - 1)"
      using excess_bits_spec [of K b] that assms(1)
      by (simp add: k_def word_less_nat_alt unat_drop_bit_div)
    with pos show ?thesis by linarith
  qed
  show "2 ^ (n - 1) \<le> unat b div 2 ^ k" if "0 < k"
  proof -
    have "unat b div 2 ^ k = unat b div 2 ^ (k - 1) div 2"
      using that by (metis div_mult2_eq power_minus_mult)
    moreover have "(2 ^ n :: nat) div 2 = 2 ^ (n - 1)"
      using assms(2) by (cases n) simp_all
    ultimately show ?thesis using div_le_mono [OF big [OF that], of 2] by simp
  qed
  show "k \<le> 64 - n"
  proof (cases "0 < k")
    case True
    have "2 ^ (n + (k - 1)) \<le> unat b div 2 ^ (k - 1) * 2 ^ (k - 1)"
      using big [OF True] by (simp add: power_add)
    also have "\<dots> \<le> unat b" by simp
    also have "\<dots> < 2 ^ 64" using unsigned_less [of b] by simp
    finally have "n + (k - 1) < 64" by (rule power_less_imp_less_exp [rotated]) simp
    with True show ?thesis by simp
  qed simp
qed

text \<open>The receiver's check for a shift overflow never fires on what the sender wrote.\<close>

lemma drop_quantize: "drop_bit (excess_bits K b) (quantize K b) = drop_bit (excess_bits K b) b"
  by (rule bit_word_eqI) (auto simp: quantize_def bit_simps dest: bit_imp_le_length)

lemma unat_quantize: "unat (quantize K b) = unat b div 2 ^ excess_bits K b * 2 ^ excess_bits K b"
proof -
  let ?k = "excess_bits K b"
  have "unat b div 2 ^ ?k * 2 ^ ?k \<le> unat b" by simp
  also have "\<dots> < 2 ^ 64" using unsigned_less [of b] by simp
  finally have "unat b div 2 ^ ?k * 2 ^ ?k < 2 ^ 64" .
  then show ?thesis
    unfolding quantize_def unsigned_push_bit_eq unat_drop_bit_div
    by (simp add: push_bit_eq_mult take_bit_nat_eq_self)
qed

lemma quantize_le: "quantize K b \<le> b"
  by (simp add: word_le_nat_alt unat_quantize)

lemma quantize_small: "b \<le> K \<Longrightarrow> quantize K b = b"
  by (simp add: quantize_def excess_bits.simps not_less [symmetric])

lemma quantize_error:
  assumes "unat K = 2 ^ n - 1" "0 < n" "n \<le> 64"
  shows "(unat b - unat (quantize K b)) * 2 ^ (n - 1) \<le> unat b"
proof (cases "excess_bits K b = 0")
  case True
  then show ?thesis by (simp add: unat_quantize)
next
  case False
  let ?k = "excess_bits K b"
  have "unat b - unat (quantize K b) = unat b mod 2 ^ ?k"
    by (simp add: unat_quantize minus_div_mult_eq_mod)
  also have "\<dots> \<le> 2 ^ ?k" by (simp add: less_imp_le)
  finally have "(unat b - unat (quantize K b)) * 2 ^ (n - 1) \<le> 2 ^ ?k * 2 ^ (n - 1)" by simp
  also have "\<dots> \<le> 2 ^ ?k * (unat b div 2 ^ ?k)"
    using excess_bits_mask(2) [OF assms] False by simp
  also have "\<dots> \<le> unat b" by simp
  finally show ?thesis .
qed

subsection \<open>TMMB item\<close>

record tmmb_item =
  tmmb_ssrc :: u32
  tmmb_bitrate_bps :: u64
  packet_overhead :: u16

definition TmmbItem_kLength :: nat where
  "TmmbItem_kLength = 8"

definition TmmbItem_default :: tmmb_item where
  "TmmbItem_default = \<lparr>tmmb_ssrc = 0, tmmb_bitrate_bps = 0, packet_overhead = 0\<rparr>"

definition TmmbItem :: "u32 \<Rightarrow> u64 \<Rightarrow> u16 \<Rightarrow> tmmb_item option" where
  "TmmbItem ssrc bitrate_bps overhead = do {
     dcheck (overhead \<le> 0x1ff);
     Some \<lparr>tmmb_ssrc = ssrc, tmmb_bitrate_bps = bitrate_bps, packet_overhead = overhead\<rparr>
   }"

definition TmmbItem_Parse :: "tmmb_item \<Rightarrow> u8 list \<Rightarrow> nat \<Rightarrow> (bool \<times> tmmb_item) option" where
  "TmmbItem_Parse item buffer off = do {
     ssrc \<leftarrow> ReadBE32 buffer off;
     compact \<leftarrow> ReadBE32 buffer (off + 4);
     let exponent = (ucast (drop_bit 26 compact) :: u8);
     let mantissa = (ucast (drop_bit 9 compact AND 0x1ffff) :: u64);
     let overhead = (ucast (compact AND 0x1ff) :: u16);
     let item = item\<lparr>tmmb_ssrc := ssrc, tmmb_bitrate_bps := push_bit (unat exponent) mantissa\<rparr>;
     let shift_overflow = (drop_bit (unat exponent) (tmmb_bitrate_bps item) \<noteq> mantissa);
     if shift_overflow then Some (False, item)
     else Some (True, item\<lparr>packet_overhead := overhead\<rparr>)
   }"

definition TmmbItem_Create :: "tmmb_item \<Rightarrow> u8 list \<Rightarrow> nat \<Rightarrow> u8 list option" where
  "TmmbItem_Create item buffer off = do {
     let (mantissa, exponent) = shrink_mantissa 0x1ffff (tmmb_bitrate_bps item) (0 :: u32);
     buffer \<leftarrow> WriteBE32 buffer off (tmmb_ssrc item);
     let compact = (ucast ((ucast (push_bit 26 exponent) :: u64) OR push_bit 9 mantissa
                     OR ucast (packet_overhead item)) :: u32);
     WriteBE32 buffer (off + 4) compact
   }"

definition set_packet_overhead :: "tmmb_item \<Rightarrow> u16 \<Rightarrow> tmmb_item option" where
  "set_packet_overhead item overhead = do {
     dcheck (overhead \<le> 0x1ff);
     Some (item\<lparr>packet_overhead := overhead\<rparr>)
   }"

text \<open>The loop over the resized vector of items; it stops at the first item that is refused.\<close>

fun ParseTmmbItems :: "tmmb_item list \<Rightarrow> u8 list \<Rightarrow> nat \<Rightarrow> (bool \<times> tmmb_item list) option" where
  "ParseTmmbItems [] buffer next_item = Some (True, [])"
| "ParseTmmbItems (item # items) buffer next_item = do {
     (ok, item) \<leftarrow> TmmbItem_Parse item buffer next_item;
     if \<not> ok then Some (False, item # items)
     else do {
       (ok, items) \<leftarrow> ParseTmmbItems items buffer (next_item + TmmbItem_kLength);
       Some (ok, item # items)
     }
   }"

definition tmmb_valid :: "tmmb_item \<Rightarrow> bool" where
  "tmmb_valid item \<longleftrightarrow> packet_overhead item \<le> 0x1ff"

definition tmmb_compact :: "u32 \<Rightarrow> u64 \<Rightarrow> u16 \<Rightarrow> u32" where
  "tmmb_compact e m v = ucast ((ucast (push_bit 26 e) :: u64) OR push_bit 9 m OR ucast v)"

definition tmmb_wire :: "tmmb_item \<Rightarrow> u8 list" where
  "tmmb_wire item =
     (let k = excess_bits 0x1ffff (tmmb_bitrate_bps item) in
      be_bytes 4 (tmmb_ssrc item)
        @ be_bytes 4 (tmmb_compact (word_of_nat k) (drop_bit k (tmmb_bitrate_bps item))
            (packet_overhead item)))"

definition tmmb_canon :: "tmmb_item \<Rightarrow> tmmb_item" where
  "tmmb_canon item = item\<lparr>tmmb_bitrate_bps := quantize 0x1ffff (tmmb_bitrate_bps item)\<rparr>"

lemma length_tmmb_wire [simp]: "length (tmmb_wire item) = 8"
  by (simp add: tmmb_wire_def Let_def)

lemma TmmbItem_Create_put [write_simps]: "TmmbItem_Create item buffer off = put buffer off (tmmb_wire item)"
  by (simp add: TmmbItem_Create_def shrink_mantissa_eq write_simps tmmb_wire_def tmmb_compact_def Let_def)

lemma tmmb_compact_split:
  assumes e: "unat e < 2 ^ 6" and m: "unat m < 2 ^ 17" and v: "unat v < 2 ^ 9"
  shows "drop_bit 26 (tmmb_compact e m v) = e"
    and "drop_bit 9 (tmmb_compact e m v) AND 0x1ffff = ucast m"
    and "tmmb_compact e m v AND 0x1ff = ucast v"
proof -
  have masks: "(0x1ffff :: u32) = mask 17" "(0x1ff :: u32) = mask 9"
    by (simp_all add: mask_eq_exp_minus_1)
  note high = bit_imp_less [OF e] bit_imp_less [OF m] bit_imp_less [OF v]
  show "drop_bit 26 (tmmb_compact e m v) = e"
    by (rule bit_word_eqI) (auto simp: tmmb_compact_def bit_simps dest: high)
  show "drop_bit 9 (tmmb_compact e m v) AND 0x1ffff = ucast m"
    unfolding masks by (rule bit_word_eqI) (auto simp: tmmb_compact_def bit_simps dest: high)
  show "tmmb_compact e m v AND 0x1ff = ucast v"
    unfolding masks by (rule bit_word_eqI) (auto simp: tmmb_compact_def bit_simps dest: high)
qed

lemma ucast_ucast_id:
  fixes w :: "'a::len word"
  assumes "unat w < 2 ^ LENGTH('b)"
  shows "ucast (ucast w :: 'b::len word) = w"
  by (rule bit_word_eqI) (auto simp: bit_simps dest: bit_imp_less [OF assms])

lemma excess_bits_17:
  fixes b :: u64
  shows "excess_bits 0x1ffff b \<le> 47" "unat (drop_bit (excess_bits 0x1ffff b) b) < 2 ^ 17"
  using excess_bits_mask [of "0x1ffff" 17 b] by (simp_all add: unat_drop_bit_div)

lemma unat_excess_17: "unat (word_of_nat (excess_bits 0x1ffff b) :: u32) = excess_bits 0x1ffff b"
  using excess_bits_17(1) [of b] by (simp add: unat_of_nat take_bit_nat_eq_self)

lemma TmmbItem_Parse_wire:
  assumes "tmmb_valid item"
  shows "TmmbItem_Parse q (ys @ tmmb_wire item @ zs) (length ys) = Some (True, tmmb_canon item)"
proof -
  let ?b = "tmmb_bitrate_bps item"
  let ?k = "excess_bits 0x1ffff ?b"
  let ?e = "word_of_nat ?k :: u32" and ?m = "drop_bit ?k ?b" and ?v = "packet_overhead item"
  let ?c = "tmmb_compact ?e ?m ?v"
  have e: "unat ?e < 2 ^ 6" using excess_bits_17(1) [of ?b] unat_excess_17 [of ?b] by simp
  have m: "unat ?m < 2 ^ 17" by (rule excess_bits_17(2))
  have v: "unat ?v < 2 ^ 9" using assms by (simp add: tmmb_valid_def word_le_nat_alt)
  note split = tmmb_compact_split [OF e m v]
  have "unat (ucast (drop_bit 26 ?c) :: u8) = ?k"
    unfolding split(1) using excess_bits_17(1) [of ?b]
    by (simp add: unsigned_ucast_eq unat_excess_17 take_bit_nat_eq_self)
  moreover have "(ucast (drop_bit 9 ?c AND 0x1ffff) :: u64) = ?m"
    unfolding split(2) using m by (intro ucast_ucast_id) simp
  moreover have "(ucast (?c AND 0x1ff) :: u16) = ?v"
    unfolding split(3) using v by (intro ucast_ucast_id) simp
  ultimately show ?thesis
    using drop_quantize [of "0x1ffff" ?b]
    by (simp add: TmmbItem_Parse_def tmmb_wire_def read_simps Let_def tmmb_canon_def
        quantize_def del: drop_bit_push_bit)
qed

lemma ParseTmmbItems_wire:
  assumes "\<And>x. x \<in> set xs \<Longrightarrow> tmmb_valid x" "length qs = length xs" "off = length ys"
  shows "ParseTmmbItems qs (ys @ concat (map tmmb_wire xs)) off = Some (True, map tmmb_canon xs)"
  using assms
proof (induction xs arbitrary: qs ys off)
  case Nil
  then show ?case by simp
next
  case (Cons x xs)
  then obtain q qs' where qs: "qs = q # qs'" by (cases qs) auto
  have "TmmbItem_Parse q (ys @ tmmb_wire x @ concat (map tmmb_wire xs)) off = Some (True, tmmb_canon x)"
    using Cons.prems TmmbItem_Parse_wire by simp
  moreover have "ParseTmmbItems qs' ((ys @ tmmb_wire x) @ concat (map tmmb_wire xs)) (off + 8)
      = Some (True, map tmmb_canon xs)"
    using Cons.prems qs by (intro Cons.IH) simp_all
  ultimately show ?case by (simp add: qs TmmbItem_kLength_def)
qed

lemma TmmbItem_Parse_safe [safe_intros]:
  "off + 8 \<le> length buffer \<Longrightarrow> TmmbItem_Parse item buffer off \<noteq> None"
  unfolding TmmbItem_Parse_def Let_def
  by (intro safe_intros; simp add: defined_simps del: not_None_eq)

lemma ParseTmmbItems_safe [safe_intros]:
  "off + 8 * length items \<le> length buffer \<Longrightarrow> ParseTmmbItems items buffer off \<noteq> None"
proof (induction items arbitrary: off)
  case (Cons item items)
  then show ?case
    unfolding ParseTmmbItems.simps TmmbItem_kLength_def by (intro safe_intros Cons.IH) auto
qed simp

subsection \<open>TMMBR and TMMBN\<close>

record tmmbr = rtpfb +
  tmmb_items :: "tmmb_item list"

definition kTmmbrFeedbackMessageType :: u8 where
  "kTmmbrFeedbackMessageType = 3"

definition kTmmbnFeedbackMessageType :: u8 where
  "kTmmbnFeedbackMessageType = 4"

definition Tmmbr_Parse :: "tmmbr \<Rightarrow> common_header \<Rightarrow> (bool \<times> tmmbr) option" where
  "Tmmbr_Parse p h = do {
     dcheck (packet_type h = kRtpfbPacketType);
     dcheck (count_or_format h = kTmmbrFeedbackMessageType);
     if payload_size h < kCommonFeedbackLength + TmmbItem_kLength then Some (False, p)
     else do {
       let items_size_bytes = payload_size h - kCommonFeedbackLength;
       if items_size_bytes mod TmmbItem_kLength \<noteq> 0 then Some (False, p)
       else do {
         p \<leftarrow> Rtpfb_ParseCommonFeedback (payload_view h) p;
         let number_of_items = items_size_bytes div TmmbItem_kLength;
         (ok, items) \<leftarrow> ParseTmmbItems (resize (tmmb_items p) number_of_items TmmbItem_default)
           (payload_view h) kCommonFeedbackLength;
         Some (ok, p\<lparr>tmmb_items := items\<rparr>)
       }
     }
   }"

definition Tmmbr_AddTmmbr :: "tmmbr \<Rightarrow> tmmb_item \<Rightarrow> tmmbr" where
  "Tmmbr_AddTmmbr p item = p\<lparr>tmmb_items := tmmb_items p @ [item]\<rparr>"

definition Tmmbr_BlockLength :: "tmmbr \<Rightarrow> nat" where
  "Tmmbr_BlockLength p =
     kHeaderLength + kCommonFeedbackLength + TmmbItem_kLength * length (tmmb_items p)"

definition Tmmbr_Create :: "tmmbr \<Rightarrow> nat \<Rightarrow> bool \<Rightarrow> sink \<Rightarrow> (bool \<times> sink) option" where
  "Tmmbr_Create p max_length cb st = do {
     dcheck (tmmb_items p \<noteq> []);
     create_at (Tmmbr_BlockLength p) (\<lambda>pkt index. do {
       let index_end = index + Tmmbr_BlockLength p;
       hl \<leftarrow> HeaderLength (Tmmbr_BlockLength p);
       (pkt, index) \<leftarrow> CreateHeader (unat kTmmbrFeedbackMessageType) kRtpfbPacketType hl False pkt index;
       dcheck (rtpfb_media_ssrc p = 0);
       pkt \<leftarrow> Rtpfb_CreateCommonFeedback p pkt index;
       let index = index + kCommonFeedbackLength;
       (pkt, index) \<leftarrow> write_each TmmbItem_Create TmmbItem_kLength (tmmb_items p) pkt index;
       dcheck (index_end = index);
       Some (pkt, index)
     }) max_length cb st
   }"

type_synonym tmmbn = tmmbr

definition Tmmbn_Parse :: "tmmbn \<Rightarrow> common_header \<Rightarrow> (bool \<times> tmmbn) option" where
  "Tmmbn_Parse p h = do {
     dcheck (packet_type h = kRtpfbPacketType);
     dcheck (count_or_format h = kTmmbnFeedbackMessageType);
     if payload_size h < kCommonFeedbackLength then Some (False, p)
     else do {
       let items_size_bytes = payload_size h - kCommonFeedbackLength;
       if items_size_bytes mod TmmbItem_kLength \<noteq> 0 then Some (False, p)
       else do {
         p \<leftarrow> Rtpfb_ParseCommonFeedback (payload_view h) p;
         let number_of_items = items_size_bytes div TmmbItem_kLength;
         (ok, items) \<leftarrow> ParseTmmbItems (resize (tmmb_items p) number_of_items TmmbItem_default)
           (payload_view h) kCommonFeedbackLength;
         Some (ok, p\<lparr>tmmb_items := items\<rparr>)
       }
     }
   }"

definition Tmmbn_AddTmmbr :: "tmmbn \<Rightarrow> tmmb_item \<Rightarrow> tmmbn" where
  "Tmmbn_AddTmmbr p item = p\<lparr>tmmb_items := tmmb_items p @ [item]\<rparr>"

definition Tmmbn_BlockLength :: "tmmbn \<Rightarrow> nat" where
  "Tmmbn_BlockLength p =
     kHeaderLength + kCommonFeedbackLength + TmmbItem_kLength * length (tmmb_items p)"

definition Tmmbn_Create :: "tmmbn \<Rightarrow> nat \<Rightarrow> bool \<Rightarrow> sink \<Rightarrow> (bool \<times> sink) option" where
  "Tmmbn_Create p = create_at (Tmmbn_BlockLength p) (\<lambda>pkt index. do {
     let index_end = index + Tmmbn_BlockLength p;
     hl \<leftarrow> HeaderLength (Tmmbn_BlockLength p);
     (pkt, index) \<leftarrow> CreateHeader (unat kTmmbnFeedbackMessageType) kRtpfbPacketType hl False pkt index;
     dcheck (rtpfb_media_ssrc p = 0);
     pkt \<leftarrow> Rtpfb_CreateCommonFeedback p pkt index;
     let index = index + kCommonFeedbackLength;
     (pkt, index) \<leftarrow> write_each TmmbItem_Create TmmbItem_kLength (tmmb_items p) pkt index;
     dcheck (index_end = index);
     Some (pkt, index)
   })"

definition tmmbn_valid :: "tmmbn \<Rightarrow> bool" where
  "tmmbn_valid p \<longleftrightarrow> rtpfb_media_ssrc p = 0 \<and> length (tmmb_items p) \<le> 32766 \<and>
     list_all tmmb_valid (tmmb_items p)"

definition tmmbr_valid :: "tmmbr \<Rightarrow> bool" where
  "tmmbr_valid p \<longleftrightarrow> tmmbn_valid p \<and> tmmb_items p \<noteq> []"

definition tmmbr_body :: "tmmbr \<Rightarrow> u8 list" where
  "tmmbr_body p = rtpfb_common p @ concat (map tmmb_wire (tmmb_items p))"

definition tmmbr_wire :: "nat \<Rightarrow> tmmbr \<Rightarrow> u8 list" where
  "tmmbr_wire fmt p =
     header_wire fmt kRtpfbPacketType (length (tmmbr_body p) div 4) False @ tmmbr_body p"

definition tmmbr_canon :: "tmmbr \<Rightarrow> tmmbr" where
  "tmmbr_canon p = p\<lparr>tmmb_items := map tmmb_canon (tmmb_items p)\<rparr>"

lemma unat_kTmmbFeedbackMessageType [simp]:
  "unat kTmmbrFeedbackMessageType = 3" "unat kTmmbnFeedbackMessageType = 4"
  by (simp_all add: kTmmbrFeedbackMessageType_def kTmmbnFeedbackMessageType_def)

lemma length_tmmbr_body [simp]: "length (tmmbr_body p) = 8 + 8 * length (tmmb_items p)"
  by (simp add: tmmbr_body_def length_concat_const)

lemmas tmmb_defs = Tmmbr_BlockLength_def Tmmbn_BlockLength_def kHeaderLength_def
  kCommonFeedbackLength_def TmmbItem_kLength_def tmmbr_valid_def tmmbn_valid_def

lemma Tmmbr_Create_emits:
  "tmmbr_valid p \<Longrightarrow> Tmmbr_Create p = create_at (Tmmbr_BlockLength p) (emit (tmmbr_wire 3 p))"
  by (simp add: Tmmbr_Create_def [abs_def] tmmb_defs write_simps
      put_write_each [where enc = tmmb_wire] emit_def [abs_def] tmmbr_wire_def tmmbr_body_def
      length_concat_const ac_simps)

lemma Tmmbn_Create_emits:
  "tmmbn_valid p \<Longrightarrow> Tmmbn_Create p = create_at (Tmmbn_BlockLength p) (emit (tmmbr_wire 4 p))"
  by (simp add: Tmmbn_Create_def tmmb_defs write_simps
      put_write_each [where enc = tmmb_wire] emit_def [abs_def] tmmbr_wire_def tmmbr_body_def
      length_concat_const ac_simps)

lemma Tmmb_Parse_body:
  assumes "tmmbn_valid p" "packet_type h = kRtpfbPacketType"
    "payload_size h = length (tmmbr_body p)" "payload_view h = tmmbr_body p"
  shows "count_or_format h = 4 \<Longrightarrow> Tmmbn_Parse q h = Some (True, tmmbr_canon p)"
    and "count_or_format h = 3 \<Longrightarrow> tmmb_items p \<noteq> [] \<Longrightarrow> Tmmbr_Parse q h = Some (True, tmmbr_canon p)"
proof -
  let ?xs = "tmmb_items p"
  have "ParseTmmbItems (resize qs (length ?xs) TmmbItem_default)
      (rtpfb_common p @ concat (map tmmb_wire ?xs)) 8 = Some (True, map tmmb_canon ?xs)" for qs
    using assms(1) by (intro ParseTmmbItems_wire) (simp_all add: tmmbn_valid_def list_all_iff)
  note items = this
  show "count_or_format h = 4 \<Longrightarrow> Tmmbn_Parse q h = Some (True, tmmbr_canon p)"
    using assms items
    by (simp add: Tmmbn_Parse_def kTmmbnFeedbackMessageType_def kCommonFeedbackLength_def
        TmmbItem_kLength_def tmmbr_body_def length_concat_const read_simps tmmbr_canon_def)
  have "0 < length ?xs" if "?xs \<noteq> []" using that by simp
  then show "count_or_format h = 3 \<Longrightarrow> ?xs \<noteq> [] \<Longrightarrow> Tmmbr_Parse q h = Some (True, tmmbr_canon p)"
    using assms items
    by (simp add: Tmmbr_Parse_def kTmmbrFeedbackMessageType_def kCommonFeedbackLength_def
        TmmbItem_kLength_def tmmbr_body_def length_concat_const read_simps tmmbr_canon_def)
qed

interpretation tmmbr: rtcp_lossy_codec Tmmbr_BlockLength Tmmbr_Create "tmmbr_wire 3" tmmbr_valid
    Tmmbr_Parse kRtpfbPacketType "\<lambda>_. 3" tmmbr_body tmmbr_canon
  by unfold_locales
    (auto simp: Tmmbr_Create_emits Tmmb_Parse_body tmmbr_wire_def tmmb_defs)

interpretation tmmbn: rtcp_lossy_codec Tmmbn_BlockLength Tmmbn_Create "tmmbr_wire 4" tmmbn_valid
    Tmmbn_Parse kRtpfbPacketType "\<lambda>_. 4" tmmbr_body tmmbr_canon
  by unfold_locales
    (auto simp: Tmmbn_Create_emits Tmmb_Parse_body tmmbr_wire_def tmmb_defs)

interpretation tmmbrp: rtcp_parser Tmmbr_Parse
    "\<lambda>h. packet_type h = kRtpfbPacketType \<and> count_or_format h = kTmmbrFeedbackMessageType"
  unfolding Tmmbr_Parse_def kCommonFeedbackLength_def TmmbItem_kLength_def Let_def
  by unfold_locales (intro safe_intros; auto simp add: defined_simps simp del: not_None_eq)

interpretation tmmbnp: rtcp_parser Tmmbn_Parse
    "\<lambda>h. packet_type h = kRtpfbPacketType \<and> count_or_format h = kTmmbnFeedbackMessageType"
  unfolding Tmmbn_Parse_def kCommonFeedbackLength_def TmmbItem_kLength_def Let_def
  by unfold_locales (intro safe_intros; auto simp add: defined_simps simp del: not_None_eq)

subsection \<open>Receiver estimated maximum bitrate\<close>

record remb = psfb +
  remb_bitrate_bps :: i64
  remb_ssrcs :: "u32 list"

definition kMaxNumberOfSsrcs :: nat where
  "kMaxNumberOfSsrcs = 0xff"

definition kRembUniqueIdentifier :: u32 where
  "kRembUniqueIdentifier = 0x52454D42"

definition Remb_Parse :: "remb \<Rightarrow> common_header \<Rightarrow> (bool \<times> remb) option" where
  "Remb_Parse p h = do {
     dcheck (packet_type h = kPsfbPacketType);
     dcheck (count_or_format h = kAfbMessageType);
     if payload_size h < 16 then Some (False, p)
     else do {
       let payload = payload_view h;
       identifier \<leftarrow> ReadBE32 payload 8;
       if kRembUniqueIdentifier \<noteq> identifier then Some (False, p)
       else do {
         number_of_ssrcs \<leftarrow> load payload 12;
         if payload_size h \<noteq> kCommonFeedbackLength + (2 + unat number_of_ssrcs) * 4 then Some (False, p)
         else do {
           p \<leftarrow> Psfb_ParseCommonFeedback payload p;
           b13 \<leftarrow> load payload 13;
           let exponenta = drop_bit 2 b13;
           low \<leftarrow> ReadBE16 payload 14;
           let mantissa = (ucast (push_bit 16 (ucast (b13 AND 0x03) :: u32) OR ucast low) :: u64);
           let p = p\<lparr>remb_bitrate_bps := push_bit (unat exponenta) mantissa\<rparr>;
           let shift_overflow = (drop_bit (unat exponenta) (remb_bitrate_bps p) \<noteq> mantissa);
           if shift_overflow then Some (False, p)
           else do {
             (ssrcs, _) \<leftarrow> read_each ReadBE32 4 (unat number_of_ssrcs) payload 16;
             Some (True, p\<lparr>remb_ssrcs := ssrcs\<rparr>)
           }
         }
       }
     }
   }"

definition SetSsrcs :: "remb \<Rightarrow> u32 list \<Rightarrow> bool \<times> remb" where
  "SetSsrcs p ssrcs =
     (if length ssrcs > kMaxNumberOfSsrcs then (False, p) else (True, p\<lparr>remb_ssrcs := ssrcs\<rparr>))"

definition Remb_BlockLength :: "remb \<Rightarrow> nat" where
  "Remb_BlockLength p = kHeaderLength + kCommonFeedbackLength + (2 + length (remb_ssrcs p)) * 4"

definition Remb_Create :: "remb \<Rightarrow> nat \<Rightarrow> bool \<Rightarrow> sink \<Rightarrow> (bool \<times> sink) option" where
  "Remb_Create p = create_at (Remb_BlockLength p) (\<lambda>pkt index. do {
     let index_end = index + Remb_BlockLength p;
     hl \<leftarrow> HeaderLength (Remb_BlockLength p);
     (pkt, index) \<leftarrow> CreateHeader (unat kAfbMessageType) kPsfbPacketType hl False pkt index;
     dcheck (psfb_media_ssrc p = 0);
     pkt \<leftarrow> Psfb_CreateCommonFeedback p pkt index;
     let index = index + kCommonFeedbackLength;
     pkt \<leftarrow> WriteBE32 pkt index kRembUniqueIdentifier;
     let index = index + 4;
     let (mantissa, exponenta) = shrink_mantissa 0x3ffff (remb_bitrate_bps p) (0 :: u8);
     pkt \<leftarrow> store pkt index (word_of_nat (length (remb_ssrcs p)));
     let index = index + 1;
     pkt \<leftarrow> store pkt index
       (ucast ((ucast (push_bit 2 (ucast exponenta :: i32)) :: u64) OR drop_bit 16 mantissa));
     let index = index + 1;
     pkt \<leftarrow> WriteBE16 pkt index (ucast (mantissa AND 0xffff));
     let index = index + 2;
     (pkt, index) \<leftarrow> write_each (\<lambda>ssrc pkt index. WriteBE32 pkt index ssrc) 4 (remb_ssrcs p) pkt index;
     dcheck (index_end = index);
     Some (pkt, index)
   })"

definition remb_valid :: "remb \<Rightarrow> bool" where
  "remb_valid p \<longleftrightarrow> psfb_media_ssrc p = 0 \<and> length (remb_ssrcs p) \<le> kMaxNumberOfSsrcs"

definition remb_exp_byte :: "u8 \<Rightarrow> u64 \<Rightarrow> u8" where
  "remb_exp_byte e m = ucast ((ucast (push_bit 2 (ucast e :: i32)) :: u64) OR drop_bit 16 m)"

definition remb_head :: "remb \<Rightarrow> u8 list" where
  "remb_head p =
     (let k = excess_bits 0x3ffff (remb_bitrate_bps p); m = drop_bit k (remb_bitrate_bps p) in
      be_bytes 4 kRembUniqueIdentifier @ [word_of_nat (length (remb_ssrcs p)), remb_exp_byte (word_of_nat k) m]
        @ be_bytes 2 (ucast (m AND 0xffff) :: u16))"

definition remb_body :: "remb \<Rightarrow> u8 list" where
  "remb_body p = psfb_common p @ remb_head p @ concat (map (be_bytes 4) (remb_ssrcs p))"

definition remb_wire :: "remb \<Rightarrow> u8 list" where
  "remb_wire p = header_wire 15 kPsfbPacketType (length (remb_body p) div 4) False @ remb_body p"

definition remb_canon :: "remb \<Rightarrow> remb" where
  "remb_canon p = p\<lparr>remb_bitrate_bps := quantize 0x3ffff (remb_bitrate_bps p)\<rparr>"

lemma length_remb_head [simp]: "length (remb_head p) = 8"
  by (simp add: remb_head_def Let_def)

lemma length_remb_body [simp]: "length (remb_body p) = 16 + 4 * length (remb_ssrcs p)"
  by (simp add: remb_body_def length_concat_const)

lemmas remb_defs = Remb_BlockLength_def kHeaderLength_def kCommonFeedbackLength_def remb_valid_def
  kMaxNumberOfSsrcs_def

lemma Remb_Create_emits:
  "remb_valid p \<Longrightarrow> Remb_Create p = create_at (Remb_BlockLength p) (emit (remb_wire p))"
  by (simp add: Remb_Create_def remb_defs write_simps shrink_mantissa_eq remb_exp_byte_def
      put_write_each [where enc = "be_bytes 4"] emit_def [abs_def] remb_wire_def remb_body_def
      remb_head_def Let_def length_concat_const ac_simps)

lemma remb_fields_split:
  assumes e: "unat e < 2 ^ 6" and m: "unat m < 2 ^ 18"
  shows "drop_bit 2 (remb_exp_byte e m) = e"
    and "(ucast (push_bit 16 (ucast (remb_exp_byte e m AND 0x03) :: u32)
           OR ucast (ucast (m AND 0xffff) :: u16)) :: u64) = m"
proof -
  have masks: "(0x03 :: u8) = mask 2" "(0xffff :: u64) = mask 16"
    by (simp_all add: mask_eq_exp_minus_1)
  note high = bit_imp_less [OF e] bit_imp_less [OF m]
  show "drop_bit 2 (remb_exp_byte e m) = e"
    by (rule bit_word_eqI) (auto simp: remb_exp_byte_def bit_simps dest: high)
  show "(ucast (push_bit 16 (ucast (remb_exp_byte e m AND 0x03) :: u32)
           OR ucast (ucast (m AND 0xffff) :: u16)) :: u64) = m"
    unfolding masks by (rule bit_word_eqI) (auto simp: remb_exp_byte_def bit_simps dest: high)
qed

lemma excess_bits_18:
  fixes b :: u64
  shows "excess_bits 0x3ffff b \<le> 46" "unat (drop_bit (excess_bits 0x3ffff b) b) < 2 ^ 18"
  using excess_bits_mask [of "0x3ffff" 18 b] by (simp_all add: unat_drop_bit_div)

lemma Remb_Parse_body:
  assumes "remb_valid p" "packet_type h = kPsfbPacketType" "count_or_format h = word_of_nat 15"
    "payload_size h = length (remb_body p)" "payload_view h = remb_body p"
  shows "Remb_Parse q h = Some (True, remb_canon p)"
proof -
  let ?b = "remb_bitrate_bps p"
  let ?k = "excess_bits 0x3ffff ?b" and ?xs = "remb_ssrcs p"
  let ?e = "word_of_nat ?k :: u8" and ?m = "drop_bit ?k ?b"
  have ek: "unat ?e = ?k" using excess_bits_18(1) [of ?b] by simp
  then have e: "unat ?e < 2 ^ 6" using excess_bits_18(1) [of ?b] by simp
  note split = remb_fields_split [OF e excess_bits_18(2)]
  have "read_each ReadBE32 4 (length ?xs) ((psfb_common p @ remb_head p) @ concat (map (be_bytes 4) ?xs) @ [])
      16 = Some (?xs, 16 + 4 * length ?xs)"
    by (rule read_each_wire) (simp_all add: read_simps)
  then show ?thesis
    using assms drop_quantize [of "0x3ffff" ?b] split ek
    by (simp add: Remb_Parse_def kAfbMessageType_def remb_defs remb_body_def remb_head_def Let_def
        read_simps length_concat_const remb_canon_def quantize_def del: drop_bit_push_bit)
qed

interpretation remb: rtcp_lossy_codec Remb_BlockLength Remb_Create remb_wire remb_valid
    Remb_Parse kPsfbPacketType "\<lambda>_. 15" remb_body remb_canon
  by unfold_locales (auto simp: Remb_Create_emits Remb_Parse_body remb_wire_def remb_defs)

interpretation rembp: rtcp_parser Remb_Parse
    "\<lambda>h. packet_type h = kPsfbPacketType \<and> count_or_format h = kAfbMessageType"
  unfolding Remb_Parse_def kCommonFeedbackLength_def Let_def
  by unfold_locales (intro safe_intros; auto simp add: defined_simps simp del: not_None_eq)

text \<open>
  The overflow check of \<open>Remb_Parse\<close> is made on the unsigned value; with the exponent 46 and the top
  bit of the mantissa set it passes, and the signed bitrate comes out negative.
\<close>

lemma Remb_Parse_can_be_negative:
  assumes "remb_valid p" "remb_bitrate_bps p = push_bit 63 1"
  shows "\<exists>h p'. CommonHeader_Parse h0 (remb_wire p) = Some (True, h) \<and> Remb_Parse q h = Some (True, p') \<and>
    sint (remb_bitrate_bps p') < 0"
proof -
  have q: "remb_bitrate_bps (remb_canon p) = push_bit 63 1"
    unfolding remb_canon_def by (simp add: assms(2), code_simp)
  have "sint (push_bit 63 1 :: i64) < 0" by code_simp
  then show ?thesis
    using remb.Build_Parse_canon [OF assms(1), of h0 "[]" q] q by auto
qed

end
