(* ===== verification/Rtcp_Nack.thy ===== *)
theory Rtcp_Nack
  imports Rtcp_Feedback
begin

text \<open>
  Generic NACK: \<^verbatim>\<open>rtcp_packet/nack.{h,cc}\<close>.

  A list of lost sequence numbers is packed into pairs of a first packet id and a 16-bit mask of
  losses right after it.  \<open>Create\<close> is the one serializer that splits its contents over several
  packets when the buffer is short; it satisfies the contract \<open>rtcp_creator\<close>.
\<close>

subsection \<open>Packing and unpacking\<close>

record packed_nack =
  first_pid :: u16
  bitmask :: u16

record nack = rtpfb +
  packed :: "packed_nack list"
  packet_ids :: "u16 list"

definition kNackFeedbackMessageType :: u8 where
  "kNackFeedbackMessageType = 1"

definition kNackItemLength :: nat where
  "kNackItemLength = 4"

text \<open>The inner and the outer loop of \<^verbatim>\<open>Pack\<close>.\<close>

fun pack_following :: "u16 \<Rightarrow> u16 \<Rightarrow> u16 list \<Rightarrow> u16 \<times> u16 list" where
  "pack_following pid msk [] = (msk, [])"
| "pack_following pid msk (x # it) =
     (let shift = x - pid - 1 in
      if shift \<le> 15 then pack_following pid (msk OR ucast (push_bit (unat shift) (1 :: i32))) it
      else (msk, x # it))"

lemma pack_following_length: "length (snd (pack_following pid msk it)) \<le> length it"
  by (induction pid msk it rule: pack_following.induct) (auto simp: Let_def)

function pack_items :: "u16 list \<Rightarrow> packed_nack list" where
  "pack_items [] = []"
| "pack_items (x # it) =
     (case pack_following x 0 it of
        (msk, rest) \<Rightarrow> \<lparr>first_pid = x, bitmask = msk\<rparr> # pack_items rest)"
  by pat_completeness auto
termination
  by (relation "measure length") (auto simp: less_Suc_eq_le dest!: arg_cong [where f = snd]
      intro: order_trans [OF _ pack_following_length])

definition Pack :: "nack \<Rightarrow> nack option" where
  "Pack p = do {
     dcheck (packet_ids p \<noteq> []);
     dcheck (packed p = []);
     Some (p\<lparr>packed := pack_items (packet_ids p)\<rparr>)
   }"

definition SetPacketIds :: "nack \<Rightarrow> u16 list \<Rightarrow> nack option" where
  "SetPacketIds p nack_list = do {
     dcheck (packet_ids p = []);
     dcheck (packed p = []);
     Pack (p\<lparr>packet_ids := nack_list\<rparr>)
   }"

function unpack_mask :: "u16 \<Rightarrow> u16 \<Rightarrow> u16 list" where
  "unpack_mask msk pid =
     (if msk = 0 then []
      else (if msk AND 1 \<noteq> 0 then [pid] else []) @ unpack_mask (drop_bit 1 msk) (pid + 1))"
  by pat_completeness auto
termination
proof (relation "measure (\<lambda>(m, _). unat m)", goal_cases)
  case (2 m pid)
  then have "0 < unat m" by (simp add: unat_gt_0)
  then have "unat (drop_bit 1 m) < unat m"
    unfolding unat_drop_bit_eq by (simp add: drop_bit_eq_div)
  then show ?case by simp
qed simp

declare unpack_mask.simps [simp del]

definition unpack_item :: "packed_nack \<Rightarrow> u16 list" where
  "unpack_item item = first_pid item # unpack_mask (bitmask item) (first_pid item + 1)"

definition Unpack :: "nack \<Rightarrow> nack option" where
  "Unpack p = do {
     dcheck (packet_ids p = []);
     dcheck (packed p \<noteq> []);
     Some (p\<lparr>packet_ids := packet_ids p @ concat (map unpack_item (packed p))\<rparr>)
   }"

text \<open>What unpacking a mask yields: the set bits, in order.\<close>

lemma unpack_mask_bits:
  "(\<And>i. bit msk i \<Longrightarrow> i < n) \<Longrightarrow>
     unpack_mask msk pid = map (\<lambda>i. pid + word_of_nat i) (filter (bit msk) [0..<n])"
proof (induction n arbitrary: msk pid)
  case 0
  then have "msk = 0" by (intro bit_word_eqI) auto
  then show ?case by (simp add: unpack_mask.simps)
next
  case (Suc n)
  have shifted: "bit (drop_bit 1 msk) = (\<lambda>i. bit msk (Suc i))"
    by (rule ext) (simp add: bit_drop_bit_eq del: drop_bit_Suc)
  have IH: "unpack_mask (drop_bit 1 msk) (pid + 1) =
      map (\<lambda>i. pid + 1 + word_of_nat i) (filter (\<lambda>i. bit msk (Suc i)) [0..<n])"
    using Suc.IH [of "drop_bit 1 msk" "pid + 1"] Suc.prems unfolding shifted by blast
  have "[0..<Suc n] = 0 # map Suc [0..<n]"
    by (simp add: map_Suc_upt upt_conv_Cons del: upt_Suc)
  then have "map (\<lambda>i. pid + word_of_nat i) (filter (bit msk) [0..<Suc n]) =
      (if bit msk 0 then [pid] else []) @ unpack_mask (drop_bit 1 msk) (pid + 1)"
    unfolding IH by (simp add: filter_map o_def ac_simps del: upt_Suc)
  moreover have "unpack_mask msk pid =
      (if bit msk 0 then [pid] else []) @ unpack_mask (drop_bit 1 msk) (pid + 1)"
    by (subst unpack_mask.simps) (auto simp: and_1_iff unpack_mask.simps [of 0])
  ultimately show ?case by (simp only:)
qed

lemma unpack_item_bits:
  "unpack_item item =
     first_pid item # map (\<lambda>i. first_pid item + 1 + word_of_nat i) (filter (bit (bitmask item)) [0..<16])"
  unfolding unpack_item_def by (subst unpack_mask_bits [where n = 16]) (auto dest: bit_imp_le_length)

text \<open>What packing a run puts into the mask: one bit per distance.\<close>

lemma le_15: "s \<le> 15 \<Longrightarrow> unat (s :: u16) < 16"
  by (simp add: word_le_nat_alt)

lemma bit_mask_add:
  fixes s :: u16
  assumes "s \<le> 15"
  shows "bit (msk OR ucast (push_bit (unat s) (1 :: i32)) :: u16) i \<longleftrightarrow> bit msk i \<or> i = unat s"
proof -
  show ?thesis using le_15 [OF assms] by (auto simp: bit_simps)
qed

lemma pack_following_spec:
  assumes "pack_following pid msk it = (msk', rest)"
  shows "\<exists>taken. it = taken @ rest \<and> (\<forall>x \<in> set taken. x - pid - 1 \<le> 15) \<and>
    (\<forall>i. bit msk' i \<longleftrightarrow> bit msk i \<or> (\<exists>x \<in> set taken. i = unat (x - pid - 1)))"
  using assms
proof (induction pid msk it rule: pack_following.induct)
  case (1 pid msk)
  then show ?case by auto
next
  case (2 pid msk x it)
  show ?case
  proof (cases "x - pid - 1 \<le> 15")
    case True
    then obtain taken where "it = taken @ rest" "\<forall>x \<in> set taken. x - pid - 1 \<le> 15"
        "\<forall>i. bit msk' i \<longleftrightarrow> bit (msk OR ucast (push_bit (unat (x - pid - 1)) (1 :: i32))) i \<or>
          (\<exists>x \<in> set taken. i = unat (x - pid - 1))"
      using 2 by (auto simp: Let_def)
    then show ?thesis
      using True bit_mask_add [OF True] by (intro exI [of _ "x # taken"]) auto
  next
    case False
    then show ?thesis using 2 by (auto simp: Let_def)
  qed
qed

lemma unpack_pack_set: "set (concat (map unpack_item (pack_items ids))) = set ids"
proof (induction ids rule: pack_items.induct)
  case (2 x it)
  obtain msk rest where m: "pack_following x 0 it = (msk, rest)" by fastforce
  then obtain taken where t: "it = taken @ rest" "\<forall>y \<in> set taken. y - x - 1 \<le> 15"
      "\<forall>i. bit msk i \<longleftrightarrow> (\<exists>y \<in> set taken. i = unat (y - x - 1))"
    using pack_following_spec [OF m] by auto
  have "set (unpack_item \<lparr>first_pid = x, bitmask = msk\<rparr>) = insert x (set taken)"
  proof -
    have bits: "{i. i < 16 \<and> bit msk i} = (\<lambda>y. unat (y - x - 1)) ` set taken"
      using t(2,3) le_15 by auto
    have "(\<lambda>i. x + 1 + word_of_nat i) ` {i. i < 16 \<and> bit msk i} = set taken"
      unfolding bits image_image by simp
    then show ?thesis by (simp add: unpack_item_bits)
  qed
  with 2 m t(1) show ?case by auto
qed simp

text \<open>
  On a list that ascends from some base (the order sequence numbers are generated in, the wrap from
  65535 to 0 included), unpacking gives back the very list.
\<close>

definition ascending_from :: "u16 \<Rightarrow> u16 list \<Rightarrow> bool" where
  "ascending_from base ids \<longleftrightarrow> sorted_wrt (\<lambda>a c. unat (a - base) < unat (c - base)) ids"

lemma unat_distance:
  fixes x y b :: u16
  assumes "unat (x - b) < unat (y - b)"
  shows "unat (y - x - 1) = unat (y - b) - unat (x - b) - 1"
proof -
  have "y - x - 1 = (y - b) - (x - b + 1)" by (simp add: algebra_simps)
  moreover have s: "unat (x - b + 1) = unat (x - b) + 1"
    using assms unsigned_less [of "y - b", where ?'a = nat] by (subst unat_add_lem [THEN iffD1]) auto
  moreover have "unat ((y - b) - (x - b + 1)) = unat (y - b) - unat (x - b + 1)"
    using assms s by (intro unat_sub) (simp add: word_le_nat_alt)
  ultimately show ?thesis by (simp only: diff_diff_left)
qed

lemma unpack_run:
  assumes "ascending_from b (x # taken)" "\<forall>y \<in> set taken. y - x - 1 \<le> 15"
    and "\<forall>i. bit msk i \<longleftrightarrow> (\<exists>y \<in> set taken. i = unat (y - x - 1))"
  shows "unpack_item \<lparr>first_pid = x, bitmask = msk\<rparr> = x # taken"
proof -
  let ?ds = "map (\<lambda>y. unat (y - x - 1)) taken"
  have "sorted_wrt (<) ?ds"
    unfolding sorted_wrt_map
    using assms(1)
    by (auto simp: ascending_from_def unat_distance [of x b] intro!: sorted_wrt_mono_rel
        [of taken "\<lambda>a c. unat (a - b) < unat (c - b)"] dest: Suc_leI)
  moreover have "set ?ds = set (filter (bit msk) [0..<16])"
    using assms(2,3) le_15 by auto
  moreover have "sorted_wrt (<) (filter (bit msk) [0..<16])"
    by (intro sorted_wrt_filter) simp
  ultimately have "filter (bit msk) [0..<16] = ?ds"
    by (metis sorted_distinct_set_unique strict_sorted_iff)
  then show ?thesis by (simp add: unpack_item_bits o_def)
qed

lemma unpack_pack_ascending:
  "ascending_from b ids \<Longrightarrow> concat (map unpack_item (pack_items ids)) = ids"
proof (induction ids rule: pack_items.induct)
  case (2 x it)
  obtain msk rest where m: "pack_following x 0 it = (msk, rest)" by fastforce
  then obtain taken where t: "it = taken @ rest" "\<forall>y \<in> set taken. y - x - 1 \<le> 15"
      "\<forall>i. bit msk i \<longleftrightarrow> (\<exists>y \<in> set taken. i = unat (y - x - 1))"
    using pack_following_spec [OF m] by auto
  have "ascending_from b (x # taken)" "ascending_from b rest"
    using "2.prems" t(1) by (auto simp: ascending_from_def sorted_wrt_append)
  with 2 m t show ?case by (simp add: unpack_run)
qed simp

subsection \<open>The packet\<close>

definition Nack_Parse :: "nack \<Rightarrow> common_header \<Rightarrow> (bool \<times> nack) option" where
  "Nack_Parse p h = do {
     dcheck (packet_type h = kRtpfbPacketType);
     dcheck (count_or_format h = kNackFeedbackMessageType);
     if payload_size h < kCommonFeedbackLength + kNackItemLength then Some (False, p)
     else do {
       let nack_items = (payload_size h - kCommonFeedbackLength) div kNackItemLength;
       p \<leftarrow> Rtpfb_ParseCommonFeedback (payload_view h) p;
       let p = p\<lparr>packet_ids := []\<rparr>;
       (items, _) \<leftarrow> read_each (\<lambda>data next_nack. do {
           pid \<leftarrow> ReadBE16 data next_nack;
           msk \<leftarrow> ReadBE16 data (next_nack + 2);
           Some \<lparr>first_pid = pid, bitmask = msk\<rparr>
         }) kNackItemLength nack_items (payload_view h) kCommonFeedbackLength;
       p \<leftarrow> Unpack (p\<lparr>packed := items\<rparr>);
       Some (True, p)
     }
   }"

definition Nack_BlockLength :: "nack \<Rightarrow> nat" where
  "Nack_BlockLength p = kHeaderLength + kCommonFeedbackLength + length (packed p) * kNackItemLength"

definition kNackHeaderLength :: nat where
  "kNackHeaderLength = kHeaderLength + kCommonFeedbackLength"

text \<open>One turn of the loop of \<^verbatim>\<open>Create\<close> that writes a packet with \<open>num_nack_fields\<close> items.\<close>

definition Nack_CreateFragment :: "nack \<Rightarrow> nat \<Rightarrow> nat \<Rightarrow> nat \<Rightarrow> sink \<Rightarrow> sink option" where
  "Nack_CreateFragment p nack_index num_nack_fields max_length st = do {
     let payload_size_bytes = kCommonFeedbackLength + num_nack_fields * kNackItemLength;
     dcheck (payload_size_bytes mod 4 = 0);
     let payload_size_32bits = payload_size_bytes div 4;
     (pkt, i) \<leftarrow> CreateHeader (unat kNackFeedbackMessageType) kRtpfbPacketType payload_size_32bits False
       (packet st) (index st);
     pkt \<leftarrow> Rtpfb_CreateCommonFeedback p pkt i;
     let i = i + kCommonFeedbackLength;
     (pkt, i) \<leftarrow> write_each (\<lambda>item pkt i. do {
         pkt \<leftarrow> WriteBE16 pkt (i + 0) (first_pid item);
         WriteBE16 pkt (i + 2) (bitmask item)
       }) kNackItemLength (take num_nack_fields (drop nack_index (packed p))) pkt i;
     dcheck (i \<le> max_length);
     Some (st\<lparr>packet := pkt, index := i\<rparr>)
   }"

function Nack_CreateLoop :: "nack \<Rightarrow> nat \<Rightarrow> nat \<Rightarrow> bool \<Rightarrow> sink \<Rightarrow> (bool \<times> sink) option" where
  "Nack_CreateLoop p nack_index max_length cb st =
     (if nack_index < length (packed p) then
        let bytes_left_in_buffer = size_sub max_length (index st) in
        if bytes_left_in_buffer < kNackHeaderLength + kNackItemLength then
          (case OnBufferFull cb st of
             None \<Rightarrow> None
           | Some (ok, st') \<Rightarrow>
               if ok then Nack_CreateLoop p nack_index max_length cb st' else Some (False, st'))
        else
          let num_nack_fields = min ((bytes_left_in_buffer - kNackHeaderLength) div kNackItemLength)
                (length (packed p) - nack_index) in
          (case Nack_CreateFragment p nack_index num_nack_fields max_length st of
             None \<Rightarrow> None
           | Some st' \<Rightarrow> Nack_CreateLoop p (nack_index + num_nack_fields) max_length cb st')
      else Some (True, st))"
  by pat_completeness auto
termination
  by (relation "measures [\<lambda>(p, i, _). length (packed p) - i, \<lambda>(_, _, _, _, st). index st]")
    (auto simp: OnBufferFull_def kNackHeaderLength_def kNackItemLength_def
      split: if_splits bind_splits)

declare Nack_CreateLoop.simps [simp del]

definition Nack_Create :: "nack \<Rightarrow> nat \<Rightarrow> bool \<Rightarrow> sink \<Rightarrow> (bool \<times> sink) option" where
  "Nack_Create p max_length cb st = do {
     dcheck (packed p \<noteq> []);
     Nack_CreateLoop p 0 max_length cb st
   }"

text \<open>The wire image of one packet with the given items, and what a sequence of fragments carries.\<close>

definition nack_item_wire :: "packed_nack \<Rightarrow> u8 list" where
  "nack_item_wire item = be_bytes 2 (first_pid item) @ be_bytes 2 (bitmask item)"

definition nack_body :: "nack \<Rightarrow> packed_nack list \<Rightarrow> u8 list" where
  "nack_body p items = rtpfb_common p @ concat (map nack_item_wire items)"

definition nack_wire :: "nack \<Rightarrow> packed_nack list \<Rightarrow> u8 list" where
  "nack_wire p items = header_wire 1 kRtpfbPacketType (2 + length items) False @ nack_body p items"

definition nack_valid :: "nack \<Rightarrow> bool" where
  "nack_valid p \<longleftrightarrow> packed p \<noteq> [] \<and> length (packed p) \<le> 65533"

definition nack_emits :: "nack \<Rightarrow> u8 list \<Rightarrow> bool" where
  "nack_emits p bs \<longleftrightarrow> (\<exists>frags. concat frags = packed p \<and> [] \<notin> set frags \<and>
     bs = concat (map (nack_wire p) frags))"

lemma unat_kNackFeedbackMessageType [simp]: "unat kNackFeedbackMessageType = 1"
  by (simp add: kNackFeedbackMessageType_def)

lemma length_nack_item_wire [simp]: "length (nack_item_wire item) = 4"
  by (simp add: nack_item_wire_def)

lemma length_nack_wire [simp]: "length (nack_wire p items) = 12 + 4 * length items"
  by (simp add: nack_wire_def nack_body_def length_concat_const)

lemma Nack_CreateFragment_put:
  assumes "num \<le> length (packed p) - k" "num \<le> 65533" "index st + 12 + 4 * num \<le> max_length"
  shows "Nack_CreateFragment p k num max_length st =
    Option.bind (put (packet st) (index st) (nack_wire p (take num (drop k (packed p)))))
      (\<lambda>pkt. Some (st\<lparr>packet := pkt, index := index st + 12 + 4 * num\<rparr>))"
  using assms
  by (simp add: Nack_CreateFragment_def kCommonFeedbackLength_def kNackItemLength_def write_simps
      put_write_each [where enc = nack_item_wire] nack_item_wire_def nack_wire_def nack_body_def
      length_concat_const min.absorb2 ac_simps)

lemma Nack_CreateFragment_eq:
  assumes "num \<le> length (packed p) - k" "num \<le> 65533" "index st + 12 + 4 * num \<le> max_length"
    "max_length \<le> length (packet st)"
  shows "Nack_CreateFragment p k num max_length st =
    Some (st\<lparr>packet := overwrite (packet st) (index st) (nack_wire p (take num (drop k (packed p)))),
             index := index st + 12 + 4 * num\<rparr>)"
  using assms by (simp add: Nack_CreateFragment_put put_fits min.absorb2)

text \<open>The loop, one turn at a time, on a buffer that is large enough for \<open>max_length\<close>.\<close>

lemmas nack_lengths = kNackHeaderLength_def kNackItemLength_def kHeaderLength_def
  kCommonFeedbackLength_def

lemma Nack_CreateLoop_finished:
  "length (packed p) \<le> k \<Longrightarrow> Nack_CreateLoop p k max_length cb st = Some (True, st)"
  by (subst Nack_CreateLoop.simps) simp

lemma Nack_CreateLoop_full:
  assumes "k < length (packed p)" "index st \<le> max_length" "max_length \<le> length (packet st)"
    "max_length - index st < 16"
  shows "Nack_CreateLoop p k max_length True st =
    (if index st = 0 then Some (False, st) else Nack_CreateLoop p k max_length True (flush st))"
  using assms
  by (subst Nack_CreateLoop.simps) (simp add: OnBufferFull_ok flush_def nack_lengths)

definition nack_fields :: "nack \<Rightarrow> nat \<Rightarrow> nat \<Rightarrow> sink \<Rightarrow> nat" where
  "nack_fields p k max_length st = min ((max_length - index st - 12) div 4) (length (packed p) - k)"

definition nack_fragment :: "nack \<Rightarrow> nat \<Rightarrow> nat \<Rightarrow> sink \<Rightarrow> packed_nack list" where
  "nack_fragment p k max_length st = take (nack_fields p k max_length st) (drop k (packed p))"

definition after_fragment :: "nack \<Rightarrow> nat \<Rightarrow> nat \<Rightarrow> sink \<Rightarrow> sink" where
  "after_fragment p k max_length st = st\<lparr>
     packet := overwrite (packet st) (index st) (nack_wire p (nack_fragment p k max_length st)),
     index := index st + 12 + 4 * nack_fields p k max_length st\<rparr>"

lemma nack_fields_bounds:
  assumes "k < length (packed p)" "16 \<le> max_length - index st" "length (packed p) \<le> 65533"
  shows "1 \<le> nack_fields p k max_length st" "nack_fields p k max_length st \<le> length (packed p) - k"
    "nack_fields p k max_length st \<le> 65533"
    "index st + 12 + 4 * nack_fields p k max_length st \<le> max_length"
  using assms by (auto simp: nack_fields_def)

lemma Nack_CreateLoop_room:
  assumes "k < length (packed p)" "16 \<le> max_length - index st" "length (packed p) \<le> 65533"
    "max_length \<le> length (packet st)"
  shows "Nack_CreateLoop p k max_length cb st =
    Nack_CreateLoop p (k + nack_fields p k max_length st) max_length cb (after_fragment p k max_length st)"
proof -
  note b = nack_fields_bounds [OF assms(1-3)]
  have "Nack_CreateFragment p k (nack_fields p k max_length st) max_length st
      = Some (after_fragment p k max_length st)"
    unfolding after_fragment_def nack_fragment_def
    using b assms by (intro Nack_CreateFragment_eq) simp_all
  then show ?thesis
    using assms by (subst Nack_CreateLoop.simps) (simp add: nack_lengths nack_fields_def)
qed

lemma after_fragment_ok:
  assumes "k < length (packed p)" "16 \<le> max_length - index st" "length (packed p) \<le> 65533"
    "sink_ok max_length st"
  shows "sink_ok max_length (after_fragment p k max_length st)"
    and "stream (after_fragment p k max_length st)
      = stream st @ nack_wire p (nack_fragment p k max_length st)"
  using assms(4) nack_fields_bounds [OF assms(1-3)]
  by (simp_all add: sink_ok_def stream_def take_overwrite_full after_fragment_def nack_fragment_def
      min.absorb2)

lemma Nack_CreateLoop_stream:
  assumes "length (packed p) \<le> 65533" "sink_ok max_length st"
  shows "\<exists>st'. Nack_CreateLoop p k max_length True st =
      Some (16 \<le> max_length \<or> length (packed p) \<le> k, st') \<and> sink_ok max_length st' \<and>
    (16 \<le> max_length \<or> length (packed p) \<le> k \<longrightarrow>
      (\<exists>frags. concat frags = drop k (packed p) \<and> [] \<notin> set frags \<and>
       stream st' = stream st @ concat (map (nack_wire p) frags)))"
  using assms(2)
proof (induction "length (packed p) - k" arbitrary: k st rule: less_induct)
  case less
  have room: ?case if k: "k < length (packed p)" "16 \<le> max_length - index t" and
      t: "sink_ok max_length t" "stream t = stream st"
      "Nack_CreateLoop p k max_length True st = Nack_CreateLoop p k max_length True t" for t
  proof -
    let ?n = "nack_fields p k max_length t" and ?f = "nack_fragment p k max_length t"
    note b = nack_fields_bounds [OF k assms(1)]
    have "length (packed p) - (k + ?n) < length (packed p) - k" using b(1) k(1) by simp
    moreover have M: "16 \<le> max_length" using k(2) by simp
    ultimately
    obtain st' frags where IH: "Nack_CreateLoop p (k + ?n) max_length True (after_fragment p k max_length t)
        = Some (True, st')" "sink_ok max_length st'" "concat frags = drop (k + ?n) (packed p)"
        "[] \<notin> set frags"
        "stream st' = stream (after_fragment p k max_length t) @ concat (map (nack_wire p) frags)"
      using less.hyps [OF _ after_fragment_ok(1) [OF k assms(1) t(1)], of "k + ?n"] by auto
    have "Nack_CreateLoop p k max_length True t
        = Nack_CreateLoop p (k + ?n) max_length True (after_fragment p k max_length t)"
      using t(1) by (intro Nack_CreateLoop_room [OF k assms(1)]) (simp add: sink_ok_def)
    moreover have "?f \<noteq> []" "concat (?f # frags) = drop k (packed p)"
      using b(1) k(1) IH(3)
      by (simp_all add: nack_fragment_def) (metis add.commute append_take_drop_id drop_drop)
    moreover have "stream st' = stream st @ concat (map (nack_wire p) (?f # frags))"
      using IH(5) after_fragment_ok(2) [OF k assms(1) t(1)] t(2) by simp
    ultimately show ?thesis
      using IH(1,2,4) t(3) M by (intro exI [of _ st'] conjI impI exI [of _ "?f # frags"]) auto
  qed
  have ok: "index st \<le> max_length" "max_length \<le> length (packet st)"
    using less.prems by (simp_all add: sink_ok_def)
  consider (finished) "length (packed p) \<le> k" | (space) "k < length (packed p)" "16 \<le> max_length - index st"
    | (full) "k < length (packed p)" "max_length - index st < 16" by linarith
  then show ?case
  proof cases
    case finished
    with less.prems show ?thesis
      by (simp add: Nack_CreateLoop_finished) (intro exI [of _ "[]"], simp)
  next
    case space
    with less.prems show ?thesis by (intro room [of st]) simp_all
  next
    case full
    note turn = Nack_CreateLoop_full [OF full(1) ok full(2)]
    show ?thesis
    proof (cases "16 \<le> max_length")
      case True
      with full less.prems turn show ?thesis
        by (intro room [of "flush st"]) (auto simp: sink_ok_flush)
    next
      case False
      have "Nack_CreateLoop p k max_length True (flush st) = Some (False, flush st)"
        using False full(1) ok by (subst Nack_CreateLoop_full) simp_all
      with False full turn less.prems show ?thesis by (auto simp: sink_ok_flush)
    qed
  qed
qed

text \<open>When the loop has written anything, the last packet is still in the buffer.\<close>

lemma write_each_mono: "write_each f len xs pkt i = Some (pkt', j) \<Longrightarrow> i \<le> j"
  by (induction xs arbitrary: pkt i) (fastforce split: bind_splits)+

lemma Nack_CreateFragment_pos: "Nack_CreateFragment p k num max_length st = Some st' \<Longrightarrow> 0 < index st'"
  by (auto simp: Nack_CreateFragment_def CreateHeader_def Let_def nack_lengths split: bind_splits
      dest!: write_each_mono)

lemma Nack_CreateLoop_pending:
  "Nack_CreateLoop p k max_length cb st = Some (True, st') \<Longrightarrow> k < length (packed p) \<or> 0 < index st \<Longrightarrow>
    0 < index st'"
proof (induction p k max_length cb st rule: Nack_CreateLoop.induct)
  case (1 p k max_length cb st)
  from "1.prems" "1.IH" show ?case
    by (subst (asm) Nack_CreateLoop.simps)
      (auto simp: Let_def split: if_splits option.splits dest!: Nack_CreateFragment_pos)
qed

interpretation nack: rtcp_creator Nack_BlockLength Nack_Create nack_valid nack_emits "\<lambda>p max_length. 16 \<le> max_length"
proof unfold_locales
  fix p max_length st
  assume p: "nack_valid p" and st: "sink_ok max_length st"
  have len: "length (packed p) \<le> 65533" "0 < length (packed p)" using p by (simp_all add: nack_valid_def)
  have C: "Nack_Create p max_length True st = Nack_CreateLoop p 0 max_length True st"
    using len(2) by (simp add: Nack_Create_def)
  obtain st' where st': "Nack_CreateLoop p 0 max_length True st = Some (16 \<le> max_length, st')" "sink_ok max_length st'"
      "16 \<le> max_length \<longrightarrow> (\<exists>bs. nack_emits p bs \<and> stream st' = stream st @ bs)"
    using Nack_CreateLoop_stream [OF len(1) st, of 0] len(2) by (auto simp: nack_emits_def)
  moreover have "0 < index st'" if "16 \<le> max_length"
    using Nack_CreateLoop_pending [of p 0 max_length True st st'] st'(1) len(2) that by simp
  moreover have "0 < Nack_BlockLength p" by (simp add: Nack_BlockLength_def kHeaderLength_def)
  ultimately show "\<exists>st'. Nack_Create p max_length True st = Some (16 \<le> max_length, st') \<and> sink_ok max_length st' \<and>
      (16 \<le> max_length \<longrightarrow> (\<exists>bs. nack_emits p bs \<and> stream st' = stream st @ bs) \<and>
        (index st' = 0 \<longleftrightarrow> Nack_BlockLength p = 0 \<and> index st = 0))"
    unfolding C by auto
qed

text \<open>With a buffer of exactly \<open>BlockLength\<close> bytes there is a single fragment.\<close>

lemma Nack_Build:
  assumes "nack_valid p"
  shows "Build (Nack_Create p) (Nack_BlockLength p) fill = Some (nack_wire p (packed p))"
proof -
  let ?n = "length (packed p)"
  let ?st = "\<lparr>packet = map fill [0..<12 + ?n * 4], index = 0, ready = []\<rparr>"
  have n: "0 < ?n" "?n \<le> 65533" using assms by (auto simp: nack_valid_def)
  have F: "nack_fields p 0 (12 + ?n * 4) ?st = ?n" by (simp add: nack_fields_def)
  have "Nack_CreateLoop p 0 (12 + ?n * 4) False ?st = Some (True, after_fragment p 0 (12 + ?n * 4) ?st)"
    using n F by (subst Nack_CreateLoop_room) (simp_all add: Nack_CreateLoop_finished Suc_le_eq)
  then show ?thesis
    using n F assms
    by (simp add: Build_def Nack_Create_def Nack_BlockLength_def nack_lengths nack_valid_def
        after_fragment_def nack_fragment_def overwrite_def)
qed

text \<open>Each fragment is read back with its items and the packet ids they stand for.\<close>

lemma Nack_Parse_wire:
  assumes "items \<noteq> []" "length items \<le> 65533"
  shows "\<exists>h. CommonHeader_Parse h0 (nack_wire p items @ rest) = Some (True, h) \<and> NextPacket h = rest \<and>
    Nack_Parse q h = Some (True, p\<lparr>packed := items, packet_ids := concat (map unpack_item items)\<rparr>)"
proof -
  let ?b = "nack_body p items"
  have len: "length ?b = 4 * (2 + length items)" by (simp add: nack_body_def length_concat_const)
  let ?h = "h0\<lparr>packet_type := kRtpfbPacketType, count_or_format := word_of_nat 1, padding_size := 0,
      payload_size := length ?b, payload := ?b @ rest\<rparr>"
  let ?r = "\<lambda>data next_nack. do { pid \<leftarrow> ReadBE16 data next_nack; msk \<leftarrow> ReadBE16 data (next_nack + 2);
           Some \<lparr>first_pid = pid, bitmask = msk\<rparr> }"
  have "CommonHeader_Parse h0 (header_wire 1 kRtpfbPacketType (2 + length items) False @ ?b @ rest)
      = Some (True, ?h)"
    using assms(2) len by (intro CommonHeader_Parse_wire) simp_all
  moreover have "read_each ?r 4 (length items) (rtpfb_common p @ concat (map nack_item_wire items) @ []) 8
      = Some (items, 8 + 4 * length items)"
    by (rule read_each_wire) (simp_all add: nack_item_wire_def read_simps)
  then have "Nack_Parse q ?h = Some (True, p\<lparr>packed := items, packet_ids := concat (map unpack_item items)\<rparr>)"
    using assms(1) len
    by (simp add: Nack_Parse_def kNackFeedbackMessageType_def nack_lengths payload_view_def
        nack_body_def read_simps Unpack_def Suc_le_eq)
  ultimately show ?thesis
    by (auto simp: nack_wire_def NextPacket_def)
qed

lemma Unpack_safe [safe_intros]: "packet_ids p = [] \<Longrightarrow> packed p \<noteq> [] \<Longrightarrow> Unpack p \<noteq> None"
  by (simp add: Unpack_def)

interpretation nackp: rtcp_parser Nack_Parse
    "\<lambda>h. packet_type h = kRtpfbPacketType \<and> count_or_format h = kNackFeedbackMessageType"
  unfolding Nack_Parse_def nack_lengths Let_def
  by unfold_locales
    (intro safe_intros; auto simp add: defined_simps Suc_le_eq simp del: not_None_eq
      dest!: read_each_Some)

lemma SetPacketIds_packs:
  assumes "packet_ids p = []" "packed p = []" "ids \<noteq> []"
  shows "SetPacketIds p ids = Some (p\<lparr>packet_ids := ids, packed := pack_items ids\<rparr>)"
  using assms by (simp add: SetPacketIds_def Pack_def)

lemma pack_items_length: "length (pack_items ids) \<le> length ids"
proof (induction ids rule: pack_items.induct)
  case (2 x it)
  then show ?case
    using pack_following_length [of x 0 it] by (fastforce split: prod.split)
qed simp

end
