(* ===== verification/Rtcp_Last_Chunk.thy ===== *)
theory Rtcp_Last_Chunk
  imports Rtc_Prelude
begin

text \<open>
  Packet status chunks of the transport-wide feedback: the nested class
  \<^verbatim>\<open>TransportFeedback::LastChunk\<close> of \<^verbatim>\<open>rtcp_packet/transport_feedback.{h,cc}\<close>.

  A chunk is a 16-bit word that lists packet statuses (delta sizes 0, 1 or 2) in one of three
  encodings.  \<open>symbols\<close> is the abstract meaning of a chunk, \<open>lc_contents\<close> the list of delta sizes a
  \<open>last_chunk\<close> object stands for; the lemmas relate every operation of the class to them.
\<close>

subsection \<open>The class\<close>

record last_chunk =
  delta_sizes :: "u8 list"
  chunk_size :: nat
  all_same :: bool
  has_large_delta :: bool

definition kMaxRunLengthCapacity :: nat where
  "kMaxRunLengthCapacity = 0x1fff"

definition kMaxOneBitCapacity :: nat where
  "kMaxOneBitCapacity = 14"

definition kMaxTwoBitCapacity :: nat where
  "kMaxTwoBitCapacity = 7"

definition kMaxVectorCapacity :: nat where
  "kMaxVectorCapacity = kMaxOneBitCapacity"

definition kLarge :: u8 where
  "kLarge = 2"

definition LastChunk_Empty :: "last_chunk \<Rightarrow> bool" where
  "LastChunk_Empty lc \<longleftrightarrow> chunk_size lc = 0"

definition LastChunk_Clear :: "last_chunk \<Rightarrow> last_chunk" where
  "LastChunk_Clear lc = lc\<lparr>chunk_size := 0, all_same := True, has_large_delta := False\<rparr>"

definition CanAdd :: "last_chunk \<Rightarrow> u8 \<Rightarrow> bool option" where
  "CanAdd lc delta_size = do {
     dcheck (delta_size \<le> 2);
     if chunk_size lc < kMaxTwoBitCapacity then Some True
     else if chunk_size lc < kMaxOneBitCapacity \<and> \<not> has_large_delta lc \<and> delta_size \<noteq> kLarge
     then Some True
     else if chunk_size lc < kMaxRunLengthCapacity \<and> all_same lc then do {
       first \<leftarrow> load (delta_sizes lc) 0;
       Some (first = delta_size)
     }
     else Some False
   }"

definition Add :: "last_chunk \<Rightarrow> u8 \<Rightarrow> last_chunk option" where
  "Add lc delta_size = do {
     can \<leftarrow> CanAdd lc delta_size;
     dcheck can;
     ds \<leftarrow> (if chunk_size lc < kMaxVectorCapacity
           then store (delta_sizes lc) (chunk_size lc) delta_size else Some (delta_sizes lc));
     first \<leftarrow> load ds 0;
     Some (lc\<lparr>delta_sizes := ds, chunk_size := chunk_size lc + 1,
              all_same := all_same lc \<and> delta_size = first,
              has_large_delta := has_large_delta lc \<or> delta_size = kLarge\<rparr>)
   }"

text \<open>
  The loops \<^verbatim>\<open>chunk |= delta_sizes_[i] << w * (capacity - 1 - i)\<close> of the two vector encoders and
  \<^verbatim>\<open>delta_sizes_[i] = (chunk >> w * (capacity - 1 - i)) & mask\<close> of the decoders, for
  \<open>i, ..., i + n - 1\<close>.  An index beyond the capacity would be an undefined shift: a fault.
\<close>

fun or_symbols :: "nat \<Rightarrow> nat \<Rightarrow> u8 list \<Rightarrow> nat \<Rightarrow> nat \<Rightarrow> u16 \<Rightarrow> u16 option" where
  "or_symbols w capacity ds i 0 chunk = Some chunk"
| "or_symbols w capacity ds i (Suc n) chunk = do {
     dcheck (i < capacity);
     d \<leftarrow> load ds i;
     or_symbols w capacity ds (i + 1) n (chunk OR ucast (push_bit (w * (capacity - 1 - i)) (ucast d :: i32)))
   }"

fun read_symbols :: "nat \<Rightarrow> nat \<Rightarrow> u16 \<Rightarrow> u16 \<Rightarrow> nat \<Rightarrow> nat \<Rightarrow> u8 list \<Rightarrow> u8 list option" where
  "read_symbols w capacity msk chunk i 0 ds = Some ds"
| "read_symbols w capacity msk chunk i (Suc n) ds = do {
     dcheck (i < capacity);
     ds \<leftarrow> store ds i (ucast (drop_bit (w * (capacity - 1 - i)) chunk AND msk));
     read_symbols w capacity msk chunk (i + 1) n ds
   }"

definition EncodeOneBit :: "last_chunk \<Rightarrow> u16 option" where
  "EncodeOneBit lc = do {
     dcheck (\<not> has_large_delta lc);
     dcheck (chunk_size lc \<le> kMaxOneBitCapacity);
     or_symbols 1 kMaxOneBitCapacity (delta_sizes lc) 0 (chunk_size lc) 0x8000
   }"

definition DecodeOneBit :: "last_chunk \<Rightarrow> u16 \<Rightarrow> nat \<Rightarrow> last_chunk option" where
  "DecodeOneBit lc chunk max_size = do {
     dcheck (chunk AND 0xc000 = 0x8000);
     let size = min kMaxOneBitCapacity max_size;
     ds \<leftarrow> read_symbols 1 kMaxOneBitCapacity 0x01 chunk 0 size (delta_sizes lc);
     Some \<lparr>delta_sizes = ds, chunk_size = size, all_same = False, has_large_delta = False\<rparr>
   }"

definition EncodeTwoBit :: "last_chunk \<Rightarrow> nat \<Rightarrow> u16 option" where
  "EncodeTwoBit lc n = do {
     dcheck (n \<le> chunk_size lc);
     or_symbols 2 kMaxTwoBitCapacity (delta_sizes lc) 0 n 0xc000
   }"

definition DecodeTwoBit :: "last_chunk \<Rightarrow> u16 \<Rightarrow> nat \<Rightarrow> last_chunk option" where
  "DecodeTwoBit lc chunk max_size = do {
     dcheck (chunk AND 0xc000 = 0xc000);
     let size = min kMaxTwoBitCapacity max_size;
     ds \<leftarrow> read_symbols 2 kMaxTwoBitCapacity 0x03 chunk 0 size (delta_sizes lc);
     Some \<lparr>delta_sizes = ds, chunk_size = size, all_same = False, has_large_delta = True\<rparr>
   }"

definition EncodeRunLength :: "last_chunk \<Rightarrow> u16 option" where
  "EncodeRunLength lc = do {
     dcheck (all_same lc);
     dcheck (chunk_size lc \<le> kMaxRunLengthCapacity);
     first \<leftarrow> load (delta_sizes lc) 0;
     Some (ucast (push_bit 13 (ucast first :: i32) OR ucast (word_of_nat (chunk_size lc) :: u16)))
   }"

definition DecodeRunLength :: "last_chunk \<Rightarrow> u16 \<Rightarrow> nat \<Rightarrow> last_chunk option" where
  "DecodeRunLength lc chunk max_count = do {
     dcheck (chunk AND 0x8000 = 0);
     let size = min (unat (chunk AND 0x1fff)) max_count;
     let delta_size = (ucast (drop_bit 13 chunk AND 0x03) :: u8);
     ds \<leftarrow> copy_to (delta_sizes lc) 0 (replicate (min size kMaxVectorCapacity) delta_size);
     Some \<lparr>delta_sizes = ds, chunk_size = size, all_same = True, has_large_delta = (delta_size \<ge> kLarge)\<rparr>
   }"

definition Decode :: "last_chunk \<Rightarrow> u16 \<Rightarrow> nat \<Rightarrow> last_chunk option" where
  "Decode lc chunk max_size =
     (if chunk AND 0x8000 = 0 then DecodeRunLength lc chunk max_size
      else if chunk AND 0x4000 = 0 then DecodeOneBit lc chunk max_size
      else DecodeTwoBit lc chunk max_size)"

text \<open>The loop of \<^verbatim>\<open>Emit\<close> that moves the delta sizes behind the seven encoded ones to the front.\<close>

fun shift_down :: "nat \<Rightarrow> nat \<Rightarrow> last_chunk \<Rightarrow> last_chunk option" where
  "shift_down i 0 lc = Some lc"
| "shift_down i (Suc n) lc = do {
     d \<leftarrow> load (delta_sizes lc) (kMaxTwoBitCapacity + i);
     ds \<leftarrow> store (delta_sizes lc) i d;
     first \<leftarrow> load ds 0;
     shift_down (i + 1) n (lc\<lparr>delta_sizes := ds, all_same := all_same lc \<and> d = first,
       has_large_delta := has_large_delta lc \<or> d = kLarge\<rparr>)
   }"

definition Emit :: "last_chunk \<Rightarrow> (u16 \<times> last_chunk) option" where
  "Emit lc = do {
     can0 \<leftarrow> CanAdd lc 0;
     can1 \<leftarrow> CanAdd lc 1;
     can2 \<leftarrow> CanAdd lc 2;
     dcheck (\<not> can0 \<or> \<not> can1 \<or> \<not> can2);
     if all_same lc then do {
       chunk \<leftarrow> EncodeRunLength lc;
       Some (chunk, LastChunk_Clear lc)
     }
     else if chunk_size lc = kMaxOneBitCapacity then do {
       chunk \<leftarrow> EncodeOneBit lc;
       Some (chunk, LastChunk_Clear lc)
     }
     else do {
       dcheck (chunk_size lc \<ge> kMaxTwoBitCapacity);
       chunk \<leftarrow> EncodeTwoBit lc kMaxTwoBitCapacity;
       let size = chunk_size lc - kMaxTwoBitCapacity;
       lc \<leftarrow> shift_down 0 size (lc\<lparr>chunk_size := size, all_same := True, has_large_delta := False\<rparr>);
       Some (chunk, lc)
     }
   }"

definition EncodeLast :: "last_chunk \<Rightarrow> u16 option" where
  "EncodeLast lc = do {
     dcheck (chunk_size lc > 0);
     if all_same lc then EncodeRunLength lc
     else if chunk_size lc \<le> kMaxTwoBitCapacity then EncodeTwoBit lc (chunk_size lc)
     else EncodeOneBit lc
   }"

definition AppendTo :: "last_chunk \<Rightarrow> u8 list \<Rightarrow> u8 list option" where
  "AppendTo lc deltas =
     (if all_same lc then do {
        first \<leftarrow> load (delta_sizes lc) 0;
        Some (deltas @ replicate (chunk_size lc) first)
      }
      else do {
        ds \<leftarrow> slice (delta_sizes lc) 0 (chunk_size lc);
        Some (deltas @ ds)
      })"

subsection \<open>Meaning of a chunk and of an object\<close>

definition symbol_at :: "nat \<Rightarrow> nat \<Rightarrow> u16 \<Rightarrow> nat \<Rightarrow> u8" where
  "symbol_at w capacity chunk i = ucast (drop_bit (w * (capacity - 1 - i)) chunk AND mask w)"

definition symbols :: "u16 \<Rightarrow> u8 list" where
  "symbols chunk =
     (if \<not> bit chunk 15 then replicate (unat (chunk AND mask 13)) (ucast (drop_bit 13 chunk AND mask 2))
      else if \<not> bit chunk 14 then map (symbol_at 1 14 chunk) [0..<14]
      else map (symbol_at 2 7 chunk) [0..<7])"

definition lc_contents :: "last_chunk \<Rightarrow> u8 list" where
  "lc_contents lc =
     (if all_same lc then replicate (chunk_size lc) (delta_sizes lc ! 0)
      else take (chunk_size lc) (delta_sizes lc))"

definition lc_ok :: "last_chunk \<Rightarrow> bool" where
  "lc_ok lc \<longleftrightarrow> length (delta_sizes lc) = 14 \<and> chunk_size lc \<le> 0x1fff \<and>
     (if all_same lc
      then take (min (chunk_size lc) 14) (delta_sizes lc) = replicate (min (chunk_size lc) 14) (delta_sizes lc ! 0)
      else chunk_size lc \<le> 14 \<and> (7 < chunk_size lc \<longrightarrow> \<not> has_large_delta lc)) \<and>
     (\<forall>x \<in> set (lc_contents lc). x \<le> 3 \<and> (\<not> has_large_delta lc \<longrightarrow> x \<le> 1))"

lemmas capacities = kMaxRunLengthCapacity_def kMaxOneBitCapacity_def kMaxTwoBitCapacity_def
  kMaxVectorCapacity_def

lemma length_lc_contents [simp]: "lc_ok lc \<Longrightarrow> length (lc_contents lc) = chunk_size lc"
  by (auto simp: lc_ok_def lc_contents_def)

lemma AppendTo_contents: "lc_ok lc \<Longrightarrow> AppendTo lc deltas = Some (deltas @ lc_contents lc)"
  by (auto simp: AppendTo_def lc_ok_def lc_contents_def load_def slice_def)

lemma LastChunk_Clear_ok:
  assumes "length (delta_sizes lc) = 14"
  shows "lc_ok (LastChunk_Clear lc)" "lc_contents (LastChunk_Clear lc) = []"
  using assms by (simp_all add: LastChunk_Clear_def lc_ok_def lc_contents_def)

lemma CanAdd_eq:
  assumes "lc_ok lc" "d \<le> 2"
  shows "CanAdd lc d = Some (chunk_size lc < 7 \<or> (chunk_size lc < 14 \<and> \<not> has_large_delta lc \<and> d \<noteq> 2) \<or>
    (chunk_size lc < 0x1fff \<and> all_same lc \<and> delta_sizes lc ! 0 = d))"
  using assms by (auto simp: CanAdd_def capacities kLarge_def lc_ok_def load_def)

text \<open>
  The array after \<open>Add\<close>, by itself: the first \<open>n\<close> entries are kept, and entry \<open>n\<close> is the new one if
  the array is long enough.
\<close>

lemma Add_array:
  assumes len: "length ds = 14" and ds': "ds' = (if n < 14 then ds[n := d] else ds)"
  shows "length ds' = 14" "n < 14 \<Longrightarrow> take (n + 1) ds' = take n ds @ [d]" "14 \<le> n \<Longrightarrow> ds' = ds"
    "ds' ! 0 = (if n = 0 then d else ds ! 0)"
  using len by (auto simp: ds' take_Suc_conv_app_nth)

lemma Add_contents:
  assumes ok: "lc_ok lc" and d: "d \<le> 2" and can: "CanAdd lc d = Some True"
  shows "\<exists>lc'. Add lc d = Some lc' \<and> lc_ok lc' \<and> lc_contents lc' = lc_contents lc @ [d]"
proof -
  define ds n x same large where "ds = delta_sizes lc" and "n = chunk_size lc" and "x = ds ! 0"
    and "same = all_same lc" and "large = has_large_delta lc"
  define ds' where "ds' = (if n < 14 then ds[n := d] else ds)"
  let ?lc = "lc\<lparr>delta_sizes := ds', chunk_size := n + 1, all_same := same \<and> d = ds' ! 0,
              has_large_delta := large \<or> d = 2\<rparr>"
  note names = ds_def n_def x_def same_def large_def
  have len: "length ds = 14" and n: "n \<le> 0x1fff"
    and run: "same \<Longrightarrow> take (min n 14) ds = replicate (min n 14) x"
    and vec: "\<not> same \<Longrightarrow> n \<le> 14"
    and elems: "\<forall>y \<in> set (lc_contents lc). y \<le> 3 \<and> (\<not> large \<longrightarrow> y \<le> 1)"
    using ok by (auto simp: lc_ok_def names)
  note array = Add_array [OF len ds'_def]
  have first: "ds' ! 0 = (if n = 0 then d else x)" using array(4) by (simp add: x_def)
  have run': "same \<Longrightarrow> n < 14 \<Longrightarrow> take n ds = replicate n x" "same \<Longrightarrow> 14 \<le> n \<Longrightarrow> take 14 ds = replicate 14 x"
    using run by (simp_all add: min_def split: if_splits)
  have small: "d \<noteq> 2 \<Longrightarrow> d \<le> 1" "d \<le> 3" using d by (auto simp: word_le_nat_alt word_unat_eq_iff)
  have can': "n < 7 \<or> (n < 14 \<and> \<not> large \<and> d \<noteq> 2) \<or> (n < 0x1fff \<and> same \<and> x = d)"
    using can CanAdd_eq [OF ok d] by (simp add: names)
  have add: "Add lc d = Some ?lc"
    using can len array(1)
    by (auto simp: Add_def capacities kLarge_def store_def load_def ds'_def names)
  have contents: "lc_contents ?lc = lc_contents lc @ [d]"
    using can' array(2-4) run vec
    by (cases "n = 0"; cases same; cases "d = x")
      (auto simp: lc_contents_def replicate_append_same simp flip: names)
  have "lc_ok ?lc"
    unfolding lc_ok_def
  proof (intro conjI)
    show "length (delta_sizes ?lc) = 14" using array(1) by simp
    show "chunk_size ?lc \<le> 0x1fff" using can' n by auto
    show "if all_same ?lc
      then take (min (chunk_size ?lc) 14) (delta_sizes ?lc)
          = replicate (min (chunk_size ?lc) 14) (delta_sizes ?lc ! 0)
      else chunk_size ?lc \<le> 14 \<and> (7 < chunk_size ?lc \<longrightarrow> \<not> has_large_delta ?lc)"
      using can' array(2,3) first run' vec
      by (cases "n < 14"; cases "n = 0"; cases same; cases "d = x")
        (auto simp: min_def replicate_append_same)
    show "\<forall>y \<in> set (lc_contents ?lc). y \<le> 3 \<and> (\<not> has_large_delta ?lc \<longrightarrow> y \<le> 1)"
      unfolding contents using elems small by auto
  qed
  with add contents show ?thesis by blast
qed

subsection \<open>Decoding\<close>

lemma chunk_masks:
  "(0x8000 :: u16) = 2 ^ 15" "(0x4000 :: u16) = 2 ^ 14" "(0x1fff :: u16) = mask 13"
  "(0x01 :: u16) = mask 1" "(0x03 :: u16) = mask 2" "(0xc000 :: u16) = push_bit 14 (mask 2)"
  by (simp_all add: mask_eq_exp_minus_1 push_bit_eq_mult)

lemma chunk_type_bits:
  fixes chunk :: u16
  shows "chunk AND 0x8000 = 0 \<longleftrightarrow> \<not> bit chunk 15" "chunk AND 0x4000 = 0 \<longleftrightarrow> \<not> bit chunk 14"
    and "bit chunk 15 \<Longrightarrow> \<not> bit chunk 14 \<Longrightarrow> chunk AND 0xc000 = 0x8000"
    and "bit chunk 15 \<Longrightarrow> bit chunk 14 \<Longrightarrow> chunk AND 0xc000 = 0xc000"
proof -
  show "chunk AND 0x8000 = 0 \<longleftrightarrow> \<not> bit chunk 15" "chunk AND 0x4000 = 0 \<longleftrightarrow> \<not> bit chunk 14"
    unfolding chunk_masks by (rule and_exp_eq_0_iff_not_bit)+
  have top: "14 \<le> k \<Longrightarrow> k < 16 \<Longrightarrow> k = 14 \<or> k = 15" for k :: nat by auto
  show "chunk AND 0xc000 = 0x8000" if "bit chunk 15" "\<not> bit chunk 14"
  proof (rule bit_word_eqI)
    fix k assume "k < LENGTH(16)"
    then show "bit (chunk AND 0xc000) k = bit (0x8000 :: u16) k"
      unfolding chunk_masks bit_and_iff bit_push_bit_iff bit_mask_iff bit_exp_iff
      using that top [of k] by (cases "14 \<le> k") auto
  qed
  show "chunk AND 0xc000 = 0xc000" if "bit chunk 15" "bit chunk 14"
  proof (rule bit_word_eqI)
    fix k assume "k < LENGTH(16)"
    then show "bit (chunk AND 0xc000) k = bit (0xc000 :: u16) k"
      unfolding chunk_masks bit_and_iff bit_push_bit_iff bit_mask_iff bit_exp_iff
      using that top [of k] by (cases "14 \<le> k") auto
  qed
qed

lemma read_symbols_eq:
  assumes "i + n \<le> capacity" "capacity \<le> length ds"
  shows "read_symbols w capacity (mask w) chunk i n ds =
    Some (take i ds @ map (symbol_at w capacity chunk) [i..<i + n] @ drop (i + n) ds)"
  using assms
proof (induction n arbitrary: i ds)
  case (Suc n)
  let ?x = "symbol_at w capacity chunk i"
  have "read_symbols w capacity (mask w) chunk i (Suc n) ds
      = read_symbols w capacity (mask w) chunk (i + 1) n (ds[i := ?x])"
    using Suc.prems by (simp add: store_def symbol_at_def)
  also have "\<dots> = Some (take (i + 1) (ds[i := ?x]) @ map (symbol_at w capacity chunk) [i + 1..<i + 1 + n]
      @ drop (i + 1 + n) (ds[i := ?x]))"
    using Suc.prems by (intro Suc.IH) simp_all
  also have "take (i + 1) (ds[i := ?x]) = take i ds @ [?x]"
    using Suc.prems by (simp add: take_Suc_conv_app_nth)
  finally show ?case by (simp add: upt_conv_Cons [of i "Suc (i + n)"] del: upt_Suc)
qed simp

lemma symbol_at_le: "symbol_at 1 c chunk i \<le> 1" "symbol_at 2 c chunk i \<le> 3"
proof -
  have "unat (symbol_at w c chunk i) \<le> unat (mask w :: u8)" if "w \<le> 8" for w
  proof -
    have "symbol_at w c chunk i = symbol_at w c chunk i AND mask w"
      by (rule bit_word_eqI) (auto simp: symbol_at_def bit_simps)
    then show ?thesis by (metis word_and_le1 word_le_nat_alt)
  qed
  from this [of 1] this [of 2] show "symbol_at 1 c chunk i \<le> 1" "symbol_at 2 c chunk i \<le> 3"
    by (simp_all add: word_le_nat_alt mask_eq_exp_minus_1)
qed

lemma take_upt_min: "take m [0..<n] = [0..<min n m]"
  by (cases "m \<le> n") (simp_all add: min_def)

lemma Decode_contents:
  assumes len: "length (delta_sizes lc) = 14"
  shows "\<exists>lc'. Decode lc chunk m = Some lc' \<and> lc_ok lc' \<and> lc_contents lc' = take m (symbols chunk)"
proof -
  let ?ds = "delta_sizes lc"
  consider (run) "\<not> bit chunk 15" | (one) "bit chunk 15" "\<not> bit chunk 14" | (two) "bit chunk 15" "bit chunk 14"
    by blast
  then show ?thesis
  proof cases
    case run
    let ?d = "ucast (drop_bit 13 chunk AND mask 2) :: u8" and ?r = "unat (chunk AND mask 13)"
    let ?n = "min ?r m"
    let ?lc = "\<lparr>delta_sizes = replicate (min ?n 14) ?d @ drop (min ?n 14) ?ds, chunk_size = ?n, all_same = True,
      has_large_delta = (?d \<ge> kLarge)\<rparr>"
    have "chunk AND mask 13 \<le> mask 13" by (rule word_and_le1)
    then have r: "?r \<le> 0x1fff" by (simp add: word_le_nat_alt mask_eq_exp_minus_1)
    have d: "?d \<le> 3" using symbol_at_le(2) [of 1 "drop_bit 13 chunk" 0] by (simp add: symbol_at_def)
    have "Decode lc chunk m = Some ?lc"
      using run len
      by (simp add: Decode_def chunk_type_bits DecodeRunLength_def capacities Let_def copy_to_put put_def
          overwrite_def chunk_masks(3,5) min_le_iff_disj del: copy_to.simps)
    moreover have "lc_contents ?lc = take m (symbols chunk)"
      using run by (cases "?n = 0") (simp_all add: lc_contents_def symbols_def nth_append)
    moreover have "lc_ok ?lc"
      using r len d
      by (cases "?n = 0") (auto simp: lc_ok_def lc_contents_def nth_append kLarge_def not_le
          word_less_nat_alt word_le_nat_alt)
    ultimately show ?thesis by blast
  next
    case one
    let ?n = "min 14 m"
    let ?lc = "\<lparr>delta_sizes = map (symbol_at 1 14 chunk) [0..<?n] @ drop ?n ?ds, chunk_size = ?n,
      all_same = False, has_large_delta = False\<rparr>"
    have "Decode lc chunk m = Some ?lc"
      using one len read_symbols_eq [of 0 ?n 14 ?ds 1 chunk]
      by (simp add: Decode_def chunk_type_bits DecodeOneBit_def capacities Let_def)
    moreover have "lc_contents ?lc = take m (symbols chunk)"
      using one by (simp add: lc_contents_def symbols_def take_map take_upt_min)
    moreover have "lc_ok ?lc"
      using len order_trans [OF symbol_at_le(1), of 3]
      by (auto simp: lc_ok_def lc_contents_def symbol_at_le [simplified])
    ultimately show ?thesis by blast
  next
    case two
    let ?n = "min 7 m"
    let ?lc = "\<lparr>delta_sizes = map (symbol_at 2 7 chunk) [0..<?n] @ drop ?n ?ds, chunk_size = ?n,
      all_same = False, has_large_delta = True\<rparr>"
    have "Decode lc chunk m = Some ?lc"
      using two len read_symbols_eq [of 0 ?n 7 ?ds 2 chunk]
      by (simp add: Decode_def chunk_type_bits DecodeTwoBit_def capacities Let_def
          chunk_masks(5) [symmetric])
    moreover have "lc_contents ?lc = take m (symbols chunk)"
      using two by (simp add: lc_contents_def symbols_def take_map take_upt_min)
    moreover have "lc_ok ?lc"
      using len by (auto simp: lc_ok_def lc_contents_def symbol_at_le)
    ultimately show ?thesis by blast
  qed
qed

subsection \<open>Encoding\<close>

text \<open>Setting one symbol leaves the others and the bits above the symbol list alone.\<close>

lemma or_symbol:
  fixes d :: u8 and chunk :: u16
  assumes "i < c" "unat d < 2 ^ w" "w * c \<le> 14"
  defines "chunk' \<equiv> chunk OR ucast (push_bit (w * (c - 1 - i)) (ucast d :: i32)) :: u16"
  shows "j < c \<Longrightarrow> symbol_at w c chunk' j = symbol_at w c chunk j OR (if j = i then d else 0)"
    and "14 \<le> k \<Longrightarrow> bit chunk' k = bit chunk k"
proof -
  note high = bit_imp_less [OF assms(2)]
  have scale: "w * (c - 1 - a) + w \<le> w * (c - 1 - b)" if "b < a" "a < c" for a b
  proof -
    have "w * (c - 1 - a + 1) \<le> w * (c - 1 - b)" using that by (intro mult_le_mono2) simp
    then show ?thesis by simp
  qed
  have width: "w * (c - 1 - a) + w \<le> 14" if "a < c" for a
  proof -
    have "w * (c - 1 - a + 1) \<le> w * c" using that by (intro mult_le_mono2) simp
    then show ?thesis using assms(3) by simp
  qed
  show "symbol_at w c chunk' j = symbol_at w c chunk j OR (if j = i then d else 0)" if "j < c"
  proof (rule bit_word_eqI)
    fix k assume "k < LENGTH(8)"
    consider "i = j" | "i < j" | "j < i" by linarith
    then show "bit (symbol_at w c chunk' j) k = bit (symbol_at w c chunk j OR (if j = i then d else 0)) k"
    proof cases
      case 1
      with width [OF that] \<open>k < LENGTH(8)\<close> show ?thesis
        by (auto simp: symbol_at_def chunk'_def bit_simps dest: high)
    next
      case 2
      with scale [OF 2 that] show ?thesis
        by (auto simp: symbol_at_def chunk'_def bit_simps)
    next
      case 3
      with scale [OF 3 assms(1)] show ?thesis
        by (auto simp: symbol_at_def chunk'_def bit_simps dest: high)
    qed
  qed
  show "bit chunk' k = bit chunk k" if "14 \<le> k"
    using that width [OF assms(1)] by (auto simp: chunk'_def bit_simps dest: high)
qed

lemma or_symbols_spec:
  assumes "i + n \<le> c" "c \<le> length ds" "w * c \<le> 14" "\<And>j. j < i + n \<Longrightarrow> unat (ds ! j) < 2 ^ w"
    "\<And>j. i \<le> j \<Longrightarrow> j < c \<Longrightarrow> symbol_at w c chunk j = 0"
  shows "\<exists>r. or_symbols w c ds i n chunk = Some r \<and> (\<forall>k \<ge> 14. bit r k = bit chunk k) \<and>
    (\<forall>j < c. symbol_at w c r j = (if i \<le> j \<and> j < i + n then ds ! j else symbol_at w c chunk j))"
  using assms
proof (induction n arbitrary: i chunk)
  case (Suc n)
  let ?chunk = "chunk OR ucast (push_bit (w * (c - 1 - i)) (ucast (ds ! i) :: i32)) :: u16"
  have i: "i < c" "unat (ds ! i) < 2 ^ w" using Suc.prems by simp_all
  note o = or_symbol [OF i Suc.prems(3), where chunk = chunk]
  have "\<exists>r. or_symbols w c ds (i + 1) n ?chunk = Some r \<and> (\<forall>k \<ge> 14. bit r k = bit ?chunk k) \<and>
    (\<forall>j < c. symbol_at w c r j = (if i + 1 \<le> j \<and> j < i + 1 + n then ds ! j else symbol_at w c ?chunk j))"
    using Suc.prems o(1) by (intro Suc.IH) auto
  moreover have "or_symbols w c ds i (Suc n) chunk = or_symbols w c ds (i + 1) n ?chunk"
    using Suc.prems by (simp add: load_def)
  ultimately show ?case
    using o Suc.prems(5) i(1) by (fastforce simp: le_less)
qed auto

lemma empty_vectors:
  "\<forall>j \<in> set [0..<14]. symbol_at 1 14 0x8000 j = 0" "\<forall>j \<in> set [0..<7]. symbol_at 2 7 0xc000 j = 0"
  "bit (0x8000 :: u16) 15" "\<not> bit (0x8000 :: u16) 14" "bit (0xc000 :: u16) 15" "bit (0xc000 :: u16) 14"
  by code_simp+

lemma nth_in_take: "j < n \<Longrightarrow> n \<le> length xs \<Longrightarrow> xs ! j \<in> set (take n xs)"
  by (auto simp: in_set_conv_nth intro!: exI [of _ j])

lemma EncodeTwoBit_symbols:
  assumes "lc_ok lc" "\<not> all_same lc" "n \<le> chunk_size lc" "n \<le> 7"
  shows "\<exists>r. EncodeTwoBit lc n = Some r \<and> length (symbols r) = 7 \<and> take n (symbols r) = take n (lc_contents lc)"
proof -
  let ?ds = "delta_sizes lc"
  have ds: "length ?ds = 14" "lc_contents lc = take (chunk_size lc) ?ds" "chunk_size lc \<le> 14"
    using assms(1,2) by (auto simp: lc_ok_def lc_contents_def)
  have "unat (?ds ! j) < 2 ^ 2" if "j < n" for j
  proof -
    have "?ds ! j \<in> set (lc_contents lc)" using that assms(3) ds by (simp add: nth_in_take)
    then have "?ds ! j \<le> 3" using assms(1) by (simp add: lc_ok_def)
    then show ?thesis by (simp add: word_le_nat_alt)
  qed
  then obtain r where r: "or_symbols 2 7 ?ds 0 n 0xc000 = Some r" "\<forall>k \<ge> 14. bit r k = bit (0xc000 :: u16) k"
      "\<forall>j < 7. symbol_at 2 7 r j = (if j < n then ?ds ! j else symbol_at 2 7 0xc000 j)"
    using or_symbols_spec [of 0 n 7 ?ds 2 "0xc000"] assms(4) ds(1) empty_vectors(2) by auto
  have "symbols r = map (symbol_at 2 7 r) [0..<7]"
    using r(2) empty_vectors by (simp add: symbols_def)
  moreover have "take n (map (symbol_at 2 7 r) [0..<7]) = take n ?ds"
    using r(3) assms(4) ds(1) by (intro nth_equalityI) simp_all
  ultimately show ?thesis
    using r(1) assms(3) ds by (simp add: EncodeTwoBit_def capacities min.absorb1)
qed

lemma EncodeOneBit_symbols:
  assumes "lc_ok lc" "\<not> all_same lc" "7 < chunk_size lc"
  shows "\<exists>r. EncodeOneBit lc = Some r \<and> length (symbols r) = 14 \<and>
    take (chunk_size lc) (symbols r) = lc_contents lc"
proof -
  let ?ds = "delta_sizes lc" and ?n = "chunk_size lc"
  have ds: "length ?ds = 14" "lc_contents lc = take ?n ?ds" "?n \<le> 14" "\<not> has_large_delta lc"
    using assms by (auto simp: lc_ok_def lc_contents_def)
  have "unat (?ds ! j) < 2 ^ 1" if "j < ?n" for j
  proof -
    have "?ds ! j \<in> set (lc_contents lc)" using that ds by (simp add: nth_in_take)
    then have "?ds ! j \<le> 1" using assms(1) ds(4) by (simp add: lc_ok_def)
    then show ?thesis by (simp add: word_le_nat_alt)
  qed
  then obtain r where r: "or_symbols 1 14 ?ds 0 ?n 0x8000 = Some r" "\<forall>k \<ge> 14. bit r k = bit (0x8000 :: u16) k"
      "\<forall>j < 14. symbol_at 1 14 r j = (if j < ?n then ?ds ! j else symbol_at 1 14 0x8000 j)"
    using or_symbols_spec [of 0 ?n 14 ?ds 1 "0x8000"] ds empty_vectors(1) by auto
  have "symbols r = map (symbol_at 1 14 r) [0..<14]"
    using r(2) empty_vectors by (simp add: symbols_def)
  moreover have "take ?n (map (symbol_at 1 14 r) [0..<14]) = take ?n ?ds"
    using r(3) ds by (intro nth_equalityI) simp_all
  ultimately show ?thesis
    using r(1) ds by (simp add: EncodeOneBit_def capacities)
qed

lemma EncodeRunLength_symbols:
  assumes "lc_ok lc" "all_same lc" "0 < chunk_size lc"
  shows "\<exists>r. EncodeRunLength lc = Some r \<and> symbols r = lc_contents lc"
proof -
  let ?d = "delta_sizes lc ! 0" and ?n = "chunk_size lc"
  define v where "v = (word_of_nat ?n :: u16)"
  let ?r = "ucast (push_bit 13 (ucast ?d :: i32) OR ucast v) :: u16"
  have ok: "length (delta_sizes lc) = 14" "?n \<le> 0x1fff" "lc_contents lc = replicate ?n ?d"
    using assms by (simp_all add: lc_ok_def lc_contents_def)
  have "?d \<le> 3" using assms(1,3) ok(3) by (simp add: lc_ok_def)
  then have "unat ?d < 2 ^ 2" by (simp add: word_le_nat_alt)
  note d = bit_imp_less [OF this]
  have n: "unat v = ?n" using ok(2) by (simp add: v_def unat_of_nat take_bit_nat_eq_self)
  then have "unat v < 2 ^ 13" using ok(2) by simp
  note n' = bit_imp_less [OF this]
  have "\<not> bit ?r 15" by (auto simp: bit_simps dest: d n')
  moreover have "?r AND mask 13 = v"
    by (rule bit_word_eqI) (auto simp: bit_simps dest: n')
  moreover have "(ucast (drop_bit 13 ?r AND mask 2) :: u8) = ?d"
    by (rule bit_word_eqI) (auto simp: bit_simps dest: d n')
  ultimately have "symbols ?r = replicate ?n ?d" using n by (simp add: symbols_def)
  then show ?thesis
    using assms(2) ok by (simp add: EncodeRunLength_def capacities load_def v_def)
qed

text \<open>The last chunk of a packet: the receiver, which knows how many statuses are left, recovers them.\<close>

lemma EncodeLast_symbols:
  assumes "lc_ok lc" "0 < chunk_size lc"
  shows "\<exists>r. EncodeLast lc = Some r \<and> chunk_size lc \<le> length (symbols r) \<and>
    take (chunk_size lc) (symbols r) = lc_contents lc"
proof -
  consider (run) "all_same lc" | (two) "\<not> all_same lc" "chunk_size lc \<le> 7"
    | (one) "\<not> all_same lc" "7 < chunk_size lc" by linarith
  then show ?thesis
  proof cases
    case run
    with EncodeRunLength_symbols [OF assms(1) run assms(2)] assms show ?thesis
      by (auto simp: EncodeLast_def)
  next
    case two
    with EncodeTwoBit_symbols [OF assms(1) two(1) order_refl two(2)] assms show ?thesis
      by (auto simp: EncodeLast_def capacities)
  next
    case one
    then have "chunk_size lc \<le> 14" using assms(1) by (simp add: lc_ok_def)
    with one EncodeOneBit_symbols [OF assms(1) one] assms show ?thesis
      by (auto simp: EncodeLast_def capacities)
  qed
qed

subsection \<open>Emitting a full chunk\<close>

lemma shift_down_spec:
  assumes "i + n \<le> 7" "length (delta_sizes lc) = 14"
  shows "\<exists>lc'. shift_down i n lc = Some lc' \<and> length (delta_sizes lc') = 14 \<and> chunk_size lc' = chunk_size lc \<and>
    take (i + n) (delta_sizes lc') = take i (delta_sizes lc) @ take n (drop (7 + i) (delta_sizes lc)) \<and>
    (all_same lc' \<longleftrightarrow> all_same lc \<and>
      (\<forall>x \<in> set (take n (drop (7 + i) (delta_sizes lc))). x = delta_sizes lc' ! 0)) \<and>
    (has_large_delta lc' \<longleftrightarrow> has_large_delta lc \<or> 2 \<in> set (take n (drop (7 + i) (delta_sizes lc))))"
  using assms
proof (induction n arbitrary: i lc)
  case (Suc n)
  let ?ds = "delta_sizes lc"
  let ?d = "?ds ! (7 + i)"
  let ?ds' = "?ds[i := ?d]"
  let ?lc = "lc\<lparr>delta_sizes := ?ds', all_same := all_same lc \<and> ?d = ?ds' ! 0,
       has_large_delta := has_large_delta lc \<or> ?d = kLarge\<rparr>"
  have step: "shift_down i (Suc n) lc = shift_down (i + 1) n ?lc"
    using Suc.prems by (auto simp: load_def store_def capacities)
  have rest: "take (Suc n) (drop (7 + i) ?ds) = ?d # take n (drop (7 + (i + 1)) ?ds')"
    using Suc.prems by (simp add: Cons_nth_drop_Suc [symmetric])
  have front: "take (i + 1) ?ds' = take i ?ds @ [?d]"
    using Suc.prems by (simp add: take_Suc_conv_app_nth)
  obtain lc' where IH: "shift_down (i + 1) n ?lc = Some lc'" "length (delta_sizes lc') = 14"
      "chunk_size lc' = chunk_size lc"
      "take (i + 1 + n) (delta_sizes lc') = take (i + 1) ?ds' @ take n (drop (7 + (i + 1)) ?ds')"
      "all_same lc' \<longleftrightarrow> (all_same lc \<and> ?d = ?ds' ! 0) \<and>
        (\<forall>x \<in> set (take n (drop (7 + (i + 1)) ?ds')). x = delta_sizes lc' ! 0)"
      "has_large_delta lc' \<longleftrightarrow> (has_large_delta lc \<or> ?d = 2) \<or> 2 \<in> set (take n (drop (7 + (i + 1)) ?ds'))"
    using Suc.IH [of "i + 1" ?lc] Suc.prems by (auto simp: kLarge_def)
  have "delta_sizes lc' ! 0 = take (i + 1 + n) (delta_sizes lc') ! 0" by simp
  also have "\<dots> = ?ds' ! 0" unfolding IH(4) using Suc.prems by (simp add: nth_append)
  finally have "delta_sizes lc' ! 0 = ?ds' ! 0" .
  then show ?case
    unfolding step rest using IH front by (intro exI [of _ lc']) auto
qed auto

lemma Emit_symbols:
  assumes ok: "lc_ok lc" and d: "d \<le> 2" and full: "CanAdd lc d = Some False"
  shows "\<exists>r lc'. Emit lc = Some (r, lc') \<and> lc_ok lc' \<and> chunk_size lc' < 7 \<and>
    lc_contents lc = symbols r @ lc_contents lc'"
proof -
  let ?n = "chunk_size lc"
  have n: "7 \<le> ?n" using full CanAdd_eq [OF ok d] by auto
  have len: "length (delta_sizes lc) = 14" using ok by (simp add: lc_ok_def)
  obtain c0 c1 c2 where cans: "CanAdd lc 0 = Some c0" "CanAdd lc 1 = Some c1" "CanAdd lc 2 = Some c2"
    using CanAdd_eq [OF ok] by simp
  have "d = 0 \<or> d = 1 \<or> d = 2"
    using d by (auto simp: word_le_nat_alt word_unat_eq_iff)
  then have guard: "\<not> c0 \<or> \<not> c1 \<or> \<not> c2" using full cans by auto
  consider (run) "all_same lc" | (one) "\<not> all_same lc" "?n = 14" | (two) "\<not> all_same lc" "?n \<noteq> 14" by blast
  then show ?thesis
  proof cases
    case run
    obtain r where "EncodeRunLength lc = Some r" "symbols r = lc_contents lc"
      using EncodeRunLength_symbols [OF ok run] n by auto
    then show ?thesis
      using run cans guard LastChunk_Clear_ok [OF len] by (simp add: Emit_def LastChunk_Clear_def)
  next
    case one
    obtain r where "EncodeOneBit lc = Some r" "symbols r = lc_contents lc"
      using EncodeOneBit_symbols [OF ok one(1)] one(2) by auto
    then show ?thesis
      using one cans guard LastChunk_Clear_ok [OF len]
      by (simp add: Emit_def LastChunk_Clear_def capacities)
  next
    case two
    have n14: "?n < 14" using two ok by (auto simp: lc_ok_def)
    then have n7: "?n - 7 \<le> 7" by linarith
    obtain r where r: "EncodeTwoBit lc 7 = Some r" "symbols r = take 7 (lc_contents lc)"
      using EncodeTwoBit_symbols [OF ok two(1) n order_refl] by auto
    let ?lc = "lc\<lparr>chunk_size := ?n - 7, all_same := True, has_large_delta := False\<rparr>"
    let ?new = "take (?n - 7) (drop 7 (delta_sizes lc))"
    obtain lc' where lc': "shift_down 0 (?n - 7) ?lc = Some lc'" "length (delta_sizes lc') = 14"
        "chunk_size lc' = ?n - 7" "take (?n - 7) (delta_sizes lc') = ?new"
        "all_same lc' \<longleftrightarrow> (\<forall>x \<in> set ?new. x = delta_sizes lc' ! 0)"
        "has_large_delta lc' \<longleftrightarrow> 2 \<in> set ?new"
      using shift_down_spec [of 0 "?n - 7" ?lc] n7 len by auto
    have "lc_contents lc = take ?n (delta_sizes lc)" using two(1) by (simp add: lc_contents_def)
    then have split: "lc_contents lc = symbols r @ ?new"
      using r(2) n by (simp add: take_drop) (metis append_take_drop_id le_add_diff_inverse2 take_take min.absorb1)
    have rep: "all_same lc' \<Longrightarrow> replicate (?n - 7) (delta_sizes lc' ! 0) = ?new"
      using replicate_length_same [of ?new "delta_sizes lc' ! 0"] lc'(5) n7 len by simp
    then have new: "lc_contents lc' = ?new"
      using lc'(3,4) by (simp add: lc_contents_def)
    have small: "x \<le> 1" if "x \<in> set ?new" for x
    proof -
      have "7 < ?n" using that by (cases "?n - 7") auto
      then have "\<not> has_large_delta lc" using two(1) ok by (simp add: lc_ok_def)
      then show ?thesis using that ok split by (simp add: lc_ok_def)
    qed
    have "lc_ok lc'"
      using lc' n7 len new rep small order_trans [OF small, of _ 3]
      by (auto simp: lc_ok_def min.absorb1)
    then show ?thesis
      using two n n14 cans guard r(1) lc'(1,3) split new by (simp add: Emit_def capacities Let_def)
  qed
qed

end
