(* ===== verification/Sequence_Numbers.thy ===== *)
theory Sequence_Numbers
  imports Rtc_Prelude
begin

text \<open>
  Wrap-around arithmetic on sequence numbers and timestamps:
  \<^verbatim>\<open>modules/include/module_common_types_public.h\<close>.

  The templates over an unsigned type \<^verbatim>\<open>U\<close> are functions on words of any width up to 32.  A
  subtraction of two \<^verbatim>\<open>U\<close> is an \<^verbatim>\<open>int\<close> when \<^verbatim>\<open>U\<close> is narrower than \<^verbatim>\<open>int\<close> and wraps when it is
  \<^verbatim>\<open>uint32_t\<close>; both cases are in \<open>c_sub\<close>.
\<close>

definition c_sub :: "'u::len word \<Rightarrow> 'u word \<Rightarrow> int" where
  "c_sub a b = (if LENGTH('u) < 32 then uint a - uint b else uint (a - b))"

definition kBreakpoint :: "'u::len word itself \<Rightarrow> 'u word" where
  "kBreakpoint _ = drop_bit 1 (- 1) + 1"

definition IsNewer :: "'u::len word \<Rightarrow> 'u word \<Rightarrow> bool" where
  "IsNewer value prev_value =
     (if c_sub value prev_value = uint (kBreakpoint TYPE('u word)) then value > prev_value
      else value \<noteq> prev_value \<and> value - prev_value < kBreakpoint TYPE('u word))"

definition IsNewerSequenceNumber :: "u16 \<Rightarrow> u16 \<Rightarrow> bool" where
  "IsNewerSequenceNumber sequence_number prev_sequence_number = IsNewer sequence_number prev_sequence_number"

definition IsNewerTimestamp :: "u32 \<Rightarrow> u32 \<Rightarrow> bool" where
  "IsNewerTimestamp timestamp prev_timestamp = IsNewer timestamp prev_timestamp"

definition LatestSequenceNumber :: "u16 \<Rightarrow> u16 \<Rightarrow> u16" where
  "LatestSequenceNumber a b = (if IsNewerSequenceNumber a b then a else b)"

definition LatestTimestamp :: "u32 \<Rightarrow> u32 \<Rightarrow> u32" where
  "LatestTimestamp a b = (if IsNewerTimestamp a b then a else b)"

text \<open>
  Signed 64-bit arithmetic: the exact result, or \<open>None\<close> where \<^verbatim>\<open>int64_t\<close> overflows, which is
  undefined behaviour.
\<close>

definition int64 :: "int \<Rightarrow> int option" where
  "int64 x = (if - (2 ^ 63) \<le> x \<and> x < 2 ^ 63 then Some x else None)"

text \<open>The state of an \<^verbatim>\<open>Unwrapper\<close> is its \<^verbatim>\<open>optional<int64_t> last_value_\<close>.\<close>

definition UnwrapWithoutUpdate :: "int option \<Rightarrow> 'u::len word \<Rightarrow> int option" where
  "UnwrapWithoutUpdate last_value value =
     (case last_value of
        None \<Rightarrow> Some (uint value)
      | Some prev \<Rightarrow> do {
          let kMaxPlusOne = 2 ^ LENGTH('u);
          let cropped_last = (word_of_int prev :: 'u word);
          let delta = c_sub value cropped_last;
          delta \<leftarrow>
            (if IsNewer value cropped_last
             then (if delta < 0 then int64 (delta + kMaxPlusOne) else Some delta)
             else if delta > 0 then do {
               ahead \<leftarrow> int64 (prev + delta);
               back \<leftarrow> int64 (ahead - kMaxPlusOne);
               if back \<ge> 0 then int64 (delta - kMaxPlusOne) else Some delta
             }
             else Some delta);
          int64 (prev + delta)
        })"

definition UpdateLast :: "int option \<Rightarrow> int \<Rightarrow> int option" where
  "UpdateLast last_value new = Some new"

definition Unwrap :: "int option \<Rightarrow> 'u::len word \<Rightarrow> (int \<times> int option) option" where
  "Unwrap last_value value = do {
     unwrapped \<leftarrow> UnwrapWithoutUpdate last_value value;
     Some (unwrapped, UpdateLast last_value unwrapped)
   }"

subsection \<open>The order\<close>

text \<open>The forward distance from \<open>b\<close> to \<open>a\<close> is the value of the wrapped difference.\<close>

lemma uint_sub_cases:
  fixes a b :: "'u::len word"
  shows "uint (a - b) = (if uint b \<le> uint a then uint a - uint b else uint a - uint b + 2 ^ LENGTH('u))"
  by (rule uint_sub_if')

lemma kBreakpoint_eq: "uint (kBreakpoint TYPE('u::len word)) = 2 ^ (LENGTH('u) - 1)"
proof -
  have "drop_bit 1 (- 1 :: 'u word) = mask (LENGTH('u) - 1)"
    by (rule bit_word_eqI) (auto simp: bit_simps simp del: drop_bit_Suc)
  then have "kBreakpoint TYPE('u word) = (2 ^ (LENGTH('u) - 1) :: 'u word)"
    unfolding kBreakpoint_def by (simp add: mask_eq_exp_minus_1)
  also have "(2 ^ (LENGTH('u) - 1) :: 'u word) = word_of_int (2 ^ (LENGTH('u) - 1))" by simp
  finally show ?thesis
    by (simp only: uint_word_of_int_eq) (simp add: take_bit_int_eq_self)
qed

lemma two_breakpoints: "(2 :: int) ^ LENGTH('u::len) = 2 * 2 ^ (LENGTH('u) - 1)"
  by (subst power_eq_if) simp

text \<open>The value of a number with its range, under a name arithmetic procedures can work with.\<close>

lemma uint_range:
  obtains x where "uint (a :: 'u::len word) = x" "0 \<le> x" "x < 2 * 2 ^ (LENGTH('u) - 1)"
  using uint_lt2p [of a] two_breakpoints [where 'u = 'u] that by simp

lemma IsNewer_iff:
  fixes a b :: "'u::len word"
  shows "IsNewer a b \<longleftrightarrow> 0 < uint (a - b) \<and>
    (uint (a - b) < 2 ^ (LENGTH('u) - 1) \<or> uint (a - b) = 2 ^ (LENGTH('u) - 1) \<and> uint b < uint a)"
proof -
  note two = two_breakpoints [where 'u = 'u]
  obtain B where B: "2 ^ (LENGTH('u) - 1) = (B :: int)" "0 < B" by simp
  obtain x where x: "uint a = x" "0 \<le> x" "x < 2 * B" using uint_range [of a] B(1) by metis
  obtain y where y: "uint b = y" "0 \<le> y" "y < 2 * B" using uint_range [of b] B(1) by metis
  have ne: "a \<noteq> b \<longleftrightarrow> uint a \<noteq> uint b" by (simp add: word_uint_eq_iff)
  show ?thesis
    unfolding IsNewer_def c_sub_def kBreakpoint_eq word_less_def ne uint_sub_cases two B(1) x(1) y(1)
    using x(2,3) y(2,3) B(2) by auto
qed

text \<open>Of two different numbers exactly one is newer.\<close>

lemma IsNewer_asym: "IsNewer a b \<Longrightarrow> \<not> IsNewer b a"
  and IsNewer_total: "a \<noteq> b \<Longrightarrow> IsNewer a b \<or> IsNewer b a"
  for a b :: "'u::len word"
proof -
  note two = two_breakpoints [where 'u = 'u]
  obtain B where B: "2 ^ (LENGTH('u) - 1) = (B :: int)" "0 < B" by simp
  obtain x where x: "uint a = x" "0 \<le> x" "x < 2 * B" using uint_range [of a] B(1) by metis
  obtain y where y: "uint b = y" "0 \<le> y" "y < 2 * B" using uint_range [of b] B(1) by metis
  show "IsNewer a b \<Longrightarrow> \<not> IsNewer b a"
    unfolding IsNewer_iff uint_sub_cases two B(1) x(1) y(1)
    using x(2,3) y(2,3) B(2) by (auto split: if_splits)
  assume "a \<noteq> b"
  then have "uint a \<noteq> uint b" by (simp add: word_uint_eq_iff)
  then show "IsNewer a b \<or> IsNewer b a"
    unfolding IsNewer_iff uint_sub_cases two B(1) x(1) y(1)
    using x(2,3) y(2,3) B(2) by (auto split: if_splits)
qed

text \<open>Adding less than half the range always gives a newer number, wrap-around included.\<close>

lemma IsNewer_add:
  fixes a :: "'u::len word"
  assumes "0 < n" "n < 2 ^ (LENGTH('u) - 1)"
  shows "IsNewer (a + word_of_nat n) a"
proof -
  have "(2 :: nat) ^ (LENGTH('u) - 1) \<le> 2 ^ LENGTH('u)" by (rule power_increasing) simp_all
  then have "n < 2 ^ LENGTH('u)" using assms(2) by linarith
  then have "uint (word_of_nat n :: 'u word) = int n"
    by (simp only: unsigned_of_nat take_bit_nat_eq_self)
  then show ?thesis using assms by (simp add: IsNewer_iff)
qed

subsection \<open>Unwrapping\<close>

lemma UnwrapWithoutUpdate_first: "UnwrapWithoutUpdate None v = Some (uint v)"
  by (simp add: UnwrapWithoutUpdate_def)

text \<open>
  The types the class admits have at most 32 bits; then nothing overflows as long as the last value
  is at least one range below the largest \<^verbatim>\<open>int64_t\<close>.
\<close>

lemma UnwrapWithoutUpdate_eq:
  fixes v :: "'u::len word"
  assumes "0 \<le> prev" "prev \<le> 2 ^ 63 - 2 ^ LENGTH('u)" "LENGTH('u) \<le> 32"
  defines "d \<equiv> uint (v - word_of_int prev)"
  shows "UnwrapWithoutUpdate (Some prev) v = Some
    (if \<not> IsNewer v (word_of_int prev) \<and> d \<noteq> 0 \<and> 2 ^ LENGTH('u) \<le> prev + d
     then prev + d - 2 ^ LENGTH('u) else prev + d)"
proof -
  let ?c = "word_of_int prev :: 'u word"
  obtain M where M: "2 ^ LENGTH('u) = (M :: int)" "0 < M" by simp
  have "(2 :: int) ^ LENGTH('u) \<le> 2 ^ 32" using assms(3) by (intro power_increasing) simp_all
  then have bound: "prev \<le> 9223372036854775808 - M" "M \<le> 4294967296" using assms(2) M(1) by simp_all
  obtain x where x: "uint v = x" "0 \<le> x" "x < M" using uint_range [of v] two_breakpoints M(1) by metis
  obtain y where y: "uint ?c = y" "0 \<le> y" "y < M" using uint_range [of ?c] two_breakpoints M(1) by metis
  have "y = prev mod M" using y(1) M(1) by (simp only: uint_word_of_int_eq take_bit_eq_mod)
  then have "y \<le> prev" using assms(1) by (simp add: zmod_le_nonneg_dividend)
  moreover have "IsNewer v ?c \<Longrightarrow> 0 < uint (v - ?c)" by (simp add: IsNewer_iff)
  ultimately show ?thesis
    unfolding UnwrapWithoutUpdate_def d_def c_sub_def Let_def uint_sub_cases option.case M(1) x(1) y(1)
    using x(2,3) y(2,3) bound assms(1)
    by (cases "IsNewer v ?c"; cases "y \<le> x"; cases "LENGTH('u) < 32") (auto simp: int64_def)
qed

text \<open>
  The unwrapped number stands for the value that was given, is never negative, and lies within half
  the range of the previous one, unless that would be below zero.
\<close>

lemma UnwrapWithoutUpdate_spec:
  fixes v :: "'u::len word"
  assumes "0 \<le> prev" "prev \<le> 2 ^ 63 - 2 ^ LENGTH('u)" "LENGTH('u) \<le> 32"
  obtains r where "UnwrapWithoutUpdate (Some prev) v = Some r" "word_of_int r = v" "0 \<le> r"
    "IsNewer v (word_of_int prev) \<Longrightarrow> prev < r \<and> r \<le> prev + 2 ^ (LENGTH('u) - 1)"
    "\<not> IsNewer v (word_of_int prev) \<Longrightarrow> prev - 2 ^ (LENGTH('u) - 1) \<le> r \<and> r \<le> prev \<or> r = uint v"
proof
  let ?B = "2 ^ (LENGTH('u) - 1) :: int" and ?c = "word_of_int prev :: 'u word"
  let ?d = "uint (v - ?c)"
  define r where "r = (if \<not> IsNewer v (word_of_int prev) \<and> ?d \<noteq> 0 \<and> 2 ^ LENGTH('u) \<le> prev + ?d
     then prev + ?d - 2 ^ LENGTH('u) else prev + ?d)"
  note two = two_breakpoints [where 'u = 'u]
  show "UnwrapWithoutUpdate (Some prev) v = Some r" unfolding r_def by (rule UnwrapWithoutUpdate_eq [OF assms])
  have d: "0 \<le> ?d" "?d < 2 * ?B" using two uint_lt2p [of "v - ?c"] by simp_all
  have wd: "word_of_int (prev + ?d) = v" by simp
  have "(word_of_int (2 ^ LENGTH('u)) :: 'u word) = 0" by (simp add: word_of_int_2p_len)
  then have "word_of_int (prev + ?d - 2 ^ LENGTH('u)) = v" using wd by (simp only: of_int_diff) simp
  with wd show "word_of_int r = v" unfolding r_def by simp
  show "0 \<le> r" unfolding r_def using assms(1) d by simp
  show "IsNewer v ?c \<Longrightarrow> prev < r \<and> r \<le> prev + ?B"
    unfolding r_def by (auto simp: IsNewer_iff)
  show "prev - ?B \<le> r \<and> r \<le> prev \<or> r = uint v" if "\<not> IsNewer v ?c"
  proof (cases "?d = 0 \<or> 2 ^ LENGTH('u) \<le> prev + ?d")
    case True
    moreover have "?d = 0 \<or> ?B \<le> ?d" using that d by (auto simp: IsNewer_iff)
    ultimately show ?thesis unfolding r_def two using that d by auto
  next
    case False
    then have "r = prev + ?d" unfolding r_def by simp
    moreover have "prev + ?d = uint v"
      using False wd d(1) assms(1) by (metis add_nonneg_nonneg not_le take_bit_int_eq_self uint_word_of_int_eq)
    ultimately show ?thesis by simp
  qed
qed

text \<open>
  Unwrapping a whole run of numbers with one \<^verbatim>\<open>Unwrapper\<close>: as long as consecutive true values are
  less than half the range apart, the true values come back.
\<close>

fun unwrap_run :: "int option \<Rightarrow> 'u::len word list \<Rightarrow> int list option" where
  "unwrap_run last_value [] = Some []"
| "unwrap_run last_value (v # vs) = do {
     (unwrapped, last_value) \<leftarrow> Unwrap last_value v;
     rest \<leftarrow> unwrap_run last_value vs;
     Some (unwrapped # rest)
   }"

lemma UnwrapWithoutUpdate_near:
  assumes "0 \<le> prev" "prev \<le> 2 ^ 63 - 2 ^ LENGTH('u::len)" "LENGTH('u) \<le> 32"
    and near: "0 \<le> x" "\<bar>x - prev\<bar> < 2 ^ (LENGTH('u) - 1)"
  shows "UnwrapWithoutUpdate (Some prev) (word_of_int x :: 'u word) = Some x"
proof -
  let ?v = "word_of_int x :: 'u word" and ?c = "word_of_int prev :: 'u word"
  obtain B where B: "2 ^ (LENGTH('u) - 1) = (B :: int)" "0 < B" by simp
  note two = two_breakpoints [where 'u = 'u, unfolded B(1)]
  have "?v - ?c = word_of_int (x - prev)" by simp
  then have "uint (?v - ?c) = (x - prev) mod (2 * B)"
    by (simp only: uint_word_of_int_eq take_bit_eq_mod two)
  moreover have "(x - prev) mod (2 * B) = (if prev \<le> x then x - prev else x - prev + 2 * B)"
  proof (cases "prev \<le> x")
    case True
    with near(2) B show ?thesis by (simp add: mod_pos_pos_trivial)
  next
    case False
    then have "(x - prev + 2 * B) mod (2 * B) = x - prev + 2 * B"
      using near(2) B by (intro mod_pos_pos_trivial) auto
    with False show ?thesis by simp
  qed
  ultimately have d: "uint (?v - ?c) = (if prev \<le> x then x - prev else x - prev + 2 * B)" by simp
  have "IsNewer ?v ?c \<longleftrightarrow> prev < x"
    unfolding IsNewer_iff B(1) d using near(2) B by (auto split: if_splits)
  then show ?thesis
    unfolding UnwrapWithoutUpdate_eq [OF assms(1-3)] two d
    using assms(1) near(1) near(2) [unfolded B(1)] B(2) by auto
qed

lemma unwrap_run_near:
  assumes "\<forall>x \<in> set (prev # xs). 0 \<le> x \<and> x \<le> 2 ^ 63 - 2 ^ LENGTH('u::len)" "LENGTH('u) \<le> 32"
    and "successively (\<lambda>x y. \<bar>y - x\<bar> < 2 ^ (LENGTH('u) - 1)) (prev # xs)"
  shows "unwrap_run (Some prev) (map word_of_int xs :: 'u word list) = Some xs"
  using assms
proof (induction xs arbitrary: prev)
  case (Cons x xs)
  then have "UnwrapWithoutUpdate (Some prev) (word_of_int x :: 'u word) = Some x"
    by (intro UnwrapWithoutUpdate_near) auto
  moreover have "unwrap_run (Some x) (map word_of_int xs :: 'u word list) = Some xs"
    using Cons.prems by (intro Cons.IH) auto
  ultimately show ?case by (simp add: Unwrap_def UpdateLast_def)
qed simp

lemma unwrap_run_all:
  assumes "xs \<noteq> [] \<longrightarrow> hd xs < 2 ^ LENGTH('u::len)" "\<forall>x \<in> set xs. 0 \<le> x \<and> x \<le> 2 ^ 63 - 2 ^ LENGTH('u)"
    and "LENGTH('u) \<le> 32" "successively (\<lambda>x y. \<bar>y - x\<bar> < 2 ^ (LENGTH('u) - 1)) xs"
  shows "unwrap_run None (map word_of_int xs :: 'u word list) = Some xs"
proof (cases xs)
  case (Cons x xs')
  then have "uint (word_of_int x :: 'u word) = x"
    using assms(1,2) by (simp add: uint_word_of_int_eq take_bit_int_eq_self)
  with Cons unwrap_run_near [of x xs', where 'u = 'u] assms show ?thesis
    by (simp add: Unwrap_def UpdateLast_def UnwrapWithoutUpdate_first)
qed simp

end
