(* ===== verification/Rtcp_Transport_Feedback.thy ===== *)
theory Rtcp_Transport_Feedback
  imports Rtcp_Feedback Rtcp_Last_Chunk Sequence_Numbers "HOL-Library.Signed_Division"
begin

text \<open>
  Transport-wide congestion control feedback: \<^verbatim>\<open>rtcp_packet/transport_feedback.{h,cc}\<close>.

  The state of a \<open>transport_feedback\<close> object caches its own encoding (status chunks, size in bytes,
  last timestamp) while packets are added one by one.  \<open>tf_inv\<close> says what the caches mean; it is
  kept by every operation and implies that \<^verbatim>\<open>IsConsistent\<close>, the pre- and postcondition the class
  states for itself, returns true.  Microsecond timestamps (\<^verbatim>\<open>int64_t\<close>) are integers; \<^verbatim>\<open>%\<close> and
  \<^verbatim>\<open>/\<close> truncate towards zero (\<open>smod\<close>, \<open>sdiv\<close>).
\<close>

subsection \<open>State\<close>

text \<open>
  The constructor for a packet that was not received leaves \<^verbatim>\<open>delta_ticks_\<close> uninitialised; the model
  puts 0 there and no operation below reads it.
\<close>

record received_packet =
  sequence_number :: u16
  delta_ticks :: i16
  received :: bool

definition ReceivedPacket :: "u16 \<Rightarrow> i16 \<Rightarrow> received_packet" where
  "ReceivedPacket seq delta = \<lparr>sequence_number = seq, delta_ticks = delta, received = True\<rparr>"

definition LostPacket :: "u16 \<Rightarrow> received_packet" where
  "LostPacket seq = \<lparr>sequence_number = seq, delta_ticks = 0, received = False\<rparr>"

record transport_feedback = rtpfb +
  include_lost :: bool
  base_seq_no :: u16
  num_seq_no :: u16
  base_time_ticks :: i32
  feedback_seq :: u8
  include_timestamps :: bool
  last_timestamp_us :: int
  received_packets :: "received_packet list"
  all_packets :: "received_packet list"
  encoded_chunks :: "u16 list"
  tf_last_chunk :: last_chunk
  size_bytes :: nat

definition kTransportFeedbackFeedbackMessageType :: u8 where
  "kTransportFeedbackFeedbackMessageType = 15"

definition kTransportFeedbackHeaderSizeBytes :: nat where
  "kTransportFeedbackHeaderSizeBytes = 4 + 8 + 8"

definition kChunkSizeBytes :: nat where
  "kChunkSizeBytes = 2"

definition kMaxSizeBytes :: nat where
  "kMaxSizeBytes = 2 ^ 16 * 4"

definition kMinPayloadSizeBytes :: nat where
  "kMinPayloadSizeBytes = 8 + 8 + 2"

definition kDeltaScaleFactor :: int where
  "kDeltaScaleFactor = 250"

definition kBaseScaleFactor :: int where
  "kBaseScaleFactor = kDeltaScaleFactor * 2 ^ 8"

definition kTimeWrapPeriodUs :: int where
  "kTimeWrapPeriodUs = 2 ^ 24 * kBaseScaleFactor"

definition kMaxReportedPackets :: u16 where
  "kMaxReportedPackets = 0xffff"

text \<open>\<open>fill\<close> is the content of the uninitialised array of a new \<^verbatim>\<open>LastChunk\<close>.\<close>

definition LastChunk_new :: "(nat \<Rightarrow> u8) \<Rightarrow> last_chunk" where
  "LastChunk_new fill = LastChunk_Clear
     \<lparr>delta_sizes = map fill [0..<kMaxVectorCapacity], chunk_size = 0, all_same = True, has_large_delta = False\<rparr>"

definition TransportFeedback_new :: "(nat \<Rightarrow> u8) \<Rightarrow> bool \<Rightarrow> bool \<Rightarrow> transport_feedback" where
  "TransportFeedback_new fill timestamps lost =
     \<lparr>sender_ssrc = 0, rtpfb_media_ssrc = 0, include_lost = lost, base_seq_no = 0, num_seq_no = 0,
      base_time_ticks = 0, feedback_seq = 0, include_timestamps = timestamps, last_timestamp_us = 0,
      received_packets = [], all_packets = [], encoded_chunks = [], tf_last_chunk = LastChunk_new fill,
      size_bytes = kTransportFeedbackHeaderSizeBytes\<rparr>"

definition GetBaseTimeUs :: "transport_feedback \<Rightarrow> int" where
  "GetBaseTimeUs p = sint (base_time_ticks p) * kBaseScaleFactor"

definition GetBaseDeltaUs :: "transport_feedback \<Rightarrow> int \<Rightarrow> int" where
  "GetBaseDeltaUs p prev_timestamp_us =
     (let delta = GetBaseTimeUs p - prev_timestamp_us in
      if \<bar>delta - kTimeWrapPeriodUs\<bar> < \<bar>delta\<bar> then delta - kTimeWrapPeriodUs
      else if \<bar>delta + kTimeWrapPeriodUs\<bar> < \<bar>delta\<bar> then delta + kTimeWrapPeriodUs
      else delta)"

subsection \<open>Building a packet\<close>

definition SetBase :: "transport_feedback \<Rightarrow> u16 \<Rightarrow> int \<Rightarrow> transport_feedback option" where
  "SetBase p base_sequence ref_timestamp_us = do {
     dcheck (num_seq_no p = 0);
     dcheck (ref_timestamp_us \<ge> 0);
     let p = p\<lparr>base_seq_no := base_sequence,
       base_time_ticks := word_of_int ((ref_timestamp_us smod kTimeWrapPeriodUs) sdiv kBaseScaleFactor)\<rparr>;
     Some (p\<lparr>last_timestamp_us := GetBaseTimeUs p\<rparr>)
   }"

definition SetFeedbackSequenceNumber :: "transport_feedback \<Rightarrow> u8 \<Rightarrow> transport_feedback" where
  "SetFeedbackSequenceNumber p feedback_sequence = p\<lparr>feedback_seq := feedback_sequence\<rparr>"

definition Tf_Clear :: "transport_feedback \<Rightarrow> transport_feedback" where
  "Tf_Clear p = p\<lparr>num_seq_no := 0, last_timestamp_us := GetBaseTimeUs p, received_packets := [],
     all_packets := [], encoded_chunks := [], tf_last_chunk := LastChunk_Clear (tf_last_chunk p),
     size_bytes := kTransportFeedbackHeaderSizeBytes\<rparr>"

definition AddDeltaSize :: "transport_feedback \<Rightarrow> u8 \<Rightarrow> (bool \<times> transport_feedback) option" where
  "AddDeltaSize p delta_size =
     (if num_seq_no p = kMaxReportedPackets then Some (False, p)
      else let add_chunk_size = (if LastChunk_Empty (tf_last_chunk p) then kChunkSizeBytes else 0) in
        if size_bytes p + unat delta_size + add_chunk_size > kMaxSizeBytes then Some (False, p)
        else do {
          can \<leftarrow> CanAdd (tf_last_chunk p) delta_size;
          if can then do {
            lc \<leftarrow> Add (tf_last_chunk p) delta_size;
            Some (True, p\<lparr>size_bytes := size_bytes p + add_chunk_size, tf_last_chunk := lc,
                          num_seq_no := num_seq_no p + 1\<rparr>)
          }
          else if size_bytes p + unat delta_size + kChunkSizeBytes > kMaxSizeBytes then Some (False, p)
          else do {
            (chunk, lc) \<leftarrow> Emit (tf_last_chunk p);
            lc \<leftarrow> Add lc delta_size;
            Some (True, p\<lparr>encoded_chunks := encoded_chunks p @ [chunk],
                          size_bytes := size_bytes p + kChunkSizeBytes, tf_last_chunk := lc,
                          num_seq_no := num_seq_no p + 1\<rparr>)
          }
        })"

text \<open>\<^verbatim>\<open>for (; next_seq_no != sequence_number; ++next_seq_no)\<close>\<close>

function AddLostPackets ::
    "transport_feedback \<Rightarrow> u16 \<Rightarrow> u16 \<Rightarrow> (bool \<times> transport_feedback) option" where
  "AddLostPackets p next_seq_no seq =
     (if next_seq_no \<noteq> seq then
        (case AddDeltaSize p 0 of
           None \<Rightarrow> None
         | Some (ok, p') \<Rightarrow>
             if \<not> ok then Some (False, p')
             else AddLostPackets
               (if include_lost p' then p'\<lparr>all_packets := all_packets p' @ [LostPacket next_seq_no]\<rparr> else p')
               (next_seq_no + 1) seq)
      else Some (True, p))"
  by pat_completeness auto
termination
proof (relation "measure (\<lambda>(_, next, seq). unat (seq - next))", goal_cases)
  case (2 p n seq)
  then have "seq - n \<noteq> 0" by simp
  then have "unat (seq - n - 1) < unat (seq - n)"
    by (metis unat_minus_one diff_less unat_gt_0 zero_less_one word_neq_0_conv)
  then show ?case by (simp add: diff_diff_eq add.commute)
qed simp

declare AddLostPackets.simps [simp del]

text \<open>The receive delta in ticks, rounded; the \<^verbatim>\<open>int64_t delta_full\<close> of \<^verbatim>\<open>AddReceivedPacket\<close>.\<close>

definition delta_full :: "int \<Rightarrow> int \<Rightarrow> int" where
  "delta_full timestamp_us last_us =
     (let d = (timestamp_us - last_us) smod kTimeWrapPeriodUs;
          d = (if d > kTimeWrapPeriodUs sdiv 2 then d - kTimeWrapPeriodUs else d);
          d = d + (if d < 0 then - (kDeltaScaleFactor sdiv 2) else kDeltaScaleFactor sdiv 2)
      in d sdiv kDeltaScaleFactor)"

definition AddReceivedPacket ::
    "transport_feedback \<Rightarrow> u16 \<Rightarrow> int \<Rightarrow> (bool \<times> transport_feedback) option" where
  "AddReceivedPacket p seq timestamp_us =
     (let full = (if include_timestamps p then delta_full timestamp_us (last_timestamp_us p) else 0);
          delta = (word_of_int full :: i16) in
      if include_timestamps p \<and> sint delta \<noteq> full then Some (False, p)
      else do {
        let next_seq_no = base_seq_no p + num_seq_no p;
        (ok, p) \<leftarrow> (if seq \<noteq> next_seq_no then
            let last_seq_no = next_seq_no - 1 in
            if \<not> IsNewerSequenceNumber seq last_seq_no then Some (False, p)
            else AddLostPackets p next_seq_no seq
          else Some (True, p));
        if \<not> ok then Some (False, p)
        else do {
          let delta_size = (if sint delta \<ge> 0 \<and> sint delta \<le> 0xff then 1 else 2 :: u8);
          (ok, p) \<leftarrow> AddDeltaSize p delta_size;
          if \<not> ok then Some (False, p)
          else Some (True, p\<lparr>
            received_packets := received_packets p @ [ReceivedPacket seq delta],
            all_packets := (if include_lost p then all_packets p @ [ReceivedPacket seq delta] else all_packets p),
            last_timestamp_us := last_timestamp_us p + sint delta * kDeltaScaleFactor,
            size_bytes := (if include_timestamps p then size_bytes p + unat delta_size else size_bytes p)\<rparr>)
        }
      })"

subsection \<open>Parsing\<close>

text \<open>The loop that decodes status chunks until \<open>status_count\<close> delta sizes are known.\<close>

function Tf_ParseChunks ::
    "u8 list \<Rightarrow> nat \<Rightarrow> nat \<Rightarrow> nat \<Rightarrow> transport_feedback \<Rightarrow> u8 list \<Rightarrow>
      (bool \<times> nat \<times> transport_feedback \<times> u8 list) option" where
  "Tf_ParseChunks data end_index status_count i p sizes =
     (if length sizes < status_count then
        if i + kChunkSizeBytes > end_index then Some (False, i, Tf_Clear p, sizes)
        else (case ReadBE16 data i of
            None \<Rightarrow> None
          | Some chunk \<Rightarrow>
            (case Decode (tf_last_chunk p) chunk (status_count - length sizes) of
               None \<Rightarrow> None
             | Some lc \<Rightarrow>
               (case AppendTo lc sizes of
                  None \<Rightarrow> None
                | Some sizes' \<Rightarrow>
                    Tf_ParseChunks data end_index status_count (i + kChunkSizeBytes)
                      (p\<lparr>encoded_chunks := encoded_chunks p @ [chunk], tf_last_chunk := lc\<rparr>) sizes')))
      else Some (True, i, p, sizes))"
  by pat_completeness auto
termination
  by (relation "measure (\<lambda>(_, e, _, i, _, _). e - i)") (auto simp: kChunkSizeBytes_def)

declare Tf_ParseChunks.simps [simp del]

definition add_received :: "u16 \<Rightarrow> i16 \<Rightarrow> transport_feedback \<Rightarrow> transport_feedback" where
  "add_received seq_no delta p = p\<lparr>
     received_packets := received_packets p @ [ReceivedPacket seq_no delta],
     all_packets := (if include_lost p then all_packets p @ [ReceivedPacket seq_no delta] else all_packets p)\<rparr>"

definition add_lost :: "u16 \<Rightarrow> transport_feedback \<Rightarrow> transport_feedback" where
  "add_lost seq_no p =
     (if include_lost p then p\<lparr>all_packets := all_packets p @ [LostPacket seq_no]\<rparr> else p)"

definition advance :: "i16 \<Rightarrow> transport_feedback \<Rightarrow> transport_feedback" where
  "advance delta p = p\<lparr>last_timestamp_us := last_timestamp_us p + sint delta * kDeltaScaleFactor\<rparr>"

fun Tf_ParseDeltas ::
    "u8 list \<Rightarrow> nat \<Rightarrow> u8 list \<Rightarrow> nat \<Rightarrow> u16 \<Rightarrow> transport_feedback \<Rightarrow>
      (bool \<times> nat \<times> transport_feedback) option" where
  "Tf_ParseDeltas data end_index [] i seq_no p = Some (True, i, p)"
| "Tf_ParseDeltas data end_index (delta_size # sizes) i seq_no p = do {
     dcheck (i + unat delta_size \<le> end_index);
     if delta_size = 0 then Tf_ParseDeltas data end_index sizes i (seq_no + 1) (add_lost seq_no p)
     else if delta_size = 1 then do {
       b \<leftarrow> load data i;
       let delta = (ucast b :: i16);
       Tf_ParseDeltas data end_index sizes (i + 1) (seq_no + 1) (advance delta (add_received seq_no delta p))
     }
     else if delta_size = 2 then do {
       delta \<leftarrow> ReadBE16 data i;
       Tf_ParseDeltas data end_index sizes (i + 2) (seq_no + 1) (advance delta (add_received seq_no delta p))
     }
     else if delta_size = 3 then Some (False, i, Tf_Clear p)
     else None
   }"

fun Tf_ParseNoDeltas :: "u8 list \<Rightarrow> u16 \<Rightarrow> transport_feedback \<Rightarrow> transport_feedback" where
  "Tf_ParseNoDeltas [] seq_no p = p"
| "Tf_ParseNoDeltas (delta_size # sizes) seq_no p =
     Tf_ParseNoDeltas sizes (seq_no + 1)
       (if delta_size > 0 then add_received seq_no 0 p else add_lost seq_no p)"

text \<open>The rest of \<^verbatim>\<open>Parse\<close> once the delta sizes are known.\<close>

definition Tf_ParsePackets ::
    "u8 list \<Rightarrow> nat \<Rightarrow> u8 list \<Rightarrow> nat \<Rightarrow> transport_feedback \<Rightarrow> (bool \<times> transport_feedback) option" where
  "Tf_ParsePackets data end_index sizes i p = do {
     let recv_delta_size = sum_list (map unat sizes);
     (ok, i, p) \<leftarrow>
       (if end_index \<ge> i + recv_delta_size
        then Tf_ParseDeltas data end_index sizes i (base_seq_no p) p
        else Some (True, i, Tf_ParseNoDeltas sizes (base_seq_no p) (p\<lparr>include_timestamps := False\<rparr>)));
     if \<not> ok then Some (False, p)
     else do {
       let p = p\<lparr>size_bytes := kHeaderLength + i\<rparr>;
       dcheck (i \<le> end_index);
       Some (True, p)
     }
   }"

definition TransportFeedback_Parse ::
    "transport_feedback \<Rightarrow> common_header \<Rightarrow> (bool \<times> transport_feedback) option" where
  "TransportFeedback_Parse p h = do {
     dcheck (packet_type h = kRtpfbPacketType);
     dcheck (count_or_format h = kTransportFeedbackFeedbackMessageType);
     if payload_size h < kMinPayloadSizeBytes then Some (False, p)
     else do {
       let payload = payload_view h;
       p \<leftarrow> Rtpfb_ParseCommonFeedback payload p;
       base \<leftarrow> ReadBE16 payload 8;
       status_count \<leftarrow> ReadBE16 payload 10;
       ticks \<leftarrow> ReadBE24s payload 12;
       fb \<leftarrow> load payload 15;
       let p = Tf_Clear (p\<lparr>base_seq_no := base, base_time_ticks := ticks, feedback_seq := fb\<rparr>);
       let end_index = payload_size h;
       if status_count = 0 then Some (False, p)
       else do {
         (ok, i, p, sizes) \<leftarrow> Tf_ParseChunks payload end_index (unat status_count) 16 p [];
         if \<not> ok then Some (False, p)
         else do {
           let p = p\<lparr>encoded_chunks := butlast (encoded_chunks p)\<rparr>;
           dcheck (length sizes = unat status_count);
           let p = p\<lparr>num_seq_no := status_count\<rparr>;
           Tf_ParsePackets payload end_index sizes i p
         }
       }
     }
   }"

definition TransportFeedback_ParseFrom ::
    "(nat \<Rightarrow> u8) \<Rightarrow> common_header \<Rightarrow> u8 list \<Rightarrow> transport_feedback option option" where
  "TransportFeedback_ParseFrom fill header buffer = do {
     (ok, header) \<leftarrow> CommonHeader_Parse header buffer;
     if \<not> ok then Some None
     else if packet_type header \<noteq> kRtpfbPacketType \<or>
             count_or_format header \<noteq> kTransportFeedbackFeedbackMessageType then Some None
     else do {
       (ok, parsed) \<leftarrow> TransportFeedback_Parse (TransportFeedback_new fill True True) header;
       if \<not> ok then Some None else Some (Some parsed)
     }
   }"

subsection \<open>The self check\<close>

fun decode_chunks :: "last_chunk \<Rightarrow> u16 list \<Rightarrow> u8 list \<Rightarrow> u8 list option" where
  "decode_chunks decoder [] sizes = Some sizes"
| "decode_chunks decoder (chunk # chunks) sizes = do {
     decoder \<leftarrow> Decode decoder chunk (unat kMaxReportedPackets);
     sizes \<leftarrow> AppendTo decoder sizes;
     decode_chunks decoder chunks sizes
   }"

text \<open>
  The loop over the delta sizes.  The result is \<open>None\<close> for a \<^verbatim>\<open>return false\<close>, otherwise the packets
  not yet visited, the timestamp and the packet size.
\<close>

fun check_deltas ::
    "bool \<Rightarrow> u8 list \<Rightarrow> received_packet list \<Rightarrow> u16 \<Rightarrow> int \<Rightarrow> nat \<Rightarrow>
      (received_packet list \<times> int \<times> nat) option" where
  "check_deltas timestamps [] packets seq_no timestamp_us psize =
     Some (packets, timestamp_us, psize)"
| "check_deltas timestamps (delta_size # sizes) packets seq_no timestamp_us psize =
     (let psize' = (if timestamps then psize + unat delta_size else psize) in
      if delta_size > 0 then
        (case packets of
           [] \<Rightarrow> None
         | pk # rest \<Rightarrow>
             if sequence_number pk \<noteq> seq_no then None
             else if delta_size = 1 \<and> (sint (delta_ticks pk) < 0 \<or> sint (delta_ticks pk) > 0xff) then None
             else check_deltas timestamps sizes rest (seq_no + 1)
                    (timestamp_us + sint (delta_ticks pk) * kDeltaScaleFactor) psize')
      else check_deltas timestamps sizes packets (seq_no + 1) timestamp_us psize')"

definition IsConsistent :: "(nat \<Rightarrow> u8) \<Rightarrow> transport_feedback \<Rightarrow> bool option" where
  "IsConsistent fill p = do {
     sizes \<leftarrow> decode_chunks (LastChunk_new fill) (encoded_chunks p) [];
     let psize = kTransportFeedbackHeaderSizeBytes + kChunkSizeBytes * length (encoded_chunks p);
     (sizes, psize) \<leftarrow>
       (if \<not> LastChunk_Empty (tf_last_chunk p) then do {
          sizes \<leftarrow> AppendTo (tf_last_chunk p) sizes;
          Some (sizes, psize + kChunkSizeBytes)
        } else Some (sizes, psize));
     if unat (num_seq_no p) \<noteq> length sizes then Some False
     else (case check_deltas (include_timestamps p) sizes (received_packets p) (base_seq_no p)
                  (GetBaseTimeUs p) psize of
         None \<Rightarrow> Some False
       | Some (packets, timestamp_us, psize) \<Rightarrow>
           Some (packets = [] \<and> timestamp_us = last_timestamp_us p \<and> size_bytes p = psize))
   }"

subsection \<open>Serializing\<close>

definition TransportFeedback_BlockLength :: "transport_feedback \<Rightarrow> nat" where
  "TransportFeedback_BlockLength p = (size_bytes p + 3) div 4 * 4"

definition PaddingLength :: "transport_feedback \<Rightarrow> nat" where
  "PaddingLength p = TransportFeedback_BlockLength p - size_bytes p"

definition WriteDelta :: "received_packet \<Rightarrow> u8 list \<Rightarrow> nat \<Rightarrow> (u8 list \<times> nat) option" where
  "WriteDelta received_packet pkt position =
     (let delta = delta_ticks received_packet in
      if sint delta \<ge> 0 \<and> sint delta \<le> 0xFF then do {
        pkt \<leftarrow> store pkt position (ucast delta);
        Some (pkt, position + 1)
      }
      else do {
        pkt \<leftarrow> WriteBE16 pkt position delta;
        Some (pkt, position + 2)
      })"

text \<open>What \<^verbatim>\<open>Create\<close> writes once there is room for the packet.\<close>

definition Tf_CreateBody :: "transport_feedback \<Rightarrow> u8 list \<Rightarrow> nat \<Rightarrow> (u8 list \<times> nat) option" where
  "Tf_CreateBody p pkt position = do {
     let position_end = position + TransportFeedback_BlockLength p;
     let padding_length = PaddingLength p;
     let has_padding = (padding_length > 0);
     hl \<leftarrow> HeaderLength (TransportFeedback_BlockLength p);
     (pkt, position) \<leftarrow> CreateHeader (unat kTransportFeedbackFeedbackMessageType) kRtpfbPacketType hl
       has_padding pkt position;
     pkt \<leftarrow> Rtpfb_CreateCommonFeedback p pkt position;
     let position = position + kCommonFeedbackLength;
     pkt \<leftarrow> WriteBE16 pkt position (base_seq_no p);
     let position = position + 2;
     pkt \<leftarrow> WriteBE16 pkt position (num_seq_no p);
     let position = position + 2;
     pkt \<leftarrow> WriteBE24 pkt position (base_time_ticks p);
     let position = position + 3;
     pkt \<leftarrow> store pkt position (feedback_seq p);
     let position = position + 1;
     (pkt, position) \<leftarrow> write_each (\<lambda>chunk pkt position. WriteBE16 pkt position chunk) 2
       (encoded_chunks p) pkt position;
     (pkt, position) \<leftarrow>
       (if \<not> LastChunk_Empty (tf_last_chunk p) then do {
          chunk \<leftarrow> EncodeLast (tf_last_chunk p);
          pkt \<leftarrow> WriteBE16 pkt position chunk;
          Some (pkt, position + 2)
        } else Some (pkt, position));
     (pkt, position) \<leftarrow>
       (if include_timestamps p then write_all WriteDelta (received_packets p) pkt position
        else Some (pkt, position));
     (pkt, position) \<leftarrow>
       (if padding_length > 0 then do {
          pkt \<leftarrow> copy_to pkt position (replicate (padding_length - 1) 0);
          let position = position + (padding_length - 1);
          pkt \<leftarrow> store pkt position (word_of_nat padding_length);
          Some (pkt, position + 1)
        } else Some (pkt, position));
     dcheck (position = position_end);
     Some (pkt, position)
   }"

definition TransportFeedback_Create ::
    "transport_feedback \<Rightarrow> nat \<Rightarrow> bool \<Rightarrow> sink \<Rightarrow> (bool \<times> sink) option" where
  "TransportFeedback_Create p max_length cb st =
     (if num_seq_no p = 0 then Some (False, st)
      else create_at (TransportFeedback_BlockLength p) (Tf_CreateBody p) max_length cb st)"

subsection \<open>What the caches mean\<close>

definition tf_statuses :: "transport_feedback \<Rightarrow> u8 list" where
  "tf_statuses p = concat (map symbols (encoded_chunks p)) @ lc_contents (tf_last_chunk p)"

definition small_delta :: "received_packet \<Rightarrow> bool" where
  "small_delta r \<longleftrightarrow> 0 \<le> sint (delta_ticks r) \<and> sint (delta_ticks r) \<le> 0xff"

text \<open>
  The statuses, starting at sequence number \<open>seq\<close>, describe the received packets.  With \<open>minimal\<close>,
  each delta is also stored in as few bytes as possible, which is how the serializer writes it.
\<close>

fun tf_match :: "bool \<Rightarrow> u8 list \<Rightarrow> received_packet list \<Rightarrow> u16 \<Rightarrow> bool" where
  "tf_match minimal [] rs seq = (rs = [])"
| "tf_match minimal (d # ds) rs seq =
     (if d = 0 then tf_match minimal ds rs (seq + 1)
      else (case rs of [] \<Rightarrow> False
        | r # rs \<Rightarrow> sequence_number r = seq \<and> (d = 1 \<longrightarrow> small_delta r) \<and>
            (minimal \<longrightarrow> d \<le> 2 \<and> (small_delta r \<longrightarrow> d = 1)) \<and> tf_match minimal ds rs (seq + 1)))"

fun tf_all :: "u8 list \<Rightarrow> received_packet list \<Rightarrow> u16 \<Rightarrow> received_packet list" where
  "tf_all [] rs seq = []"
| "tf_all (d # ds) rs seq =
     (if d = 0 then LostPacket seq # tf_all ds rs (seq + 1)
      else (case rs of [] \<Rightarrow> [] | r # rs \<Rightarrow> r # tf_all ds rs (seq + 1)))"

definition ticks_us :: "received_packet list \<Rightarrow> int" where
  "ticks_us rs = sum_list (map (\<lambda>r. sint (delta_ticks r) * kDeltaScaleFactor) rs)"

definition chunk_bytes :: "transport_feedback \<Rightarrow> nat" where
  "chunk_bytes p = 2 * length (encoded_chunks p) + (if chunk_size (tf_last_chunk p) = 0 then 0 else 2)"

definition tf_inv :: "bool \<Rightarrow> transport_feedback \<Rightarrow> bool" where
  "tf_inv minimal p \<longleftrightarrow>
     lc_ok (tf_last_chunk p) \<and>
     length (tf_statuses p) = unat (num_seq_no p) \<and>
     (num_seq_no p \<noteq> 0 \<longrightarrow> chunk_size (tf_last_chunk p) \<noteq> 0) \<and>
     tf_match minimal (tf_statuses p) (received_packets p) (base_seq_no p) \<and>
     last_timestamp_us p = GetBaseTimeUs p + ticks_us (received_packets p) \<and>
     size_bytes p = 20 + chunk_bytes p + (if include_timestamps p then sum_list (map unat (tf_statuses p)) else 0) \<and>
     all_packets p =
       (if include_lost p then tf_all (tf_statuses p) (received_packets p) (base_seq_no p) else []) \<and>
     (\<not> include_timestamps p \<longrightarrow> list_all (\<lambda>r. delta_ticks r = 0) (received_packets p)) \<and>
     (include_timestamps p \<longrightarrow> list_all (\<lambda>d. d \<le> 2) (tf_statuses p)) \<and>
     list_all received (received_packets p) \<and>
     (minimal \<longrightarrow> size_bytes p \<le> kMaxSizeBytes)"

lemma length_symbols: "length (symbols chunk) \<le> 0x1fff"
proof -
  have "chunk AND mask 13 \<le> mask 13" by (rule word_and_le1)
  then have "unat (chunk AND mask 13) \<le> 0x1fff" by (simp add: word_le_nat_alt mask_eq_exp_minus_1)
  then show ?thesis by (simp add: symbols_def)
qed

lemma decode_chunks_eq:
  "length (delta_sizes lc) = 14 \<Longrightarrow> decode_chunks lc chunks sizes = Some (sizes @ concat (map symbols chunks))"
proof (induction chunks arbitrary: lc sizes)
  case (Cons chunk chunks)
  obtain lc' where lc': "Decode lc chunk 65535 = Some lc'" "lc_ok lc'" "lc_contents lc' = symbols chunk"
    using Decode_contents [OF Cons.prems, of chunk 65535] length_symbols [of chunk] by auto
  then have "length (delta_sizes lc') = 14" by (simp add: lc_ok_def)
  with lc' Cons.IH [of lc'] show ?case
    by (simp add: kMaxReportedPackets_def AppendTo_contents)
qed simp

lemma check_deltas_match:
  "tf_match m ds rs seq \<Longrightarrow> check_deltas t ds rs seq ts n =
     Some ([], ts + ticks_us rs, n + (if t then sum_list (map unat ds) else 0))"
proof (induction m ds rs seq arbitrary: ts n rule: tf_match.induct)
  case (2 m d ds rs seq)
  have "0 < d \<longleftrightarrow> d \<noteq> 0" by (simp add: word_neq_0_conv)
  then show ?case
    using 2 by (auto simp: Let_def ticks_us_def small_delta_def not_less split: list.splits if_splits)
qed (simp add: ticks_us_def)

text \<open>
  What the self check of the class compares, once chunks and packets describe each other; it succeeds
  in every state with the invariant.
\<close>

lemma IsConsistent_eq:
  assumes lc: "lc_ok (tf_last_chunk p)" and num: "length (tf_statuses p) = unat (num_seq_no p)"
    and match: "tf_match m (tf_statuses p) (received_packets p) (base_seq_no p)"
  shows "IsConsistent fill p = Some (last_timestamp_us p = GetBaseTimeUs p + ticks_us (received_packets p) \<and>
    size_bytes p = 20 + chunk_bytes p + (if include_timestamps p then sum_list (map unat (tf_statuses p)) else 0))"
proof -
  have "length (delta_sizes (LastChunk_new fill)) = 14"
    by (simp add: LastChunk_new_def LastChunk_Clear_def capacities)
  note decode = decode_chunks_eq [OF this, of "encoded_chunks p" "[]"]
  have app: "AppendTo (tf_last_chunk p) xs = Some (xs @ lc_contents (tf_last_chunk p))" for xs
    using lc by (simp add: AppendTo_contents)
  have empty: "chunk_size (tf_last_chunk p) = 0 \<Longrightarrow> lc_contents (tf_last_chunk p) = []"
    by (simp add: lc_contents_def)
  show ?thesis
    using check_deltas_match [OF match] num
    by (auto simp: IsConsistent_def decode app empty LastChunk_Empty_def tf_statuses_def
        chunk_bytes_def kChunkSizeBytes_def kTransportFeedbackHeaderSizeBytes_def Let_def)
qed

lemma tf_inv_IsConsistent: "tf_inv m p \<Longrightarrow> IsConsistent fill p = Some True"
  using IsConsistent_eq [of p m fill] by (simp add: tf_inv_def)

lemma tf_inv_new: "tf_inv m (TransportFeedback_new fill timestamps lost)"
proof -
  have len: "length (delta_sizes (LastChunk_new fill)) = 14"
    by (simp add: LastChunk_new_def LastChunk_Clear_def capacities)
  have "lc_ok (LastChunk_new fill)" "lc_contents (LastChunk_new fill) = []" "chunk_size (LastChunk_new fill) = 0"
    using LastChunk_Clear_ok len by (simp_all add: LastChunk_new_def LastChunk_Clear_def lc_ok_def lc_contents_def)
  then show ?thesis
    by (simp add: tf_inv_def TransportFeedback_new_def tf_statuses_def chunk_bytes_def ticks_us_def
        GetBaseTimeUs_def kTransportFeedbackHeaderSizeBytes_def kMaxSizeBytes_def)
qed

lemma tf_inv_Clear:
  assumes "length (delta_sizes (tf_last_chunk p)) = 14"
  shows "tf_inv m (Tf_Clear p)"
  using LastChunk_Clear_ok [OF assms]
  by (simp add: tf_inv_def Tf_Clear_def tf_statuses_def chunk_bytes_def ticks_us_def LastChunk_Clear_def
      GetBaseTimeUs_def kTransportFeedbackHeaderSizeBytes_def kMaxSizeBytes_def)

lemma tf_inv_empty:
  assumes "tf_inv m p" "num_seq_no p = 0"
  shows "tf_statuses p = []" "received_packets p = []" "all_packets p = []"
proof -
  show st: "tf_statuses p = []" using assms by (simp add: tf_inv_def)
  show "received_packets p = []" "all_packets p = []"
    using assms st by (simp_all add: tf_inv_def)
qed

lemma tf_inv_SetBase:
  assumes inv: "tf_inv m p" and set: "SetBase p base ref = Some p'"
  shows "tf_inv m p'"
proof -
  let ?t = "word_of_int ((ref smod kTimeWrapPeriodUs) sdiv kBaseScaleFactor) :: i32"
  have num: "num_seq_no p = 0" using set by (auto simp: SetBase_def split: bind_splits)
  have p': "p' = p\<lparr>base_seq_no := base, base_time_ticks := ?t,
      last_timestamp_us := sint ?t * kBaseScaleFactor\<rparr>"
    using set by (auto simp: SetBase_def GetBaseTimeUs_def Let_def split: bind_splits)
  note empty = tf_inv_empty [OF inv num]
  have "tf_statuses p' = []" "chunk_bytes p' = chunk_bytes p" "GetBaseTimeUs p' = last_timestamp_us p'"
    using empty by (simp_all add: p' tf_statuses_def chunk_bytes_def GetBaseTimeUs_def)
  with inv empty num show ?thesis
    by (auto simp: tf_inv_def ticks_us_def p')
qed

subsection \<open>Adding packets keeps the invariant\<close>

lemma tf_match_lost: "tf_match m (ds @ [0]) rs seq = tf_match m ds rs seq"
proof (induction ds arbitrary: rs seq)
  case (Cons d ds)
  then show ?case by (cases rs) simp_all
qed simp

lemma tf_match_received:
  assumes "d \<noteq> 0" "d = 1 \<longrightarrow> small_delta r" "m \<longrightarrow> d \<le> 2 \<and> (small_delta r \<longrightarrow> d = 1)"
  shows "tf_match m ds rs seq \<Longrightarrow> sequence_number r = seq + word_of_nat (length ds) \<Longrightarrow>
    tf_match m (ds @ [d]) (rs @ [r]) seq"
proof (induction ds arbitrary: rs seq)
  case Nil
  with assms show ?case by simp
next
  case (Cons e ds)
  then have seq: "sequence_number r = (seq + 1) + word_of_nat (length ds)" by (simp add: add.assoc)
  show ?case
  proof (cases "e = 0")
    case True
    with Cons.prems(1) Cons.IH [OF _ seq] show ?thesis by simp
  next
    case False
    with Cons.prems(1) Cons.IH [OF _ seq] show ?thesis by (cases rs) simp_all
  qed
qed

lemma tf_all_lost:
  "tf_match m ds rs seq \<Longrightarrow>
     tf_all (ds @ [0]) rs seq = tf_all ds rs seq @ [LostPacket (seq + word_of_nat (length ds))]"
proof (induction ds arbitrary: rs seq)
  case (Cons e ds)
  show ?case
  proof (cases "e = 0")
    case True
    with Cons.prems Cons.IH [of rs "seq + 1"] show ?thesis by (simp add: add.assoc)
  next
    case False
    with Cons.prems obtain r rs' where "rs = r # rs'" "tf_match m ds rs' (seq + 1)"
      by (cases rs) auto
    with False Cons.IH [of rs' "seq + 1"] show ?thesis by (simp add: add.assoc)
  qed
qed simp

lemma tf_all_received:
  "tf_match m ds rs seq \<Longrightarrow> d \<noteq> 0 \<Longrightarrow> tf_all (ds @ [d]) (rs @ [r]) seq = tf_all ds rs seq @ [r]"
proof (induction ds arbitrary: rs seq)
  case (Cons e ds)
  show ?case
  proof (cases "e = 0")
    case True
    with Cons.prems Cons.IH [of rs "seq + 1"] show ?thesis by simp
  next
    case False
    with Cons.prems obtain r rs' where "rs = r # rs'" "tf_match m ds rs' (seq + 1)"
      by (cases rs) auto
    with False Cons.prems(2) Cons.IH [of rs' "seq + 1"] show ?thesis by simp
  qed
qed simp

text \<open>
  What \<open>AddDeltaSize\<close> does to the caches: one more status, nothing else.  It refuses only at the limit
  of the number of packets or of the size.
\<close>

lemma AddDeltaSize_spec:
  assumes ok: "lc_ok (tf_last_chunk p)" and d: "d \<le> 2"
  shows "AddDeltaSize p d = Some (False, p) \<and> (num_seq_no p = 0xffff \<or> kMaxSizeBytes < size_bytes p + unat d + 2) \<or>
    (\<exists>chunks lc n. AddDeltaSize p d = Some (True, p\<lparr>encoded_chunks := chunks, tf_last_chunk := lc,
        size_bytes := n, num_seq_no := num_seq_no p + 1\<rparr>) \<and>
      num_seq_no p \<noteq> 0xffff \<and> lc_ok lc \<and> chunk_size lc \<noteq> 0 \<and> n + unat d \<le> kMaxSizeBytes \<and> n \<le> size_bytes p + 2 \<and>
      n + chunk_bytes p = size_bytes p + (2 * length chunks + 2) \<and>
      concat (map symbols chunks) @ lc_contents lc = tf_statuses p @ [d])"
proof -
  let ?lc = "tf_last_chunk p"
  let ?add = "if LastChunk_Empty ?lc then kChunkSizeBytes else 0"
  obtain can where can: "CanAdd ?lc d = Some can" using CanAdd_eq [OF ok d] by blast
  show ?thesis
  proof (cases "num_seq_no p = kMaxReportedPackets \<or> size_bytes p + unat d + ?add > kMaxSizeBytes \<or>
      (\<not> can \<and> size_bytes p + unat d + kChunkSizeBytes > kMaxSizeBytes)")
    case True
    then have "AddDeltaSize p d = Some (False, p)" using can by (auto simp: AddDeltaSize_def Let_def)
    moreover have "num_seq_no p = 0xffff \<or> kMaxSizeBytes < size_bytes p + unat d + 2"
      using True by (auto simp: kMaxReportedPackets_def kChunkSizeBytes_def split: if_splits)
    ultimately show ?thesis by blast
  next
    case False
    show ?thesis
    proof (cases can)
      case True
      obtain lc where lc: "Add ?lc d = Some lc" "lc_ok lc" "lc_contents lc = lc_contents ?lc @ [d]"
        using Add_contents [OF ok d] can True by auto
      have "chunk_size lc \<noteq> 0" using lc(2,3) length_lc_contents by fastforce
      then have "AddDeltaSize p d = Some (True, p\<lparr>encoded_chunks := encoded_chunks p, tf_last_chunk := lc,
        size_bytes := size_bytes p + ?add, num_seq_no := num_seq_no p + 1\<rparr>)"
        using False True can lc(1) by (auto simp: AddDeltaSize_def Let_def)
      with False lc \<open>chunk_size lc \<noteq> 0\<close> show ?thesis
        by (intro disjI2 exI [of _ "encoded_chunks p"] exI [of _ lc] exI [of _ "size_bytes p + ?add"])
          (auto simp: kMaxReportedPackets_def tf_statuses_def chunk_bytes_def LastChunk_Empty_def
            kChunkSizeBytes_def)
    next
      case full: False
      obtain r lc where e: "Emit ?lc = Some (r, lc)" "lc_ok lc" "chunk_size lc < 7"
          "lc_contents ?lc = symbols r @ lc_contents lc"
        using Emit_symbols [OF ok d] can full by auto
      have "CanAdd lc d = Some True" using CanAdd_eq [OF e(2) d] e(3) by simp
      then obtain lc' where lc: "Add lc d = Some lc'" "lc_ok lc'" "lc_contents lc' = lc_contents lc @ [d]"
        using Add_contents [OF e(2) d] by auto
      have ne: "chunk_size lc' \<noteq> 0" using lc(2,3) length_lc_contents by fastforce
      have "chunk_size ?lc \<noteq> 0" using CanAdd_eq [OF ok d] can full by auto
      then show ?thesis
        using False full can e lc ne
        by (intro disjI2 exI [of _ "encoded_chunks p @ [r]"] exI [of _ lc']
            exI [of _ "size_bytes p + kChunkSizeBytes"])
          (auto simp: AddDeltaSize_def Let_def kMaxReportedPackets_def tf_statuses_def chunk_bytes_def
            LastChunk_Empty_def kChunkSizeBytes_def)
    qed
  qed
qed

lemma AddDeltaSize_cases:
  assumes "lc_ok (tf_last_chunk p)" "d \<le> 2"
  obtains ok p' where "AddDeltaSize p d = Some (ok, p')" "\<not> ok \<longrightarrow> p' = p"
  using AddDeltaSize_spec [OF assms] that by (elim disjE exE conjE) blast+

lemma unat_Suc_u16: "n \<noteq> 0xffff \<Longrightarrow> unat (n + 1 :: u16) = unat n + 1"
proof -
  assume "n \<noteq> 0xffff"
  moreover have "n = - 1" if "1 + n = 0" using that by (simp add: eq_neg_iff_add_eq_0 add.commute)
  ultimately have "1 + n \<noteq> 0" by auto
  then show ?thesis using unatSuc [of n] by (simp add: add.commute)
qed

text \<open>The shared part of both preservation proofs: the fields after a successful \<open>AddDeltaSize\<close>.\<close>

lemma AddDeltaSize_added:
  assumes inv: "tf_inv m p" and d: "d \<le> 2" and add: "AddDeltaSize p d = Some (True, p')"
  obtains chunks lc n where
    "p' = p\<lparr>encoded_chunks := chunks, tf_last_chunk := lc, size_bytes := n, num_seq_no := num_seq_no p + 1\<rparr>"
    "tf_statuses p' = tf_statuses p @ [d]" "lc_ok lc" "chunk_size lc \<noteq> 0"
    "length (tf_statuses p') = unat (num_seq_no p')" "size_bytes p' + unat d \<le> kMaxSizeBytes"
    "size_bytes p' = 20 + chunk_bytes p' + (if include_timestamps p then sum_list (map unat (tf_statuses p)) else 0)"
    "size_bytes p' \<le> size_bytes p + 2"
proof -
  from inv have "lc_ok (tf_last_chunk p)" by (simp add: tf_inv_def)
  from AddDeltaSize_spec [OF this d] add obtain chunks lc n where
    p': "p' = p\<lparr>encoded_chunks := chunks, tf_last_chunk := lc, size_bytes := n, num_seq_no := num_seq_no p + 1\<rparr>"
    and num: "num_seq_no p \<noteq> 0xffff" and lc: "lc_ok lc" "chunk_size lc \<noteq> 0" and n: "n + unat d \<le> kMaxSizeBytes"
      "n + chunk_bytes p = size_bytes p + (2 * length chunks + 2)" "n \<le> size_bytes p + 2"
    and st: "concat (map symbols chunks) @ lc_contents lc = tf_statuses p @ [d]"
    by auto
  have st': "tf_statuses p' = tf_statuses p @ [d]" using st by (simp add: p' tf_statuses_def)
  moreover have "num_seq_no p' = num_seq_no p + 1" by (simp add: p')
  then have "length (tf_statuses p') = unat (num_seq_no p')"
    using inv unat_Suc_u16 [OF num] by (simp add: st' tf_inv_def)
  moreover have "chunk_bytes p' = 2 * length chunks + 2" using lc by (simp add: p' chunk_bytes_def)
  moreover have "size_bytes p = 20 + chunk_bytes p +
      (if include_timestamps p then sum_list (map unat (tf_statuses p)) else 0)"
    using inv by (simp add: tf_inv_def)
  ultimately show thesis using that [OF p'] lc n by (simp add: p')
qed

lemma tf_inv_lost:
  assumes inv: "tf_inv m p" and add: "AddDeltaSize p 0 = Some (True, p')"
  shows "tf_inv m (add_lost (base_seq_no p + num_seq_no p) p')"
proof -
  obtain chunks lc n where
    p': "p' = p\<lparr>encoded_chunks := chunks, tf_last_chunk := lc, size_bytes := n, num_seq_no := num_seq_no p + 1\<rparr>"
    and st: "tf_statuses p' = tf_statuses p @ [0]" and rest: "lc_ok lc" "chunk_size lc \<noteq> 0"
    "length (tf_statuses p') = unat (num_seq_no p')" "size_bytes p' + unat (0 :: u8) \<le> kMaxSizeBytes"
    "size_bytes p' = 20 + chunk_bytes p' + (if include_timestamps p then sum_list (map unat (tf_statuses p)) else 0)"
    by (rule AddDeltaSize_added [OF inv word_zero_le add])
  let ?q = "add_lost (base_seq_no p + num_seq_no p) p'"
  obtain cb where cb: "chunk_bytes p' = cb" by blast
  have q: "tf_statuses ?q = tf_statuses p'" "chunk_bytes ?q = cb" "GetBaseTimeUs ?q = GetBaseTimeUs p"
    unfolding cb [symmetric]
    by (simp_all add: add_lost_def tf_statuses_def chunk_bytes_def GetBaseTimeUs_def p')
  have num: "num_seq_no p = word_of_nat (length (tf_statuses p))"
    using inv by (simp add: tf_inv_def)
  have mt: "tf_match m (tf_statuses p) (received_packets p) (base_seq_no p)"
    using inv by (simp add: tf_inv_def)
  have all: "tf_all (tf_statuses p @ [0]) (received_packets p) (base_seq_no p) =
      tf_all (tf_statuses p) (received_packets p) (base_seq_no p) @ [LostPacket (base_seq_no p + num_seq_no p)]"
    using tf_all_lost [OF mt] num by simp
  show ?thesis
    unfolding tf_inv_def q
    using inv rest [unfolded cb] all
    by (simp add: st tf_match_lost) (auto simp: tf_inv_def add_lost_def p')
qed

definition same_base :: "transport_feedback \<Rightarrow> transport_feedback \<Rightarrow> bool" where
  "same_base p q \<longleftrightarrow> base_seq_no q = base_seq_no p \<and> last_timestamp_us q = last_timestamp_us p \<and>
     include_timestamps q = include_timestamps p \<and> include_lost q = include_lost p \<and>
     received_packets q = received_packets p \<and> base_time_ticks q = base_time_ticks p"

lemma add_lost_fields:
  "all_packets (add_lost seq p) = all_packets p @ (if include_lost p then [LostPacket seq] else [])"
  "tf_statuses (add_lost seq p) = tf_statuses p" "include_lost (add_lost seq p) = include_lost p"
  "size_bytes (add_lost seq p) = size_bytes p" "num_seq_no (add_lost seq p) = num_seq_no p"
  "base_seq_no (add_lost seq p) = base_seq_no p" "same_base p (add_lost seq p)"
  by (simp_all add: add_lost_def tf_statuses_def same_base_def)

text \<open>The effect of \<open>n\<close> lost packets from sequence number \<open>seq\<close> on.\<close>

definition lost_packets :: "u16 \<Rightarrow> nat \<Rightarrow> received_packet list" where
  "lost_packets seq n = map (\<lambda>i. LostPacket (seq + word_of_nat i)) [0..<n]"

definition lost_added :: "transport_feedback \<Rightarrow> u16 \<Rightarrow> nat \<Rightarrow> transport_feedback \<Rightarrow> bool" where
  "lost_added p seq n q \<longleftrightarrow> tf_statuses q = tf_statuses p @ replicate n 0 \<and>
     all_packets q = all_packets p @ (if include_lost p then lost_packets seq n else []) \<and>
     size_bytes q \<le> size_bytes p + 2 * n"

lemma lost_packets_Suc: "lost_packets seq (Suc n) = LostPacket seq # lost_packets (seq + 1) n"
proof -
  have "map (\<lambda>i. LostPacket (seq + word_of_nat i)) [Suc 0..<Suc n] = map (\<lambda>i. LostPacket (seq + 1 + word_of_nat i)) [0..<n]"
    by (simp add: map_Suc_upt [symmetric] add.assoc del: upt_Suc)
  then show ?thesis by (simp add: lost_packets_def upt_conv_Cons del: upt_Suc)
qed

lemma lost_added_none: "lost_added p seq 0 p"
  by (simp add: lost_added_def lost_packets_def)

lemma lost_added_step:
  assumes add: "AddDeltaSize p 0 = Some (True, p')" and inv: "tf_inv m p"
    and rest: "lost_added (add_lost seq p') (seq + 1) n q"
  shows "lost_added p seq (Suc n) q"
proof -
  obtain chunks lc k where
    p': "p' = p\<lparr>encoded_chunks := chunks, tf_last_chunk := lc, size_bytes := k, num_seq_no := num_seq_no p + 1\<rparr>"
    and st: "tf_statuses p' = tf_statuses p @ [0]" and k: "size_bytes p' \<le> size_bytes p + 2"
    by (rule AddDeltaSize_added [OF inv word_zero_le add])
  have "all_packets p' = all_packets p" "include_lost p' = include_lost p" by (simp_all add: p')
  with rest st k show ?thesis
    unfolding lost_added_def lost_packets_Suc add_lost_fields by auto
qed

lemma AddLostPackets_inv:
  assumes "tf_inv m p" "next_seq = base_seq_no p + num_seq_no p"
  shows "\<exists>ok q. AddLostPackets p next_seq seq = Some (ok, q) \<and> tf_inv m q \<and> same_base p q \<and>
    (ok \<longrightarrow> base_seq_no q + num_seq_no q = seq \<and> lost_added p next_seq (unat (seq - next_seq)) q) \<and>
    (unat (num_seq_no p) + unat (seq - next_seq) \<le> 0xffff \<and>
       size_bytes p + 2 * unat (seq - next_seq) \<le> kMaxSizeBytes \<longrightarrow> ok)"
  using assms
proof (induction p next_seq seq rule: AddLostPackets.induct)
  case (1 p next_seq seq)
  show ?case
  proof (cases "next_seq = seq")
    case True
    with "1.prems" have "AddLostPackets p next_seq seq = Some (True, p)"
      by (subst AddLostPackets.simps) simp
    with True "1.prems" show ?thesis by (auto simp: same_base_def lost_added_none)
  next
    case neq: False
    then have "seq - next_seq \<noteq> 0" by simp
    then have "unat (seq - next_seq) = Suc (unat (seq - next_seq - 1))"
      by (simp add: unat_minus_one unat_gt_0)
    then have gap: "unat (seq - next_seq) = Suc (unat (seq - (next_seq + 1)))" by (simp add: diff_diff_eq)
    have lc: "lc_ok (tf_last_chunk p)" using "1.prems" by (simp add: tf_inv_def)
    consider (full) "AddDeltaSize p 0 = Some (False, p)" "num_seq_no p = 0xffff \<or> kMaxSizeBytes < size_bytes p + 2"
      | (added) p' where "AddDeltaSize p 0 = Some (True, p')"
      using AddDeltaSize_spec [OF lc, of 0] by auto
    then show ?thesis
    proof cases
      case full
      with neq have "AddLostPackets p next_seq seq = Some (False, p)"
        by (subst AddLostPackets.simps) simp
      moreover have "\<not> (unat (num_seq_no p) + unat (seq - next_seq) \<le> 0xffff \<and>
          size_bytes p + 2 * unat (seq - next_seq) \<le> kMaxSizeBytes)"
        unfolding gap using full(2) by auto
      moreover have "same_base p p" by (simp add: same_base_def)
      ultimately show ?thesis using "1.prems"(1) by blast
    next
      case added
      let ?q = "add_lost next_seq p'"
      have inv: "tf_inv m ?q" using tf_inv_lost "1.prems" added by simp
      obtain chunks lc n where p': "p' = p\<lparr>encoded_chunks := chunks, tf_last_chunk := lc, size_bytes := n,
          num_seq_no := num_seq_no p + 1\<rparr>"
        and n: "size_bytes p' \<le> size_bytes p + 2" "length (tf_statuses p') = unat (num_seq_no p')"
          "tf_statuses p' = tf_statuses p @ [0]"
        by (rule AddDeltaSize_added [OF "1.prems"(1) word_zero_le added])
      have base: "same_base p ?q" "next_seq + 1 = base_seq_no ?q + num_seq_no ?q"
        using "1.prems"(2) unfolding add_lost_fields by (simp_all add: p' same_base_def add_lost_def)
      have size: "size_bytes ?q \<le> size_bytes p + 2" "unat (num_seq_no ?q) = Suc (unat (num_seq_no p))"
        using n "1.prems"(1) unfolding add_lost_fields by (simp_all add: tf_inv_def)
      have step: "AddLostPackets p next_seq seq = AddLostPackets ?q (next_seq + 1) seq"
        using neq added by (subst AddLostPackets.simps) (simp add: add_lost_def)
      obtain ok q where q: "AddLostPackets ?q (next_seq + 1) seq = Some (ok, q)" "tf_inv m q"
          "same_base ?q q" and ok: "ok \<longrightarrow> base_seq_no q + num_seq_no q = seq \<and>
            lost_added ?q (next_seq + 1) (unat (seq - (next_seq + 1))) q"
          "unat (num_seq_no ?q) + unat (seq - (next_seq + 1)) \<le> 0xffff \<and>
            size_bytes ?q + 2 * unat (seq - (next_seq + 1)) \<le> kMaxSizeBytes \<longrightarrow> ok"
        using "1.IH" [OF neq added refl, folded add_lost_def, unfolded not_not, OF TrueI inv base(2)]
        by (elim exE conjE) (rule that)
      have "ok \<longrightarrow> lost_added p next_seq (unat (seq - next_seq)) q"
        using ok(1) lost_added_step [OF added "1.prems"(1)] unfolding gap by blast
      moreover have "unat (num_seq_no p) + unat (seq - next_seq) \<le> 0xffff \<and>
          size_bytes p + 2 * unat (seq - next_seq) \<le> kMaxSizeBytes \<longrightarrow> ok"
        using ok(2) size unfolding gap by auto
      moreover have "same_base p q" using base(1) q(3) by (simp add: same_base_def)
      ultimately show ?thesis using step q(1,2) ok(1) by (intro exI [of _ ok] exI [of _ q]) simp
    qed
  qed
qed

lemma ticks_us_append: "ticks_us (rs @ [ReceivedPacket seq delta]) = ticks_us rs + sint delta * kDeltaScaleFactor"
  by (simp add: ticks_us_def ReceivedPacket_def)

lemma tf_inv_received:
  assumes inv: "tf_inv m p" and delta: "\<not> include_timestamps p \<longrightarrow> delta = 0"
    and d: "d = (if sint delta \<ge> 0 \<and> sint delta \<le> 0xff then 1 else 2)"
    and add: "AddDeltaSize p d = Some (True, p')"
    and r: "r = ReceivedPacket (base_seq_no p + num_seq_no p) delta"
  shows "tf_inv m (p'\<lparr>received_packets := received_packets p' @ [r],
     all_packets := (if include_lost p' then all_packets p' @ [r] else all_packets p'),
     last_timestamp_us := last_timestamp_us p' + sint delta * kDeltaScaleFactor,
     size_bytes := (if include_timestamps p' then size_bytes p' + unat d else size_bytes p')\<rparr>)"
    (is "tf_inv m ?q")
proof -
  have d2: "d \<le> 2" "d \<noteq> 0" by (simp_all add: d)
  obtain chunks lc n where
    p': "p' = p\<lparr>encoded_chunks := chunks, tf_last_chunk := lc, size_bytes := n, num_seq_no := num_seq_no p + 1\<rparr>"
    and st: "tf_statuses p' = tf_statuses p @ [d]" and rest: "lc_ok lc" "chunk_size lc \<noteq> 0"
    "length (tf_statuses p') = unat (num_seq_no p')" "size_bytes p' + unat d \<le> kMaxSizeBytes"
    "size_bytes p' = 20 + chunk_bytes p' + (if include_timestamps p then sum_list (map unat (tf_statuses p)) else 0)"
    by (rule AddDeltaSize_added [OF inv d2(1) add])
  obtain cb where cb: "chunk_bytes p' = cb" by blast
  have q: "tf_statuses ?q = tf_statuses p'" "chunk_bytes ?q = cb" "GetBaseTimeUs ?q = GetBaseTimeUs p"
    unfolding cb [symmetric]
    by (simp_all add: tf_statuses_def chunk_bytes_def GetBaseTimeUs_def p')
  have num: "num_seq_no p = word_of_nat (length (tf_statuses p))"
    using inv by (simp add: tf_inv_def)
  have mt: "tf_match m (tf_statuses p) (received_packets p) (base_seq_no p)"
    using inv by (simp add: tf_inv_def)
  have all: "tf_all (tf_statuses p @ [d]) (received_packets p @ [r]) (base_seq_no p) =
      tf_all (tf_statuses p) (received_packets p) (base_seq_no p) @ [r]"
    by (rule tf_all_received [OF mt d2(2)])
  have mt': "tf_match m (tf_statuses p @ [d]) (received_packets p @ [r]) (base_seq_no p)"
    by (rule tf_match_received [OF d2(2) _ _ mt]) (auto simp: d r small_delta_def num ReceivedPacket_def)
  have timestamp: "last_timestamp_us p = GetBaseTimeUs p + ticks_us (received_packets p)"
    and zero: "\<not> include_timestamps p \<longrightarrow> list_all (\<lambda>r. delta_ticks r = 0) (received_packets p)"
    and "list_all received (received_packets p)"
    and "all_packets p = (if include_lost p then tf_all (tf_statuses p) (received_packets p) (base_seq_no p) else [])"
    using inv by (simp_all add: tf_inv_def)
  note rest = rest [unfolded cb] this
  have r': "delta_ticks r = delta" "received r" by (simp_all add: r ReceivedPacket_def)
  show ?thesis
    unfolding tf_inv_def q st
  proof (intro conjI)
    show "last_timestamp_us ?q = GetBaseTimeUs p + ticks_us (received_packets ?q)"
      using timestamp by (simp add: p' r ticks_us_append)
    show "size_bytes ?q = 20 + cb + (if include_timestamps ?q then sum_list (map unat (tf_statuses p @ [d])) else 0)"
      using rest(5) by (simp add: p')
    show "\<not> include_timestamps ?q \<longrightarrow> list_all (\<lambda>r. delta_ticks r = 0) (received_packets ?q)"
      using zero delta r' by (simp add: p')
    show "m \<longrightarrow> size_bytes ?q \<le> kMaxSizeBytes" using rest(4) by (simp add: p')
    show "include_timestamps ?q \<longrightarrow> list_all (\<lambda>d. d \<le> 2) (tf_statuses p @ [d])"
      using inv d2(1) by (simp add: p' tf_inv_def)
    show "length (tf_statuses p @ [d]) = unat (num_seq_no ?q)" using rest(3) st by (simp add: p')
    show "all_packets ?q = (if include_lost ?q then
        tf_all (tf_statuses p @ [d]) (received_packets ?q) (base_seq_no ?q) else [])"
      using rest(9) all by (simp add: p')
  qed (use rest mt' r' in \<open>simp_all add: p'\<close>)
qed

text \<open>
  Adding a packet keeps the invariant whether or not the packet is accepted.  An accepted packet is
  appended with its delta, which fits in 16 bits, behind a status 0 for every packet in the gap; a
  refused one leaves the received packets as they are.
\<close>

definition seq_gap :: "transport_feedback \<Rightarrow> u16 \<Rightarrow> nat" where
  "seq_gap p seq = unat (seq - (base_seq_no p + num_seq_no p))"

definition added_packet :: "transport_feedback \<Rightarrow> u16 \<Rightarrow> int \<Rightarrow> bool \<Rightarrow> transport_feedback \<Rightarrow> bool" where
  "added_packet p seq full ok q \<longleftrightarrow>
     received_packets q = received_packets p @ (if ok then [ReceivedPacket seq (word_of_int full)] else []) \<and>
     last_timestamp_us q = last_timestamp_us p + (if ok then full * kDeltaScaleFactor else 0) \<and>
     base_seq_no q = base_seq_no p \<and> base_time_ticks q = base_time_ticks p \<and>
     (ok \<longrightarrow> base_seq_no q + num_seq_no q = seq + 1 \<and>
       tf_statuses q = tf_statuses p @ replicate (seq_gap p seq) 0 @ [if 0 \<le> full \<and> full \<le> 0xff then 1 else 2] \<and>
       all_packets q = all_packets p @ (if include_lost p
         then lost_packets (base_seq_no p + num_seq_no p) (seq_gap p seq) @ [ReceivedPacket seq (word_of_int full)] else []))"

text \<open>
  When a packet is admissible: its delta fits, and it is not older than the last one.  Then it is
  accepted unless a limit is reached; \<open>room_for\<close> leaves two bytes per status for chunks, two for
  another chunk and two for the delta.
\<close>

definition admissible :: "transport_feedback \<Rightarrow> u16 \<Rightarrow> int \<Rightarrow> bool" where
  "admissible p seq full \<longleftrightarrow> - (2 ^ 15) \<le> full \<and> full < 2 ^ 15 \<and>
     (seq = base_seq_no p + num_seq_no p \<or> IsNewerSequenceNumber seq (base_seq_no p + num_seq_no p - 1))"

definition room_for :: "transport_feedback \<Rightarrow> u16 \<Rightarrow> bool" where
  "room_for p seq \<longleftrightarrow> unat (num_seq_no p) + seq_gap p seq < 0xffff \<and>
     size_bytes p + 2 * seq_gap p seq + 4 \<le> kMaxSizeBytes"

lemma sint_delta: "sint (word_of_int full :: i16) = full \<longleftrightarrow> - (2 ^ 15) \<le> full \<and> full < 2 ^ 15"
  by (simp add: sint_sbintrunc' signed_take_bit_int_eq_self_iff)

lemma AddReceivedPacket_inv:
  fixes t :: int
  assumes inv: "tf_inv m p"
  defines "full \<equiv> (if include_timestamps p then delta_full t (last_timestamp_us p) else 0)"
  shows "\<exists>ok q. AddReceivedPacket p seq t = Some (ok, q) \<and> tf_inv m q \<and> added_packet p seq full ok q \<and>
    (ok \<longrightarrow> admissible p seq full) \<and> (admissible p seq full \<and> room_for p seq \<longrightarrow> ok)"
proof -
  define delta where "delta = (word_of_int full :: i16)"
  define d where "d = (if sint delta \<ge> 0 \<and> sint delta \<le> 0xff then 1 else 2 :: u8)"
  define next_seq where "next_seq = base_seq_no p + num_seq_no p"
  define newer where "newer \<longleftrightarrow> seq = next_seq \<or> IsNewerSequenceNumber seq (next_seq - 1)"
  define gap where "gap = (if seq \<noteq> next_seq then
            if \<not> IsNewerSequenceNumber seq (next_seq - 1) then Some (False, p)
            else AddLostPackets p next_seq seq
          else Some (True, p))"
  note unfold = AddReceivedPacket_def [of p seq t, unfolded Let_def, folded full_def, folded delta_def,
      folded d_def next_seq_def, folded gap_def]
  note folds = admissible_def seq_gap_def next_seq_def [symmetric] newer_def [symmetric]
  have "\<exists>ok q. gap = Some (ok, q) \<and> tf_inv m q \<and> same_base p q \<and>
      (ok \<longrightarrow> newer \<and> base_seq_no q + num_seq_no q = seq \<and> lost_added p next_seq (unat (seq - next_seq)) q) \<and>
      (newer \<and> room_for p seq \<longrightarrow> ok)"
    using AddLostPackets_inv [OF inv next_seq_def, of seq] inv
    by (cases "seq = next_seq"; cases "IsNewerSequenceNumber seq (next_seq - 1)")
      (auto simp: same_base_def gap_def newer_def lost_added_none room_for_def folds(2,3) next_seq_def [symmetric])
  then obtain ok q where q: "gap = Some (ok, q)" "tf_inv m q" "same_base p q"
      "ok \<longrightarrow> newer \<and> base_seq_no q + num_seq_no q = seq \<and> lost_added p next_seq (unat (seq - next_seq)) q"
      "newer \<and> room_for p seq \<longrightarrow> ok" by (elim exE conjE) (rule that)
  have lc: "lc_ok (tf_last_chunk q)" and "d \<le> 2" "unat d \<le> 2" using q(2) by (simp_all add: tf_inv_def d_def)
  obtain ok' q' where q': "AddDeltaSize q d = Some (ok', q')" "\<not> ok' \<longrightarrow> q' = q"
    using lc \<open>d \<le> 2\<close> by (rule AddDeltaSize_cases)
  have fits: "sint delta = full \<longleftrightarrow> - (2 ^ 15) \<le> full \<and> full < 2 ^ 15" unfolding delta_def by (rule sint_delta)
  show ?thesis
  proof (cases "include_timestamps p \<and> sint delta \<noteq> full")
    case True
    then have "\<not> admissible p seq full" using fits unfolding admissible_def by blast
    with True inv show ?thesis by (simp add: unfold ex_bool_eq added_packet_def)
  next
    case False
    then have full: "sint delta = full" by (cases "include_timestamps p") (simp_all add: delta_def full_def)
    then have adm: "admissible p seq full \<longleftrightarrow> newer" using fits unfolding folds by simp
    show ?thesis
    proof (cases "ok \<and> ok'")
      case notok: False
      have "\<not> (newer \<and> room_for p seq)"
      proof (cases ok)
        case True
        then have "AddDeltaSize q d = Some (False, q)" using notok q' by simp
        then have "num_seq_no q = 0xffff \<or> kMaxSizeBytes < size_bytes q + unat d + 2"
          using AddDeltaSize_spec [OF lc \<open>d \<le> 2\<close>] by auto
        moreover have lost: "lost_added p next_seq (unat (seq - next_seq)) q" using q(4) True by blast
        then have "unat (num_seq_no q) = unat (num_seq_no p) + unat (seq - next_seq)"
          using inv q(2) by (simp add: lost_added_def tf_inv_def)
        ultimately show ?thesis
          using lost \<open>unat d \<le> 2\<close> unfolding room_for_def folds lost_added_def by auto
      qed (use q(5) in blast)
      with False inv q q' notok adm show ?thesis
        by (cases ok) (simp_all add: unfold ex_bool_eq added_packet_def same_base_def)
    next
      case True
      note facts = q(4) [rule_format, OF True [THEN conjunct1]]
      have t: "\<not> include_timestamps q \<longrightarrow> delta = 0" using q(3) by (simp add: same_base_def delta_def full_def)
      have r: "ReceivedPacket seq delta = ReceivedPacket (base_seq_no q + num_seq_no q) delta"
        using facts by simp
      have add: "AddDeltaSize q d = Some (True, q')" using q' True by simp
      obtain chunks lc n where upd: "q' = q\<lparr>encoded_chunks := chunks, tf_last_chunk := lc, size_bytes := n,
          num_seq_no := num_seq_no q + 1\<rparr>" and st: "tf_statuses q' = tf_statuses q @ [d]"
        by (rule AddDeltaSize_added [OF q(2) \<open>d \<le> 2\<close> add])
      let ?r = "q'\<lparr>received_packets := received_packets q' @ [ReceivedPacket seq delta],
          all_packets := (if include_lost q' then all_packets q' @ [ReceivedPacket seq delta] else all_packets q'),
          last_timestamp_us := last_timestamp_us q' + sint delta * kDeltaScaleFactor,
          size_bytes := (if include_timestamps q' then size_bytes q' + unat d else size_bytes q')\<rparr>"
      have "tf_statuses ?r = tf_statuses p @ replicate (unat (seq - next_seq)) 0 @ [d]"
        using st facts by (simp add: lost_added_def tf_statuses_def)
      moreover have "base_seq_no q + (num_seq_no q + 1) = seq + 1" using facts by (simp add: add.assoc [symmetric])
      moreover have "all_packets q = all_packets p @
          (if include_lost p then lost_packets next_seq (unat (seq - next_seq)) else [])"
        using facts by (simp add: lost_added_def)
      ultimately have eff: "added_packet p seq full True ?r"
        using q(3) full unfolding added_packet_def seq_gap_def next_seq_def [symmetric] d_def
        by (simp add: upd same_base_def delta_def)
      have "AddReceivedPacket p seq t = Some (True, ?r)" using full q(1) add True by (simp add: unfold)
      moreover have "tf_inv m ?r" by (rule tf_inv_received [OF q(2) t d_def add r])
      ultimately show ?thesis using eff adm facts by blast
    qed
  qed
qed

end
