(* ===== verification/Transport_Feedback_Wire.thy ===== *)
theory Transport_Feedback_Wire
  imports Rtcp_Transport_Feedback
begin

text \<open>
  Parsing and serializing transport-wide feedback.  Parsing never faults on received bytes and
  establishes \<open>tf_inv\<close>; serializing writes exactly the wire image \<open>tf_wire\<close>; and parsing that image
  gives back the packet that was built.
\<close>

subsection \<open>The chunk loop\<close>

lemma Tf_ParseChunks_step:
  assumes "length sizes < count" "i + 2 \<le> length data" "length (delta_sizes (tf_last_chunk p)) = 14"
  obtains chunk lc where "ReadBE16 data i = Some chunk" "lc_ok lc"
    "Decode (tf_last_chunk p) chunk (count - length sizes) = Some lc"
    "lc_contents lc = take (count - length sizes) (symbols chunk)"
    "Tf_ParseChunks data (length data) count i p sizes =
      Tf_ParseChunks data (length data) count (i + 2)
        (p\<lparr>encoded_chunks := encoded_chunks p @ [chunk], tf_last_chunk := lc\<rparr>)
        (sizes @ lc_contents lc)"
proof -
  obtain chunk where chunk: "ReadBE16 data i = Some chunk"
    using assms(2) Read_defined(2) [of data i] by auto
  obtain lc where lc: "Decode (tf_last_chunk p) chunk (count - length sizes) = Some lc" "lc_ok lc"
      "lc_contents lc = take (count - length sizes) (symbols chunk)"
    using Decode_contents [OF assms(3)] by blast
  have "Tf_ParseChunks data (length data) count i p sizes =
      Tf_ParseChunks data (length data) count (i + 2)
        (p\<lparr>encoded_chunks := encoded_chunks p @ [chunk], tf_last_chunk := lc\<rparr>)
        (sizes @ lc_contents lc)"
    using assms chunk lc by (subst Tf_ParseChunks.simps) (simp add: kChunkSizeBytes_def AppendTo_contents)
  with chunk lc show thesis using that by blast
qed

text \<open>
  The loop reads whole chunks until the announced number of statuses is known.  All chunks but the
  last are used in full.
\<close>

lemma Tf_ParseChunks_spec:
  assumes "length (delta_sizes (tf_last_chunk p)) = 14" "sizes = concat (map symbols (encoded_chunks p))"
    "length sizes < count"
  shows "(\<exists>j q sizes'. Tf_ParseChunks data (length data) count i p sizes = Some (False, j, Tf_Clear q, sizes') \<and>
       length (delta_sizes (tf_last_chunk q)) = 14) \<or>
    (\<exists>cs chunk lc sizes'. Tf_ParseChunks data (length data) count i p sizes =
       Some (True, i + 2 * (length cs + 1), p\<lparr>encoded_chunks := encoded_chunks p @ cs @ [chunk], tf_last_chunk := lc\<rparr>, sizes') \<and>
       lc_ok lc \<and> chunk_size lc \<noteq> 0 \<and> length sizes' = count \<and> i + 2 * (length cs + 1) \<le> length data \<and>
       sizes' = concat (map symbols (encoded_chunks p @ cs)) @ lc_contents lc)"
  using assms
proof (induction "length data - i" arbitrary: i p sizes rule: less_induct)
  case less
  show ?case
  proof (cases "i + 2 \<le> length data")
    case False
    with less.prems show ?thesis by (subst Tf_ParseChunks.simps) (auto simp: kChunkSizeBytes_def)
  next
    case True
    obtain chunk lc where step: "ReadBE16 data i = Some chunk" "lc_ok lc"
        "Decode (tf_last_chunk p) chunk (count - length sizes) = Some lc"
        "lc_contents lc = take (count - length sizes) (symbols chunk)"
        "Tf_ParseChunks data (length data) count i p sizes =
          Tf_ParseChunks data (length data) count (i + 2)
            (p\<lparr>encoded_chunks := encoded_chunks p @ [chunk], tf_last_chunk := lc\<rparr>)
            (sizes @ lc_contents lc)"
      by (rule Tf_ParseChunks_step [OF less.prems(3) True less.prems(1)])
    let ?p = "p\<lparr>encoded_chunks := encoded_chunks p @ [chunk], tf_last_chunk := lc\<rparr>"
    let ?sizes = "sizes @ lc_contents lc"
    show ?thesis
    proof (cases "length ?sizes < count")
      case more: True
      then have "lc_contents lc = symbols chunk" using step(4) by auto
      then have "?sizes = concat (map symbols (encoded_chunks ?p))" using less.prems(2) by simp
      moreover have "length (delta_sizes (tf_last_chunk ?p)) = 14" using step(2) by (simp add: lc_ok_def)
      ultimately have IH: "(\<exists>j q sizes'. Tf_ParseChunks data (length data) count (i + 2) ?p ?sizes =
            Some (False, j, Tf_Clear q, sizes') \<and> length (delta_sizes (tf_last_chunk q)) = 14) \<or>
          (\<exists>cs chunk lc sizes'. Tf_ParseChunks data (length data) count (i + 2) ?p ?sizes =
            Some (True, i + 2 + 2 * (length cs + 1),
              ?p\<lparr>encoded_chunks := encoded_chunks ?p @ cs @ [chunk], tf_last_chunk := lc\<rparr>, sizes') \<and>
            lc_ok lc \<and> chunk_size lc \<noteq> 0 \<and> length sizes' = count \<and> i + 2 + 2 * (length cs + 1) \<le> length data \<and>
            sizes' = concat (map symbols (encoded_chunks ?p @ cs)) @ lc_contents lc)"
        using True more by (intro less.hyps) auto
      then show ?thesis
      proof (elim disjE exE conjE, goal_cases)
        case (1 j q sizes')
        with step(5) show ?case by auto
      next
        case (2 cs chunk' lc' sizes')
        with step(5) show ?case
          by (intro disjI2 exI [of _ "chunk # cs"] exI [of _ chunk'] exI [of _ lc'] exI [of _ sizes']) simp
      qed
    next
      case fin: False
      have len: "length (lc_contents lc) = chunk_size lc" using step(2) by simp
      have "length ?sizes = count" "chunk_size lc \<noteq> 0"
        using fin step(4) less.prems(3) len by (auto simp: min_def split: if_splits)
      moreover have "Tf_ParseChunks data (length data) count (i + 2) ?p ?sizes = Some (True, i + 2, ?p, ?sizes)"
        using fin by (subst Tf_ParseChunks.simps) simp
      ultimately show ?thesis using step(2,5) True less.prems(2)
        by (intro disjI2 exI [of _ "[]"] exI [of _ chunk] exI [of _ lc] exI [of _ ?sizes]) simp
    qed
  qed
qed

subsection \<open>The delta loops\<close>

definition tf_extend :: "transport_feedback \<Rightarrow> u8 list \<Rightarrow> received_packet list \<Rightarrow> u16 \<Rightarrow> int \<Rightarrow> transport_feedback" where
  "tf_extend p sizes rs seq t = p\<lparr>received_packets := received_packets p @ rs,
     all_packets := all_packets p @ (if include_lost p then tf_all sizes rs seq else []),
     last_timestamp_us := last_timestamp_us p + t\<rparr>"

lemma extend_Nil: "tf_extend p [] [] seq 0 = p"
  by (cases p) (simp add: tf_extend_def)

lemma extend_lost:
  "tf_extend (add_lost seq p) sizes rs (seq + 1) t = tf_extend p (0 # sizes) rs seq t"
  by (simp add: tf_extend_def add_lost_def)

lemma extend_received:
  "d \<noteq> 0 \<Longrightarrow> tf_extend (add_received seq delta p) sizes rs (seq + 1) t =
    tf_extend p (d # sizes) (ReceivedPacket seq delta # rs) seq t"
  by (simp add: tf_extend_def add_received_def)

lemma extend_advance:
  "tf_extend (advance delta p) sizes rs seq t = tf_extend p sizes rs seq (sint delta * kDeltaScaleFactor + t)"
  by (cases p) (simp add: tf_extend_def advance_def ac_simps)

lemma Tf_ParseNoDeltas_spec:
  "\<exists>rs. Tf_ParseNoDeltas sizes seq p = tf_extend p sizes rs seq 0 \<and> tf_match False sizes rs seq \<and>
     list_all (\<lambda>r. delta_ticks r = 0 \<and> received r) rs"
proof (induction sizes arbitrary: seq p)
  case Nil
  then show ?case by (auto simp: extend_Nil intro!: exI [of _ "[]"])
next
  case (Cons d sizes)
  show ?case
  proof (cases "d = 0")
    case True
    obtain rs where "Tf_ParseNoDeltas sizes (seq + 1) (add_lost seq p) = tf_extend (add_lost seq p) sizes rs (seq + 1) 0"
        "tf_match False sizes rs (seq + 1)" "list_all (\<lambda>r. delta_ticks r = 0 \<and> received r) rs"
      using Cons.IH by blast
    then show ?thesis using True by (intro exI [of _ rs]) (simp add: extend_lost)
  next
    case False
    obtain rs where "Tf_ParseNoDeltas sizes (seq + 1) (add_received seq 0 p) =
          tf_extend (add_received seq 0 p) sizes rs (seq + 1) 0"
        "tf_match False sizes rs (seq + 1)" "list_all (\<lambda>r. delta_ticks r = 0 \<and> received r) rs"
      using Cons.IH by blast
    moreover have "0 < d" using False by (simp add: word_neq_0_conv)
    ultimately show ?thesis using False
      by (intro exI [of _ "ReceivedPacket seq 0 # rs"])
        (simp add: extend_received [OF False] small_delta_def ReceivedPacket_def)
  qed
qed

lemma sint_ucast_u8: "sint (ucast (b :: u8) :: i16) = int (unat b)"
proof -
  have "uint b < 256" using uint_bounded [of b] by simp
  moreover have "0 \<le> uint b" by simp
  ultimately have "uint b < 32768" "- 32768 \<le> uint b" by linarith+
  moreover have "uint (ucast b :: i16) = uint b" by (simp add: uint_up_ucast is_up)
  ultimately show ?thesis by (simp add: sint_uint signed_take_bit_int_eq_self_iff)
qed

lemma word_le_3_cases: "d \<le> (3 :: u8) \<Longrightarrow> d = 0 \<or> d = 1 \<or> d = 2 \<or> d = 3"
proof -
  assume "d \<le> 3"
  then have "unat d \<le> 3" by (simp add: word_le_nat_alt)
  then have "unat d = 0 \<or> unat d = 1 \<or> unat d = 2 \<or> unat d = 3" by linarith
  then show ?thesis by (auto simp: word_unat_eq_iff)
qed

lemma word_le_2_cases: "d \<le> (2 :: u8) \<Longrightarrow> d \<noteq> 0 \<Longrightarrow> d = 1 \<or> d = 2"
proof -
  assume d: "d \<le> 2" "d \<noteq> 0"
  have "d \<le> 3" by (rule order_trans [OF d(1)]) simp
  with d word_le_3_cases [of d] show ?thesis by auto
qed

lemma Tf_ParseDeltas_spec:
  assumes "\<forall>d \<in> set sizes. d \<le> 3" "i + sum_list (map unat sizes) \<le> length data"
    "length (delta_sizes (tf_last_chunk p)) = 14"
  shows "(\<exists>j q. Tf_ParseDeltas data (length data) sizes i seq p = Some (False, j, Tf_Clear q) \<and>
       length (delta_sizes (tf_last_chunk q)) = 14) \<or>
    (\<exists>rs. Tf_ParseDeltas data (length data) sizes i seq p =
       Some (True, i + sum_list (map unat sizes), tf_extend p sizes rs seq (ticks_us rs)) \<and>
       tf_match False sizes rs seq \<and> list_all received rs \<and> list_all (\<lambda>d. d \<le> 2) sizes)"
  using assms
proof (induction sizes arbitrary: i seq p)
  case Nil
  then show ?case by (auto simp: extend_Nil ticks_us_def intro!: exI [of _ "[]"])
next
  case (Cons d sizes)
  have step: ?case
    if eq: "Tf_ParseDeltas data (length data) (d # sizes) i seq p =
        Tf_ParseDeltas data (length data) sizes (i + unat d) (seq + 1) (advance delta (add_received seq delta p))"
      and "d \<noteq> 0" "d = 1 \<longrightarrow> small_delta (ReceivedPacket seq delta)" "d \<le> 2" for delta
  proof -
    let ?p = "advance delta (add_received seq delta p)"
    have ext: "tf_extend ?p sizes rs (seq + 1) (ticks_us rs) = tf_extend p (d # sizes)
        (ReceivedPacket seq delta # rs) seq (ticks_us (ReceivedPacket seq delta # rs))" for rs
      using \<open>d \<noteq> 0\<close> by (simp add: extend_advance extend_received ticks_us_def ReceivedPacket_def)
    have "length (delta_sizes (tf_last_chunk ?p)) = 14"
      using Cons.prems(3) by (simp add: advance_def add_received_def)
    from Cons.IH [OF _ _ this, of "i + unat d" "seq + 1"] Cons.prems(1,2)
    have "(\<exists>j q. Tf_ParseDeltas data (length data) sizes (i + unat d) (seq + 1) ?p = Some (False, j, Tf_Clear q) \<and>
         length (delta_sizes (tf_last_chunk q)) = 14) \<or>
      (\<exists>rs. Tf_ParseDeltas data (length data) sizes (i + unat d) (seq + 1) ?p =
         Some (True, i + unat d + sum_list (map unat sizes), tf_extend ?p sizes rs (seq + 1) (ticks_us rs)) \<and>
         tf_match False sizes rs (seq + 1) \<and> list_all received rs \<and> list_all (\<lambda>d. d \<le> 2) sizes)"
      by simp
    then show ?thesis
    proof (elim disjE exE conjE, goal_cases)
      case (1 j q)
      with eq show ?case by auto
    next
      case (2 rs)
      with eq ext [of rs] that(2-4) show ?case
        by (intro disjI2 exI [of _ "ReceivedPacket seq delta # rs"]) (simp add: ReceivedPacket_def ac_simps)
    qed
  qed
  consider "d = 0" | "d = 1" | "d = 2" | "d = 3" using word_le_3_cases Cons.prems(1) by auto
  then show ?case
  proof cases
    case 1
    have "length (delta_sizes (tf_last_chunk (add_lost seq p))) = 14"
      using Cons.prems(3) by (simp add: add_lost_def)
    from Cons.IH [OF _ _ this, of i "seq + 1"] Cons.prems(1,2) 1 show ?thesis
      by (auto simp: extend_lost)
  next
    case 2
    obtain b where "load data i = Some b" using Cons.prems(2) 2 load_defined [of data i] by auto
    moreover have "unat b \<le> 255" using unsigned_less [of b, where ?'a = nat] by simp
    then have "0 \<le> sint (ucast b :: i16)" "sint (ucast b :: i16) \<le> 255" using sint_ucast_u8 [of b] by linarith+
    then have "small_delta (ReceivedPacket seq (ucast b))" by (simp add: small_delta_def ReceivedPacket_def)
    ultimately show ?thesis using 2 Cons.prems(2)
      by (intro step [of "ucast b"]) (simp_all add: Let_def)
  next
    case 3
    obtain w where "ReadBE16 data i = Some w" using Cons.prems(2) 3 Read_defined(2) [of data i] by auto
    with 3 Cons.prems(2) show ?thesis by (intro step [of w]) simp_all
  next
    case 4
    with Cons.prems show ?thesis by auto
  qed
qed

subsection \<open>Parsing\<close>

lemma symbols_le_3: "d \<in> set (symbols chunk) \<Longrightarrow> d \<le> 3"
proof -
  have "(ucast (drop_bit 13 chunk AND mask 2) :: u8) = symbol_at 2 1 (drop_bit 13 chunk) 0"
    by (simp add: symbol_at_def)
  then have "(ucast (drop_bit 13 chunk AND mask 2) :: u8) \<le> 3" by (simp add: symbol_at_le)
  moreover have "symbol_at 1 14 chunk i \<le> 3" for i
    by (rule order_trans [OF symbol_at_le(1)]) simp
  ultimately show "d \<in> set (symbols chunk) \<Longrightarrow> d \<le> 3"
    by (auto simp: symbols_def symbol_at_le split: if_splits)
qed

lemma lc_contents_le_3: "lc_ok lc \<Longrightarrow> d \<in> set (lc_contents lc) \<Longrightarrow> d \<le> 3"
  by (simp add: lc_ok_def)

text \<open>
  The state after the chunk loop of a packet that announces \<open>num_seq_no\<close> packets: everything that
  \<open>tf_inv\<close> asks of the chunks, and nothing received yet.
\<close>

definition tf_decoded :: "transport_feedback \<Rightarrow> bool" where
  "tf_decoded p \<longleftrightarrow> lc_ok (tf_last_chunk p) \<and> chunk_size (tf_last_chunk p) \<noteq> 0 \<and>
     length (tf_statuses p) = unat (num_seq_no p) \<and> received_packets p = [] \<and> all_packets p = [] \<and>
     last_timestamp_us p = GetBaseTimeUs p"

lemma tf_decoded_statuses: "tf_decoded p \<Longrightarrow> \<forall>d \<in> set (tf_statuses p). d \<le> 3"
  by (auto simp: tf_decoded_def tf_statuses_def symbols_le_3 lc_contents_le_3)

lemma tf_inv_decoded:
  assumes p: "tf_decoded p" and rs: "tf_match False (tf_statuses p) rs (base_seq_no p)" "list_all received rs"
    and t: "\<not> include_timestamps p \<longrightarrow> list_all (\<lambda>r. delta_ticks r = 0) rs"
    and two: "include_timestamps p \<longrightarrow> list_all (\<lambda>d. d \<le> 2) (tf_statuses p)"
    and n: "n = 20 + chunk_bytes p + (if include_timestamps p then sum_list (map unat (tf_statuses p)) else 0)"
  shows "tf_inv False ((tf_extend p (tf_statuses p) rs (base_seq_no p) (ticks_us rs))\<lparr>size_bytes := n\<rparr>)"
    (is "tf_inv False ?q")
proof -
  have q: "tf_statuses ?q = tf_statuses p" "chunk_bytes ?q = chunk_bytes p" "GetBaseTimeUs ?q = GetBaseTimeUs p"
    by (simp_all add: tf_statuses_def chunk_bytes_def GetBaseTimeUs_def tf_extend_def)
  show ?thesis
    unfolding tf_inv_def q using p rs t two n by (simp add: tf_decoded_def tf_extend_def)
qed

lemma tf_match_weaken: "tf_match m ds rs seq \<Longrightarrow> tf_match False ds rs seq"
proof (induction ds arbitrary: rs seq)
  case (Cons d ds)
  show ?case
  proof (cases "d = 0")
    case True
    with Cons.prems Cons.IH [of rs "seq + 1"] show ?thesis by simp
  next
    case False
    with Cons.prems obtain r rs' where "rs = r # rs'" "tf_match m ds rs' (seq + 1)"
      by (cases rs) auto
    with False Cons.prems Cons.IH [of rs' "seq + 1"] show ?thesis by simp
  qed
qed simp

lemma tf_inv_weaken: "tf_inv m p \<Longrightarrow> tf_inv False p"
  using tf_match_weaken [of m "tf_statuses p" "received_packets p" "base_seq_no p"] by (simp add: tf_inv_def)

lemma tf_match_sum: "tf_match m ds rs seq \<Longrightarrow> sum_list (map unat ds) = 0 \<longleftrightarrow> rs = []"
proof (induction ds arbitrary: rs seq)
  case (Cons d ds)
  show ?case
  proof (cases "d = 0")
    case True
    with Cons.prems Cons.IH [of rs "seq + 1"] show ?thesis by simp
  next
    case False
    then have "rs \<noteq> []" "0 < unat d" using Cons.prems by (auto simp: unat_gt_0)
    then show ?thesis by simp
  qed
qed simp

text \<open>
  The result of parsing has the invariant, with one exception: \<open>Parse\<close> never sets
  \<^verbatim>\<open>include_timestamps_\<close> to true, so when a packet with receive deltas is parsed into an object without
  timestamps, the size of the deltas is counted though the object does not have any.
\<close>

definition stale_deltas :: "transport_feedback \<Rightarrow> common_header \<Rightarrow> bool \<Rightarrow> transport_feedback \<Rightarrow> bool" where
  "stale_deltas p h ok q \<longleftrightarrow> \<not> include_timestamps p \<and> ok \<and> received_packets q \<noteq> [] \<and>
     16 + chunk_bytes q + sum_list (map unat (tf_statuses q)) \<le> payload_size h"

lemma Tf_ParsePackets_deltas:
  assumes p: "tf_decoded p" and h: "payload_size h = length data" and i: "i = 16 + chunk_bytes p"
    and room: "i + sum_list (map unat (tf_statuses p)) \<le> length data"
  shows "\<exists>ok q. Tf_ParsePackets data (length data) (tf_statuses p) i p = Some (ok, q) \<and>
    (if stale_deltas p h ok q then \<forall>fill. IsConsistent fill q = Some False else tf_inv False q)"
proof -
  have "length (delta_sizes (tf_last_chunk p)) = 14" using p by (simp add: tf_decoded_def lc_ok_def)
  from Tf_ParseDeltas_spec [OF tf_decoded_statuses [OF p] room this, of "base_seq_no p"] show ?thesis
  proof (elim disjE exE conjE, goal_cases)
    case (1 j q)
    then show ?case using room tf_inv_Clear [of q False] by (auto simp: Tf_ParsePackets_def stale_deltas_def)
  next
    case (2 rs)
    let ?n = "20 + chunk_bytes p + sum_list (map unat (tf_statuses p))"
    let ?q = "(tf_extend p (tf_statuses p) rs (base_seq_no p) (ticks_us rs))\<lparr>size_bytes := ?n\<rparr>"
    have q: "tf_statuses ?q = tf_statuses p" "chunk_bytes ?q = chunk_bytes p" "received_packets ?q = rs"
        "GetBaseTimeUs ?q = GetBaseTimeUs p" "num_seq_no ?q = num_seq_no p" "base_seq_no ?q = base_seq_no p"
        "tf_last_chunk ?q = tf_last_chunk p" "include_timestamps ?q = include_timestamps p" "size_bytes ?q = ?n"
      using p by (simp_all add: tf_statuses_def chunk_bytes_def GetBaseTimeUs_def tf_extend_def tf_decoded_def)
    have sum: "sum_list (map unat (tf_statuses p)) = 0 \<longleftrightarrow> rs = []" using 2(2) by (rule tf_match_sum)
    have stale: "stale_deltas p h True ?q \<longleftrightarrow> \<not> include_timestamps p \<and> rs \<noteq> []"
      unfolding stale_deltas_def q using room h i by simp
    have "kHeaderLength + (i + sum_list (map unat (tf_statuses p))) = ?n"
      using i by (simp add: kHeaderLength_def)
    then have "Tf_ParsePackets data (length data) (tf_statuses p) i p = Some (True, ?q)"
      using 2 room by (simp add: Tf_ParsePackets_def)
    moreover have "tf_inv False ?q" if "include_timestamps p \<or> rs = []"
      using 2 that sum by (intro tf_inv_decoded [OF p]) auto
    moreover have "IsConsistent fill ?q = Some False" if "\<not> include_timestamps p" "rs \<noteq> []" for fill
    proof -
      have "IsConsistent fill ?q = Some (last_timestamp_us ?q = GetBaseTimeUs ?q + ticks_us (received_packets ?q) \<and>
          size_bytes ?q = 20 + chunk_bytes ?q + (if include_timestamps ?q then sum_list (map unat (tf_statuses ?q)) else 0))"
        using p 2(2) by (intro IsConsistent_eq [of _ False]) (simp_all only: q tf_decoded_def)
      with that sum show ?thesis unfolding q by simp
    qed
    ultimately show ?case using stale by (intro exI [of _ True] exI [of _ ?q]) auto
  qed
qed

lemma Tf_ParsePackets_inv:
  assumes p: "tf_decoded p" and h: "payload_size h = length data" and i: "i = 16 + chunk_bytes p" "i \<le> length data"
  shows "\<exists>ok q. Tf_ParsePackets data (length data) (tf_statuses p) i p = Some (ok, q) \<and>
    (if stale_deltas p h ok q then \<forall>fill. IsConsistent fill q = Some False else tf_inv False q)"
proof (cases "i + sum_list (map unat (tf_statuses p)) \<le> length data")
  case True
  with p h i(1) show ?thesis by (rule Tf_ParsePackets_deltas)
next
  case False
  let ?p = "p\<lparr>include_timestamps := False\<rparr>"
  have p': "tf_statuses ?p = tf_statuses p" "chunk_bytes ?p = chunk_bytes p"
    by (simp_all add: tf_statuses_def chunk_bytes_def)
  then have dec: "tf_decoded ?p" using p by (simp add: tf_decoded_def GetBaseTimeUs_def)
  obtain rs where rs: "Tf_ParseNoDeltas (tf_statuses p) (base_seq_no p) ?p =
        tf_extend ?p (tf_statuses p) rs (base_seq_no p) 0" "tf_match False (tf_statuses p) rs (base_seq_no p)"
      "list_all (\<lambda>r. delta_ticks r = 0 \<and> received r) rs"
    using Tf_ParseNoDeltas_spec by blast
  then have zero: "list_all (\<lambda>r. delta_ticks r = 0) rs" "list_all received rs" by (simp_all add: list_all_iff)
  then have "ticks_us rs = 0" by (induction rs) (simp_all add: ticks_us_def)
  let ?q = "(tf_extend ?p (tf_statuses p) rs (base_seq_no p) 0)\<lparr>size_bytes := 20 + chunk_bytes p\<rparr>"
  have "tf_inv False ?q" using tf_inv_decoded [OF dec, of rs] rs zero p' \<open>ticks_us rs = 0\<close> by simp
  moreover have "tf_statuses ?q = tf_statuses p" "chunk_bytes ?q = chunk_bytes p"
    by (simp_all add: tf_statuses_def chunk_bytes_def tf_extend_def)
  then have "\<not> stale_deltas p h True ?q" using False h i(1) by (simp add: stale_deltas_def)
  moreover have "kHeaderLength + i = 20 + chunk_bytes p" using i by (simp add: kHeaderLength_def)
  then have "Tf_ParsePackets data (length data) (tf_statuses p) i p = Some (True, ?q)"
    using rs(1) False i(2) by (simp add: Tf_ParsePackets_def)
  ultimately show ?thesis by (intro exI [of _ True] exI [of _ ?q]) simp
qed

lemma TransportFeedback_Parse_inv:
  assumes h: "wf_header h" "packet_type h = kRtpfbPacketType"
      "count_or_format h = kTransportFeedbackFeedbackMessageType"
    and inv: "tf_inv m p"
  shows "\<exists>ok q. TransportFeedback_Parse p h = Some (ok, q) \<and>
    (if stale_deltas p h ok q then \<forall>fill. IsConsistent fill q = Some False else tf_inv False q)"
proof (cases "payload_size h < 18")
  case True
  with h inv show ?thesis
    by (auto simp: TransportFeedback_Parse_def kMinPayloadSizeBytes_def stale_deltas_def intro: tf_inv_weaken)
next
  case False
  define data where "data = payload_view h"
  have len: "length data = payload_size h" "18 \<le> length data" using h(1) False by (simp_all add: data_def)
  then have "8 \<le> length data" by simp
  then obtain sender media where common:
    "Rtpfb_ParseCommonFeedback data p = Some (p\<lparr>sender_ssrc := sender, rtpfb_media_ssrc := media\<rparr>)"
    using Read_defined(5) [of data 0] Read_defined(5) [of data 4]
    by (auto simp: Rtpfb_ParseCommonFeedback_def SetSenderSsrc_def)
  obtain base count ticks fb where fields: "ReadBE16 data 8 = Some base" "ReadBE16 data 10 = Some count"
      "ReadBE24s data 12 = Some ticks" "load data 15 = Some fb"
    using len Read_defined(2) [of data 8] Read_defined(2) [of data 10] Read_defined(4) [of data 12]
      load_defined [of data 15] by auto
  define p1 where "p1 = Tf_Clear (p\<lparr>sender_ssrc := sender, rtpfb_media_ssrc := media, base_seq_no := base,
      base_time_ticks := ticks, feedback_seq := fb\<rparr>)"
  have p1: "length (delta_sizes (tf_last_chunk p1)) = 14" "tf_inv False p1" "encoded_chunks p1 = []"
      "received_packets p1 = []" "all_packets p1 = []" "include_timestamps p1 = include_timestamps p"
      "last_timestamp_us p1 = GetBaseTimeUs p1"
    using inv tf_inv_Clear [of "p\<lparr>sender_ssrc := sender, rtpfb_media_ssrc := media, base_seq_no := base,
      base_time_ticks := ticks, feedback_seq := fb\<rparr>" False]
    by (simp_all add: p1_def Tf_Clear_def LastChunk_Clear_def tf_inv_def lc_ok_def GetBaseTimeUs_def)
  have parse: "TransportFeedback_Parse p h = (if count = 0 then Some (False, p1)
    else do {
      (ok, i, p, sizes) \<leftarrow> Tf_ParseChunks data (payload_size h) (unat count) 16 p1 [];
      if \<not> ok then Some (False, p)
      else do {
        let p = p\<lparr>encoded_chunks := butlast (encoded_chunks p)\<rparr>;
        dcheck (length sizes = unat count);
        Tf_ParsePackets data (payload_size h) sizes i (p\<lparr>num_seq_no := count\<rparr>)
      }
    })"
    using h False common fields
    unfolding TransportFeedback_Parse_def Let_def data_def [symmetric]
    by (simp add: kMinPayloadSizeBytes_def flip: p1_def)
  note parse = parse [folded len(1)]
  show ?thesis
  proof (cases "count = 0")
    case True
    with p1(2) show ?thesis by (auto simp: parse stale_deltas_def)
  next
    case nz: False
    then have "length [] < unat count" "[] = concat (map symbols (encoded_chunks p1))"
      using p1(3) by (simp_all add: unat_gt_0)
    from Tf_ParseChunks_spec [OF p1(1) this(2,1), of data 16, unfolded p1(3) append_Nil] show ?thesis
    proof (elim disjE exE conjE, goal_cases)
      case (1 j q sizes)
      with nz tf_inv_Clear [OF 1(2)] show ?case by (auto simp: parse stale_deltas_def)
    next
      case (2 cs chunk lc sizes)
      let ?p = "p1\<lparr>tf_last_chunk := lc, encoded_chunks := cs, num_seq_no := count\<rparr>"
      have st: "tf_statuses ?p = sizes" using 2(6) by (simp add: tf_statuses_def)
      moreover have "tf_decoded ?p"
        using 2(2-4) p1(4,5,7) st by (simp add: tf_decoded_def GetBaseTimeUs_def)
      moreover have "16 + 2 * (length cs + 1) = 16 + chunk_bytes ?p" using 2(3) by (simp add: chunk_bytes_def)
      moreover have "stale_deltas ?p h = stale_deltas p h" using p1(6) by (intro ext) (simp add: stale_deltas_def)
      ultimately have "\<exists>ok q. Tf_ParsePackets data (length data) sizes (16 + 2 * (length cs + 1)) ?p = Some (ok, q) \<and>
          (if stale_deltas p h ok q then \<forall>fill. IsConsistent fill q = Some False else tf_inv False q)"
        using Tf_ParsePackets_inv [of ?p h data] 2(5) len(1) by simp
      then show ?case using 2(1,4) nz by (simp add: parse)
    qed
  qed
qed

subsection \<open>Reachable objects\<close>

text \<open>
  The objects a client can get: constructed, then changed by calls of the public operations in any
  order, with any arguments that satisfy the assertions of \<open>SetBase\<close>.  \<open>Parse\<close> may be called on any of
  them, with the exception of \<open>stale_deltas\<close>.
\<close>

inductive tf_reachable :: "bool \<Rightarrow> transport_feedback \<Rightarrow> bool" where
  tf_init: "tf_reachable m (TransportFeedback_new fill timestamps lost)"
| tf_set_ssrc: "tf_reachable m p \<Longrightarrow> tf_reachable m (p\<lparr>sender_ssrc := s, rtpfb_media_ssrc := s'\<rparr>)"
| tf_set_base: "tf_reachable m p \<Longrightarrow> SetBase p base ref = Some q \<Longrightarrow> tf_reachable m q"
| tf_set_seq: "tf_reachable m p \<Longrightarrow> tf_reachable m (SetFeedbackSequenceNumber p fb)"
| tf_add: "tf_reachable m p \<Longrightarrow> AddReceivedPacket p seq t = Some (ok, q) \<Longrightarrow> tf_reachable m q"
| tf_parse: "tf_reachable m p \<Longrightarrow> wf_header h \<Longrightarrow> packet_type h = kRtpfbPacketType \<Longrightarrow>
    count_or_format h = kTransportFeedbackFeedbackMessageType \<Longrightarrow>
    TransportFeedback_Parse p h = Some (ok, q) \<Longrightarrow> \<not> stale_deltas p h ok q \<Longrightarrow> tf_reachable False q"

lemma tf_inv_update:
  "tf_inv m (p\<lparr>sender_ssrc := s, rtpfb_media_ssrc := s'\<rparr>) = tf_inv m p"
  "tf_inv m (p\<lparr>feedback_seq := fb\<rparr>) = tf_inv m p"
  by (simp_all add: tf_inv_def tf_statuses_def chunk_bytes_def GetBaseTimeUs_def)

lemma tf_reachable_inv: "tf_reachable m p \<Longrightarrow> tf_inv m p"
proof (induction rule: tf_reachable.induct)
  case (tf_set_base m p base ref q)
  then show ?case using tf_inv_SetBase by blast
next
  case (tf_add m p seq t ok q)
  then show ?case using AddReceivedPacket_inv [of m p seq t] by auto
next
  case (tf_parse m p h ok q)
  then show ?case using TransportFeedback_Parse_inv [of h m p] by auto
qed (simp_all add: tf_inv_new tf_inv_update SetFeedbackSequenceNumber_def)

text \<open>\<open>ParseFrom\<close> accepts any buffer and returns nothing or a consistent object.\<close>

lemma ParseFrom_consistent:
  "\<exists>r. TransportFeedback_ParseFrom fill h0 buffer = Some r \<and>
     (\<forall>p. r = Some p \<longrightarrow> tf_inv False p \<and> IsConsistent fill' p = Some True)"
proof -
  obtain ok h where h: "CommonHeader_Parse h0 buffer = Some (ok, h)"
    using CommonHeader_Parse_total [of h0 buffer] by auto
  show ?thesis
  proof (cases "ok \<and> packet_type h = kRtpfbPacketType \<and> count_or_format h = kTransportFeedbackFeedbackMessageType")
    case False
    with h show ?thesis by (auto simp: TransportFeedback_ParseFrom_def)
  next
    case True
    let ?p = "TransportFeedback_new fill True True"
    have "wf_header h" using h True by (intro CommonHeader_Parse_True(1) [of h0 buffer]) simp
    moreover have "include_timestamps ?p" by (simp add: TransportFeedback_new_def)
    ultimately obtain ok' q where q: "TransportFeedback_Parse ?p h = Some (ok', q)" "tf_inv False q"
      using True TransportFeedback_Parse_inv [OF _ _ _ tf_inv_new [of True fill True True], of h]
      by (auto simp: stale_deltas_def)
    with h True tf_inv_IsConsistent show ?thesis
      by (cases ok') (auto simp: TransportFeedback_ParseFrom_def)
  qed
qed

subsection \<open>Serializing\<close>

definition delta_wire :: "received_packet \<Rightarrow> u8 list" where
  "delta_wire r = (if small_delta r then [ucast (delta_ticks r)] else be_bytes 2 (delta_ticks r))"

definition deltas_wire :: "transport_feedback \<Rightarrow> u8 list" where
  "deltas_wire p = (if include_timestamps p then concat (map delta_wire (received_packets p)) else [])"

definition chunks_wire :: "transport_feedback \<Rightarrow> u8 list" where
  "chunks_wire p = concat (map (be_bytes 2) (encoded_chunks p @ [the (EncodeLast (tf_last_chunk p))]))"

definition tf_body :: "transport_feedback \<Rightarrow> u8 list" where
  "tf_body p = rtpfb_common p @ be_bytes 2 (base_seq_no p) @ be_bytes 2 (num_seq_no p) @
     be_bytes 3 (base_time_ticks p) @ [feedback_seq p] @ chunks_wire p @ deltas_wire p"

definition padding_wire :: "nat \<Rightarrow> u8 list" where
  "padding_wire n = (if n = 0 then [] else replicate (n - 1) 0 @ [word_of_nat n])"

definition tf_wire :: "transport_feedback \<Rightarrow> u8 list" where
  "tf_wire p = header_wire 15 kRtpfbPacketType (TransportFeedback_BlockLength p div 4 - 1) (0 < PaddingLength p)
     @ tf_body p @ padding_wire (PaddingLength p)"

definition tf_valid :: "transport_feedback \<Rightarrow> bool" where
  "tf_valid p \<longleftrightarrow> tf_inv True p \<and> num_seq_no p \<noteq> 0"

lemma length_padding_wire [simp]: "length (padding_wire n) = n"
  by (simp add: padding_wire_def)

lemma delta_wire_size:
  assumes "tf_match True ds rs seq"
  shows "length (concat (map delta_wire rs)) = sum_list (map unat ds)"
  using assms
proof (induction ds arbitrary: rs seq)
  case (Cons d ds)
  show ?case
  proof (cases "d = 0")
    case True
    with Cons.prems Cons.IH [of rs "seq + 1"] show ?thesis by simp
  next
    case False
    with Cons.prems obtain r rs' where r: "rs = r # rs'" "tf_match True ds rs' (seq + 1)" "d \<le> 2"
        "small_delta r \<longleftrightarrow> d = 1"
      by (cases rs) auto
    have "d = 1 \<or> d = 2" using r(3) False by (rule word_le_2_cases)
    then have "length (delta_wire r) = unat d" using r(4) by (auto simp: delta_wire_def)
    with r(1) Cons.IH [OF r(2)] show ?thesis by simp
  qed
qed simp

lemma BlockLength_words: "TransportFeedback_BlockLength p mod 4 = 0"
  "TransportFeedback_BlockLength p = size_bytes p + PaddingLength p" "PaddingLength p \<le> 3"
proof -
  have "n \<le> (n + 3) div 4 * 4" "(n + 3) div 4 * 4 \<le> n + 3" for n :: nat by presburger+
  then show "TransportFeedback_BlockLength p = size_bytes p + PaddingLength p" "PaddingLength p \<le> 3"
    by (simp_all add: TransportFeedback_BlockLength_def PaddingLength_def)
qed (simp add: TransportFeedback_BlockLength_def)

lemma tf_validD:
  assumes "tf_valid p"
  shows "lc_ok (tf_last_chunk p)" "0 < chunk_size (tf_last_chunk p)" "size_bytes p \<le> 4 * 65536"
    "size_bytes p = 22 + 2 * length (encoded_chunks p) + length (deltas_wire p)"
    "TransportFeedback_BlockLength p \<le> 4 * 65536"
proof -
  have inv: "tf_inv True p" and num: "num_seq_no p \<noteq> 0" using assms by (simp_all add: tf_valid_def)
  then show lc: "lc_ok (tf_last_chunk p)" "0 < chunk_size (tf_last_chunk p)" and size: "size_bytes p \<le> 4 * 65536"
    by (simp_all add: tf_inv_def kMaxSizeBytes_def)
  have "tf_match True (tf_statuses p) (received_packets p) (base_seq_no p)"
    and "size_bytes p = 20 + chunk_bytes p + (if include_timestamps p then sum_list (map unat (tf_statuses p)) else 0)"
    using inv by (simp_all add: tf_inv_def)
  then show "size_bytes p = 22 + 2 * length (encoded_chunks p) + length (deltas_wire p)"
    using lc(2) delta_wire_size by (simp add: deltas_wire_def chunk_bytes_def)
  have "(size_bytes p + 3) div 4 \<le> (4 * 65536 + 3) div 4" using size by (intro div_le_mono) simp
  then show "TransportFeedback_BlockLength p \<le> 4 * 65536"
    by (simp add: TransportFeedback_BlockLength_def)
qed

lemma length_chunks_wire [simp]: "length (chunks_wire p) = 2 * length (encoded_chunks p) + 2"
  by (simp add: chunks_wire_def length_concat_const)

lemma length_tf_wire: "tf_valid p \<Longrightarrow> length (tf_wire p) = TransportFeedback_BlockLength p"
  using BlockLength_words(2) [of p] tf_validD(4) [of p] by (simp add: tf_wire_def tf_body_def)

lemma put_WriteDelta:
  "Option.bind (put data i bs) (\<lambda>d. Option.bind (WriteDelta r d (i + length bs)) g) =
   Option.bind (put data i (bs @ delta_wire r)) (\<lambda>d. g (d, i + length bs + length (delta_wire r)))"
  unfolding WriteDelta_def Let_def small_delta_def [symmetric] delta_wire_def
  by (cases "small_delta r") (simp_all add: write_simps)

text \<open>What \<open>Create\<close> writes, and the assertion at its end, for any object with a chunk to write.\<close>

lemma Tf_CreateBody_put:
  assumes lc: "lc_ok (tf_last_chunk p)" "0 < chunk_size (tf_last_chunk p)"
    and size: "0 < TransportFeedback_BlockLength p" "TransportFeedback_BlockLength p \<le> 4 * 65536"
  shows "Tf_CreateBody p pkt i = do {
    pkt \<leftarrow> put pkt i (tf_wire p);
    dcheck (i + length (tf_wire p) = i + TransportFeedback_BlockLength p);
    Some (pkt, i + length (tf_wire p))
  }"
proof -
  obtain r where r: "EncodeLast (tf_last_chunk p) = Some r"
    using EncodeLast_symbols [OF lc] by blast
  have hl: "HeaderLength (TransportFeedback_BlockLength p) = Some (TransportFeedback_BlockLength p div 4 - 1)"
    using size BlockLength_words(1) [of p] by (intro HeaderLength_eq) auto
  have words: "TransportFeedback_BlockLength p div 4 - 1 \<le> 65535" using size(2) by simp
  have chunks: "chunks_wire p = concat (map (be_bytes 2) (encoded_chunks p)) @ be_bytes 2 r"
    by (simp add: chunks_wire_def r)
  obtain len where len: "TransportFeedback_BlockLength p = len" by blast
  show ?thesis
    unfolding Tf_CreateBody_def Let_def tf_wire_def
    using r hl words lc(2) unfolding len
    by (cases "include_timestamps p"; cases "PaddingLength p = 0")
     (simp_all add: kTransportFeedbackFeedbackMessageType_def LastChunk_Empty_def write_simps
      kCommonFeedbackLength_def kHeaderLength_def padding_wire_def length_concat_const
      put_write_each [where enc = "be_bytes 2"] put_write_all [where enc = delta_wire, OF put_WriteDelta]
      tf_body_def chunks deltas_wire_def, simp_all add: ac_simps)
qed

lemma Tf_CreateBody_emits:
  assumes "tf_valid p"
  shows "Tf_CreateBody p pkt i = emit (tf_wire p) pkt i"
proof -
  have "0 < TransportFeedback_BlockLength p"
    using BlockLength_words(2) [of p] tf_validD(4) [OF assms] by simp
  from Tf_CreateBody_put [OF tf_validD(1,2) [OF assms] this tf_validD(5) [OF assms]] show ?thesis
    by (simp add: emit_def length_tf_wire [OF assms])
qed

interpretation tf: rtcp_serializer TransportFeedback_BlockLength TransportFeedback_Create tf_wire tf_valid
proof
  fix p assume p: "tf_valid p"
  then show "length (tf_wire p) = TransportFeedback_BlockLength p" by (rule length_tf_wire)
  then show "0 < TransportFeedback_BlockLength p" using BlockLength_words(2) [of p] tf_validD(4) [OF p] by simp
  have "Tf_CreateBody p = emit (tf_wire p)" using Tf_CreateBody_emits [OF p] by (intro ext)
  then show "TransportFeedback_Create p = create_at (TransportFeedback_BlockLength p) (emit (tf_wire p))"
    using p by (intro ext) (simp add: TransportFeedback_Create_def tf_valid_def)
qed

text \<open>
  The serializer writes a delta between 0 and 255 in one byte, whatever status announces it.  An
  object that was parsed may announce two bytes for it; then less is written than was counted, and
  the assertion at the end of \<open>Create\<close> fails.
\<close>

definition wide_delta :: "u8 list \<Rightarrow> received_packet list \<Rightarrow> bool" where
  "wide_delta sizes rs \<longleftrightarrow>
     list_ex (\<lambda>(d, r). d = 2 \<and> small_delta r) (zip (filter (\<lambda>d. d \<noteq> 0) sizes) rs)"

lemma wide_delta_Cons:
  "wide_delta (0 # ds) rs = wide_delta ds rs"
  "d \<noteq> 0 \<Longrightarrow> wide_delta (d # ds) (r # rs) \<longleftrightarrow> d = 2 \<and> small_delta r \<or> wide_delta ds rs"
  by (simp_all add: wide_delta_def)

lemma tf_match_widths:
  "tf_match False ds rs seq \<Longrightarrow> list_all (\<lambda>d. d \<le> 2) ds \<Longrightarrow>
    tf_match True ds rs seq = (\<not> wide_delta ds rs) \<and>
    length (concat (map delta_wire rs)) \<le> sum_list (map unat ds) \<and>
    (wide_delta ds rs \<longrightarrow> length (concat (map delta_wire rs)) < sum_list (map unat ds))"
proof (induction ds arbitrary: rs seq)
  case Nil
  then show ?case by (simp add: wide_delta_def)
next
  case (Cons d ds)
  show ?case
  proof (cases "d = 0")
    case True
    with Cons.prems Cons.IH [of rs "seq + 1"] show ?thesis by (simp add: wide_delta_Cons)
  next
    case False
    with Cons.prems obtain r rs' where r: "rs = r # rs'" "tf_match False ds rs' (seq + 1)"
        "sequence_number r = seq" "d = 1 \<longrightarrow> small_delta r" by (cases rs) auto
    have "list_all (\<lambda>d. d \<le> 2) ds" using Cons.prems(2) by simp
    note IH = Cons.IH [OF r(2) this]
    have "d = 1 \<or> d = 2" using word_le_2_cases False Cons.prems(2) by simp
    then show ?thesis
      using r IH by (cases "small_delta r") (auto simp: wide_delta_Cons delta_wire_def)
  qed
qed

lemma TransportFeedback_Create_parsed:
  assumes inv: "tf_inv m p" and ts: "include_timestamps p" and num: "num_seq_no p \<noteq> 0"
    and room: "index st + TransportFeedback_BlockLength p \<le> max_length" "max_length \<le> length (packet st)"
    and size: "size_bytes p \<le> kMaxSizeBytes"
  shows "TransportFeedback_Create p max_length cb st =
    (if wide_delta (tf_statuses p) (received_packets p) then None
     else Some (True, st\<lparr>packet := overwrite (packet st) (index st) (tf_wire p),
                         index := index st + TransportFeedback_BlockLength p\<rparr>))"
proof -
  have lc: "lc_ok (tf_last_chunk p)" "0 < chunk_size (tf_last_chunk p)"
    and two: "list_all (\<lambda>d. d \<le> 2) (tf_statuses p)" and sum: "size_bytes p = 20 + chunk_bytes p + sum_list (map unat (tf_statuses p))"
    using inv num ts by (simp_all add: tf_inv_def)
  have match: "tf_match False (tf_statuses p) (received_packets p) (base_seq_no p)"
    using tf_inv_weaken [OF inv] by (simp add: tf_inv_def)
  note widths = tf_match_widths [OF match two]
  show ?thesis
  proof (cases "wide_delta (tf_statuses p) (received_packets p)")
    case False
    then have "tf_inv True p" using inv widths size by (simp add: tf_inv_def)
    then have "tf_valid p" using num by (simp add: tf_valid_def)
    from tf.Create_fits [OF this room] False show ?thesis by simp
  next
    case True
    have len: "TransportFeedback_BlockLength p = size_bytes p + PaddingLength p" by (rule BlockLength_words(2))
    have "TransportFeedback_BlockLength p \<le> 4 * 65536"
      using size by (simp add: TransportFeedback_BlockLength_def kMaxSizeBytes_def)
    moreover have "0 < TransportFeedback_BlockLength p" using len sum by simp
    moreover have "length (tf_wire p) < TransportFeedback_BlockLength p"
      using True widths sum lc(2) ts unfolding len by (simp add: tf_wire_def tf_body_def deltas_wire_def chunk_bytes_def)
    ultimately have "Tf_CreateBody p pkt i = None" for pkt i
      using Tf_CreateBody_put [OF lc, of pkt i] by (simp split: bind_splits)
    with True room num show ?thesis by (simp add: TransportFeedback_Create_def create_at_def WaitForSpace_fits)
  qed
qed

lemma CommonHeader_Parse_padded:
  assumes "count \<le> 31" "len \<le> 65535" "length body + n = 4 * len" "0 < n" "n \<le> 255"
  shows "CommonHeader_Parse h (header_wire count ptype len True @ body @ padding_wire n @ rest) =
    Some (True, h\<lparr>packet_type := ptype, count_or_format := word_of_nat count, padding_size := word_of_nat n,
      payload_size := length body, payload := body @ padding_wire n @ rest\<rparr>)"
proof -
  have "len * 4 - 1 = length body + (n - 1)" using assms(3,4) by linarith
  then have "load (body @ padding_wire n @ rest) (len * 4 - 1) = Some (word_of_nat n)"
    using assms(4) by (simp only: load_def nth_append_length_plus) (simp add: padding_wire_def nth_append)
  moreover have "word_of_nat n \<noteq> (0 :: u8)"
    using assms(4,5) by (metis unat_of_nat_u8 unat_0 less_numeral_extra(3))
  moreover have "len * 4 = length body + n" using assms(3) by simp
  ultimately show ?thesis
    using assms(1,2,4,5)
    by (simp add: CommonHeader_Parse_def header_wire_def read_simps kHeaderLength_def drop_Cons' Let_def)
qed

subsection \<open>Round trip\<close>

lemma ReadBE16_at:
  "i = length pre \<Longrightarrow> ReadBE16 (pre @ be_bytes 2 w @ post) i = Some w"
  by (simp add: read_simps)

lemma Tf_ParseChunks_wire:
  assumes "length (delta_sizes (tf_last_chunk p)) = 14" "0 < k" "k \<le> length (symbols r)"
    "data = pre @ concat (map (be_bytes 2) (cs @ [r])) @ post" "i = length pre"
    "count = length sizes + length (concat (map symbols cs)) + k"
  shows "\<exists>lc. Tf_ParseChunks data (length data) count i p sizes = Some (True, i + 2 * (length cs + 1),
      p\<lparr>encoded_chunks := encoded_chunks p @ cs @ [r], tf_last_chunk := lc\<rparr>,
      sizes @ concat (map symbols cs) @ take k (symbols r)) \<and>
    lc_ok lc \<and> lc_contents lc = take k (symbols r)"
  using assms
proof (induction cs arbitrary: p sizes pre i)
  case Nil
  have "length sizes < count" "i + 2 \<le> length data" using Nil by simp_all
  then obtain chunk lc where step: "ReadBE16 data i = Some chunk" "lc_ok lc"
      "Decode (tf_last_chunk p) chunk (count - length sizes) = Some lc"
      "lc_contents lc = take (count - length sizes) (symbols chunk)"
      "Tf_ParseChunks data (length data) count i p sizes = Tf_ParseChunks data (length data) count (i + 2)
        (p\<lparr>encoded_chunks := encoded_chunks p @ [chunk], tf_last_chunk := lc\<rparr>) (sizes @ lc_contents lc)"
    by (rule Tf_ParseChunks_step [OF _ _ Nil.prems(1)])
  have "chunk = r" using step(1) Nil.prems(4,5) by (simp add: ReadBE16_at)
  moreover have "Tf_ParseChunks data (length data) count (i + 2) q (sizes @ lc_contents lc) =
      Some (True, i + 2, q, sizes @ lc_contents lc)" for q
    using calculation step(4) Nil.prems(3,6) by (subst Tf_ParseChunks.simps) simp
  ultimately show ?case using step Nil.prems(6) by (intro exI [of _ lc]) simp
next
  case (Cons c cs)
  have "length sizes < count" "i + 2 \<le> length data" using Cons.prems by simp_all
  then obtain chunk lc where step: "ReadBE16 data i = Some chunk" "lc_ok lc"
      "Decode (tf_last_chunk p) chunk (count - length sizes) = Some lc"
      "lc_contents lc = take (count - length sizes) (symbols chunk)"
      "Tf_ParseChunks data (length data) count i p sizes = Tf_ParseChunks data (length data) count (i + 2)
        (p\<lparr>encoded_chunks := encoded_chunks p @ [chunk], tf_last_chunk := lc\<rparr>) (sizes @ lc_contents lc)"
    by (rule Tf_ParseChunks_step [OF _ _ Cons.prems(1)])
  have "data = pre @ be_bytes 2 c @ (concat (map (be_bytes 2) (cs @ [r])) @ post)" using Cons.prems(4) by simp
  then have c: "chunk = c" using step(1) Cons.prems(5) ReadBE16_at by simp
  have sym: "lc_contents lc = symbols c" using step(4) Cons.prems(6) by (simp add: c)
  let ?p = "p\<lparr>encoded_chunks := encoded_chunks p @ [chunk], tf_last_chunk := lc\<rparr>"
  have "\<exists>lc'. Tf_ParseChunks data (length data) count (i + 2) ?p (sizes @ symbols c) = Some (True, i + 2 + 2 * (length cs + 1),
      ?p\<lparr>encoded_chunks := encoded_chunks ?p @ cs @ [r], tf_last_chunk := lc'\<rparr>,
      (sizes @ symbols c) @ concat (map symbols cs) @ take k (symbols r)) \<and>
    lc_ok lc' \<and> lc_contents lc' = take k (symbols r)"
    using Cons.prems(2-6) step(2) by (intro Cons.IH [where pre = "pre @ be_bytes 2 c"]) (simp_all add: lc_ok_def)
  then show ?case using step(5) c sym by simp
qed

lemma ReceivedPacket_eta: "received r \<Longrightarrow> ReceivedPacket (sequence_number r) (delta_ticks r) = r"
  by (cases r) (simp add: ReceivedPacket_def)

lemma ucast_small_delta:
  assumes "small_delta r"
  shows "ucast (ucast (delta_ticks r) :: u8) = delta_ticks r"
proof -
  let ?d = "delta_ticks r"
  have "uint ?d = uint (word_of_int (sint ?d) :: i16)" by simp
  also have "\<dots> = sint ?d"
    using assms by (simp only: uint_word_of_int_eq) (simp add: small_delta_def take_bit_int_eq_self)
  finally have "uint ?d < 256" using assms by (simp add: small_delta_def)
  then have "uint (ucast (ucast ?d :: u8) :: i16) = uint ?d"
    by (simp add: uint_up_ucast is_up unsigned_ucast_eq unsigned_take_bit_eq take_bit_int_eq_self)
  then show ?thesis by (simp add: word_uint_eq_iff)
qed

lemma Tf_ParseDeltas_wire:
  assumes "tf_match True ds rs seq" "list_all received rs" "data = pre @ concat (map delta_wire rs) @ post"
    "i = length pre"
  shows "Tf_ParseDeltas data (length data) ds i seq p =
    Some (True, i + sum_list (map unat ds), tf_extend p ds rs seq (ticks_us rs))"
  using assms
proof (induction ds arbitrary: rs seq p pre i)
  case Nil
  then show ?case by (simp add: extend_Nil ticks_us_def)
next
  case (Cons d ds)
  show ?case
  proof (cases "d = 0")
    case True
    with Cons.prems have i: "i \<le> length data" by simp
    from True Cons.prems Cons.IH [of rs "seq + 1" pre i "add_lost seq p"] i show ?thesis by (simp add: extend_lost)
  next
    case False
    with Cons.prems obtain r rs' where r: "rs = r # rs'" "tf_match True ds rs' (seq + 1)" "d \<le> 2"
        "small_delta r \<longleftrightarrow> d = 1" "sequence_number r = seq" "received r" "list_all received rs'"
      by (cases rs) auto
    have d12: "d = 1 \<or> d = 2" using r(3) False by (rule word_le_2_cases)
    then have len: "length (delta_wire r) = unat d" using r(4) by (auto simp: delta_wire_def)
    have data: "data = pre @ delta_wire r @ concat (map delta_wire rs') @ post" using Cons.prems(3) r(1) by simp
    then have bound: "i + unat d \<le> length data" using len Cons.prems(4) by simp
    let ?p = "advance (delta_ticks r) (add_received seq (delta_ticks r) p)"
    have eta: "ReceivedPacket seq (delta_ticks r) = r" using r(5,6) ReceivedPacket_eta by metis
    have "Tf_ParseDeltas data (length data) (d # ds) i seq p =
        Tf_ParseDeltas data (length data) ds (i + unat d) (seq + 1) ?p"
    proof (cases "d = 1")
      case True
      then have "load data i = Some (ucast (delta_ticks r))"
        using r(4) Cons.prems(4) by (simp add: data delta_wire_def load_def nth_append)
      then show ?thesis using True bound r(4) by (simp add: Let_def ucast_small_delta)
    next
      case False
      then have two: "d = 2" using d12 by simp
      then have "data = pre @ be_bytes 2 (delta_ticks r) @ (concat (map delta_wire rs') @ post)"
        using r(4) data by (simp add: delta_wire_def)
      then have "ReadBE16 data i = Some (delta_ticks r)" using Cons.prems(4) ReadBE16_at by simp
      then show ?thesis using two bound by simp
    qed
    also have "\<dots> = Some (True, i + unat d + sum_list (map unat ds), tf_extend ?p ds rs' (seq + 1) (ticks_us rs'))"
      using r(2,7) data len Cons.prems(4) by (intro Cons.IH [where pre = "pre @ delta_wire r"]) simp_all
    also have "tf_extend ?p ds rs' (seq + 1) (ticks_us rs') = tf_extend p (d # ds) rs seq (ticks_us rs)"
      using False r(1) eta by (simp add: extend_advance extend_received ticks_us_def)
    finally show ?thesis by simp
  qed
qed

lemma tf_wire_header:
  assumes "tf_valid p"
  shows "\<exists>h. CommonHeader_Parse h0 (tf_wire p @ rest) = Some (True, h) \<and> wf_header h \<and>
    packet_type h = kRtpfbPacketType \<and> count_or_format h = kTransportFeedbackFeedbackMessageType \<and>
    payload_view h = tf_body p \<and> payload_size h = length (tf_body p) \<and> NextPacket h = rest"
proof -
  let ?n = "PaddingLength p" and ?len = "TransportFeedback_BlockLength p div 4 - 1"
  have total: "length (tf_body p) + ?n + 4 = TransportFeedback_BlockLength p"
    using length_tf_wire [OF assms] by (simp add: tf_wire_def)
  then have words: "length (tf_body p) + ?n = 4 * ?len" "?len \<le> 65535"
    using BlockLength_words(1) [of p] tf_validD(5) [OF assms] by presburger+
  have n: "?n \<le> 3" by (rule BlockLength_words(3))
  show ?thesis
  proof (cases "?n = 0")
    case True
    with words CommonHeader_Parse_wire [of 15 ?len "tf_body p" h0 kRtpfbPacketType rest] show ?thesis
      by (simp add: tf_wire_def padding_wire_def payload_view_def NextPacket_def wf_header_def
          kTransportFeedbackFeedbackMessageType_def)
  next
    case False
    with words n CommonHeader_Parse_padded [of 15 ?len "tf_body p" ?n h0 kRtpfbPacketType rest] show ?thesis
      by (simp add: tf_wire_def payload_view_def NextPacket_def wf_header_def
          kTransportFeedbackFeedbackMessageType_def)
  qed
qed

lemma TransportFeedback_Parse_wire:
  assumes p: "tf_valid p" "include_timestamps p" and q: "length (delta_sizes (tf_last_chunk q)) = 14"
    and h: "packet_type h = kRtpfbPacketType" "count_or_format h = kTransportFeedbackFeedbackMessageType"
      "payload_view h = tf_body p" "payload_size h = length (tf_body p)"
  shows "\<exists>r. TransportFeedback_Parse q h = Some (True, r) \<and>
    sender_ssrc r = sender_ssrc p \<and> rtpfb_media_ssrc r = rtpfb_media_ssrc p \<and>
    base_seq_no r = base_seq_no p \<and> num_seq_no r = num_seq_no p \<and> feedback_seq r = feedback_seq p \<and>
    base_time_ticks r = signed_take_bit 23 (base_time_ticks p) \<and>
    received_packets r = received_packets p \<and> tf_statuses r = tf_statuses p"
proof -
  let ?lc = "tf_last_chunk p" and ?data = "tf_body p"
  define pre where "pre = rtpfb_common p @ be_bytes 2 (base_seq_no p) @ be_bytes 2 (num_seq_no p) @
     be_bytes 3 (base_time_ticks p) @ [feedback_seq p]"
  define p1 where "p1 = Tf_Clear (q\<lparr>sender_ssrc := sender_ssrc p, rtpfb_media_ssrc := rtpfb_media_ssrc p,
      base_seq_no := base_seq_no p, base_time_ticks := signed_take_bit 23 (base_time_ticks p),
      feedback_seq := feedback_seq p\<rparr>)"
  have inv: "tf_inv True p" "num_seq_no p \<noteq> 0" using p(1) by (simp_all add: tf_valid_def)
  obtain r where r: "EncodeLast ?lc = Some r" "chunk_size ?lc \<le> length (symbols r)"
      "take (chunk_size ?lc) (symbols r) = lc_contents ?lc"
    using EncodeLast_symbols [OF tf_validD(1,2) [OF p(1)]] by blast
  have count: "unat (num_seq_no p) = length [] + length (concat (map symbols (encoded_chunks p))) + chunk_size ?lc"
    using inv(1) tf_validD(1) [OF p(1)] by (simp add: tf_inv_def tf_statuses_def)
  have data: "?data = pre @ concat (map (be_bytes 2) (encoded_chunks p @ [r])) @ deltas_wire p" "16 = length pre"
    by (simp_all add: tf_body_def chunks_wire_def r(1) pre_def)
  have "length (delta_sizes (tf_last_chunk p1)) = 14" using q by (simp add: p1_def Tf_Clear_def LastChunk_Clear_def)
  from Tf_ParseChunks_wire [OF this tf_validD(2) [OF p(1)] r(2) data count]
  obtain lc where chunks: "Tf_ParseChunks ?data (length ?data) (unat (num_seq_no p)) 16 p1 [] =
      Some (True, 16 + 2 * (length (encoded_chunks p) + 1),
        p1\<lparr>encoded_chunks := encoded_chunks p1 @ encoded_chunks p @ [r], tf_last_chunk := lc\<rparr>, tf_statuses p)"
      "lc_ok lc" "lc_contents lc = lc_contents ?lc"
    unfolding r(3) tf_statuses_def by auto
  let ?p2 = "p1\<lparr>tf_last_chunk := lc, encoded_chunks := encoded_chunks p, num_seq_no := num_seq_no p\<rparr>"
  have p1: "encoded_chunks p1 = []" "received_packets p1 = []" "base_seq_no p1 = base_seq_no p"
    by (simp_all add: p1_def Tf_Clear_def)
  define pre2 where "pre2 = pre @ chunks_wire p"
  have "?data = pre2 @ concat (map delta_wire (received_packets p)) @ []"
      "16 + 2 * (length (encoded_chunks p) + 1) = length pre2"
    using p(2) by (simp_all add: pre2_def pre_def tf_body_def deltas_wire_def)
  with inv(1) have deltas: "Tf_ParseDeltas ?data (length ?data) (tf_statuses p) (16 + 2 * (length (encoded_chunks p) + 1))
      (base_seq_no p) ?p2 = Some (True, 16 + 2 * (length (encoded_chunks p) + 1) + sum_list (map unat (tf_statuses p)),
        tf_extend ?p2 (tf_statuses p) (received_packets p) (base_seq_no p) (ticks_us (received_packets p)))"
    by (intro Tf_ParseDeltas_wire) (simp_all add: tf_inv_def)
  have match: "tf_match True (tf_statuses p) (received_packets p) (base_seq_no p)" using inv(1) by (simp add: tf_inv_def)
  have total: "16 + 2 * (length (encoded_chunks p) + 1) + sum_list (map unat (tf_statuses p)) = length ?data"
    using p(2) delta_wire_size [OF match] by (simp add: tf_body_def deltas_wire_def)
  let ?r = "(tf_extend ?p2 (tf_statuses p) (received_packets p) (base_seq_no p)
      (ticks_us (received_packets p)))\<lparr>size_bytes := 4 + length ?data\<rparr>"
  have packets: "Tf_ParsePackets ?data (length ?data) (tf_statuses p) (16 + 2 * (length (encoded_chunks p) + 1)) ?p2 =
      Some (True, ?r)"
    using deltas total by (simp add: Tf_ParsePackets_def p1 kHeaderLength_def)
  have size: "\<not> length ?data < kMinPayloadSizeBytes" by (simp add: tf_body_def kMinPayloadSizeBytes_def)
  have fields: "Rtpfb_ParseCommonFeedback ?data q = Some (q\<lparr>sender_ssrc := sender_ssrc p, rtpfb_media_ssrc := rtpfb_media_ssrc p\<rparr>)"
      "ReadBE16 ?data 8 = Some (base_seq_no p)" "ReadBE16 ?data 10 = Some (num_seq_no p)"
      "ReadBE24s ?data 12 = Some (signed_take_bit 23 (base_time_ticks p))" "load ?data 15 = Some (feedback_seq p)"
    by (simp_all add: tf_body_def read_simps be_val_be_bytes signed_take_bit_take_bit take_bit_word_eq_self)
  have "length (tf_statuses p) = unat (num_seq_no p)" using inv(1) by (simp add: tf_inv_def)
  then have "TransportFeedback_Parse q h = Some (True, ?r)"
    unfolding TransportFeedback_Parse_def h Let_def
    using size fields inv(2) chunks packets p1(1)
    by (simp flip: p1_def)
  moreover have "tf_statuses ?r = tf_statuses p" "received_packets ?r = received_packets p"
    using chunks(3) by (simp_all add: tf_statuses_def tf_extend_def p1)
  ultimately show ?thesis by (intro exI [of _ ?r]) (simp add: tf_extend_def p1_def Tf_Clear_def)
qed

subsection \<open>Timestamps\<close>

text \<open>
  Rounding: the recorded delta, in ticks of 250 microseconds, is the true distance from the last
  timestamp up to 125 microseconds and up to whole wrap periods.
\<close>

lemma round_ticks: "\<bar>d - (d + (if d < 0 then - 125 else 125)) sdiv 250 * 250\<bar> \<le> (125 :: int)"
proof -
  have tick: "x div 250 * 250 = x - x mod 250" "0 \<le> x mod 250" "x mod 250 < 250" for x :: int
    by (simp_all add: minus_mod_eq_div_mult)
  show ?thesis
  proof (cases "d < 0")
    case True
    have "(d - 125) sdiv 250 = - ((125 - d) div 250)" using True by (simp add: signed_divide_int_def sgn_if)
    moreover have "\<bar>d + (125 - d) div 250 * 250\<bar> \<le> 125" using tick [of "125 - d"] by linarith
    ultimately show ?thesis using True by simp
  next
    case False
    have "(d + 125) sdiv 250 = (d + 125) div 250" using False by (simp add: signed_divide_int_def sgn_if)
    moreover have "\<bar>d - (d + 125) div 250 * 250\<bar> \<le> 125" using tick [of "d + 125"] by linarith
    ultimately show ?thesis using False by simp
  qed
qed

lemma delta_full_rounds:
  "\<exists>k. \<bar>t - last_us - (k * kTimeWrapPeriodUs + delta_full t last_us * kDeltaScaleFactor)\<bar> \<le> 125"
proof -
  let ?W = kTimeWrapPeriodUs
  define d0 where "d0 = (t - last_us) smod ?W"
  define d where "d = (if d0 > ?W sdiv 2 then d0 - ?W else d0)"
  have half: "kDeltaScaleFactor sdiv 2 = 125" by (simp add: kDeltaScaleFactor_def signed_divide_int_def)
  have df: "delta_full t last_us = (d + (if d < 0 then - 125 else 125)) sdiv 250"
    unfolding delta_full_def Let_def half d_def d0_def by (simp add: kDeltaScaleFactor_def)
  define k where "k = (t - last_us) sdiv ?W + (if d0 > ?W sdiv 2 then 1 else 0)"
  have "t - last_us = (t - last_us) sdiv ?W * ?W + d0" by (simp add: d0_def sdiv_mult_smod_eq)
  then have "t - last_us = k * ?W + d" by (simp add: k_def d_def algebra_simps)
  then have "t - last_us - (k * ?W + delta_full t last_us * kDeltaScaleFactor) = d - delta_full t last_us * 250"
    by (simp add: kDeltaScaleFactor_def)
  then show ?thesis using round_ticks [of d] unfolding df by metis
qed

text \<open>\<open>GetBaseDeltaUs\<close> picks the representative of the distance that is closest to zero.\<close>

lemma GetBaseDeltaUs_spec:
  assumes "\<bar>GetBaseTimeUs p - prev\<bar> \<le> kTimeWrapPeriodUs"
  shows "\<bar>GetBaseDeltaUs p prev\<bar> \<le> kTimeWrapPeriodUs div 2"
    "\<exists>k. GetBaseTimeUs p - prev = GetBaseDeltaUs p prev + k * kTimeWrapPeriodUs"
proof -
  define W where "W = kTimeWrapPeriodUs"
  define d where "d = GetBaseTimeUs p - prev"
  have W: "W = 1073741824000" by (simp add: W_def kTimeWrapPeriodUs_def kBaseScaleFactor_def kDeltaScaleFactor_def)
  have eq: "GetBaseDeltaUs p prev = (if \<bar>d - W\<bar> < \<bar>d\<bar> then d - W else if \<bar>d + W\<bar> < \<bar>d\<bar> then d + W else d)"
    by (simp add: GetBaseDeltaUs_def Let_def W_def d_def)
  have d: "\<bar>d\<bar> \<le> W" using assms by (simp add: d_def W_def)
  show "\<bar>GetBaseDeltaUs p prev\<bar> \<le> kTimeWrapPeriodUs div 2"
    unfolding eq W_def [symmetric] using d W by auto
  have "\<exists>k. d = GetBaseDeltaUs p prev + k * W"
    unfolding eq
    by (cases "\<bar>d - W\<bar> < \<bar>d\<bar>"; cases "\<bar>d + W\<bar> < \<bar>d\<bar>")
      (auto intro: exI [of _ 1] exI [of _ "- 1"] exI [of _ 0])
  then show "\<exists>k. GetBaseTimeUs p - prev = GetBaseDeltaUs p prev + k * kTimeWrapPeriodUs"
    by (simp add: d_def W_def)
qed

end
