(* ===== verification/Rtcp_Compound.thy ===== *)
theory Rtcp_Compound
  imports Rtcp_Reports Rtcp_Extended Rtcp_Session Rtcp_Bitrate Rtcp_Nack Transport_Feedback_Wire
begin

text \<open>
  Compound packets: \<^verbatim>\<open>rtcp_packet/compound_packet.{h,cc}\<close>.  A \<^verbatim>\<open>std::unique_ptr<RtcpPacket>\<close> is a value of
  \<open>rtcp_any\<close>, one constructor per packet class; virtual dispatch is case analysis.  The proofs use
  only the contract \<open>rtcp_creator\<close> that every packet class fulfils.
\<close>

subsection \<open>Dispatch\<close>

datatype 'n rtcp_any =
    AnySenderReport "'n sender_report"
  | AnyReceiverReport receiver_report
  | AnyExtendedJitterReport extended_jitter_report
  | AnyExtendedReports "'n extended_reports"
  | AnySdes sdes
  | AnyBye bye
  | AnyApp app
  | AnyNack nack
  | AnyRapidResyncRequest rapid_resync_request
  | AnyTmmbr tmmbr
  | AnyTmmbn tmmbn
  | AnyTransportFeedback transport_feedback
  | AnyPli pli
  | AnyFir fir
  | AnyRemb remb
  | AnyLossNotification loss_notification
  | AnyCompound "'n rtcp_any list"

text \<open>The loop of \<^verbatim>\<open>CompoundPacket::Create\<close>, for any \<open>Create\<close> of the parts.\<close>

fun create_all ::
    "('p \<Rightarrow> nat \<Rightarrow> bool \<Rightarrow> sink \<Rightarrow> (bool \<times> sink) option) \<Rightarrow> 'p list \<Rightarrow> nat \<Rightarrow> bool \<Rightarrow> sink \<Rightarrow> (bool \<times> sink) option"
where
  "create_all C [] max_length cb st = Some (True, st)"
| "create_all C (p # ps) max_length cb st = do {
     (ok, st) \<leftarrow> C p max_length cb st;
     if \<not> ok then Some (False, st) else create_all C ps max_length cb st
   }"

lemma create_all_cong [fundef_cong]:
  assumes "ps = ps'" "m = m'" "cb = cb'" "st = st'" "\<And>p m cb st. p \<in> set ps' \<Longrightarrow> C p m cb st = C' p m cb st"
  shows "create_all C ps m cb st = create_all C' ps' m' cb' st'"
proof -
  have "create_all C ps' m cb st = create_all C' ps' m cb st" for st
    using assms(5) by (induction ps' arbitrary: st) (auto split: bind_splits intro!: Option.bind_cong)
  then show ?thesis using assms(1-4) by simp
qed

fun Any_Create :: "'n ntp_ops \<Rightarrow> 'n rtcp_any \<Rightarrow> nat \<Rightarrow> bool \<Rightarrow> sink \<Rightarrow> (bool \<times> sink) option" where
  "Any_Create N (AnySenderReport p) max_length cb st = SenderReport_Create N p max_length cb st"
| "Any_Create N (AnyReceiverReport p) max_length cb st = ReceiverReport_Create p max_length cb st"
| "Any_Create N (AnyExtendedJitterReport p) max_length cb st = ExtendedJitterReport_Create p max_length cb st"
| "Any_Create N (AnyExtendedReports p) max_length cb st = ExtendedReports_Create N p max_length cb st"
| "Any_Create N (AnySdes p) max_length cb st = Sdes_Create p max_length cb st"
| "Any_Create N (AnyBye p) max_length cb st = Bye_Create p max_length cb st"
| "Any_Create N (AnyApp p) max_length cb st = App_Create p max_length cb st"
| "Any_Create N (AnyNack p) max_length cb st = Nack_Create p max_length cb st"
| "Any_Create N (AnyRapidResyncRequest p) max_length cb st = RapidResyncRequest_Create p max_length cb st"
| "Any_Create N (AnyTmmbr p) max_length cb st = Tmmbr_Create p max_length cb st"
| "Any_Create N (AnyTmmbn p) max_length cb st = Tmmbn_Create p max_length cb st"
| "Any_Create N (AnyTransportFeedback p) max_length cb st = TransportFeedback_Create p max_length cb st"
| "Any_Create N (AnyPli p) max_length cb st = Pli_Create p max_length cb st"
| "Any_Create N (AnyFir p) max_length cb st = Fir_Create p max_length cb st"
| "Any_Create N (AnyRemb p) max_length cb st = Remb_Create p max_length cb st"
| "Any_Create N (AnyLossNotification p) max_length cb st = LossNotification_Create p max_length cb st"
| "Any_Create N (AnyCompound ps) max_length cb st = create_all (Any_Create N) ps max_length cb st"

fun Any_BlockLength :: "'n rtcp_any \<Rightarrow> nat" where
  "Any_BlockLength (AnySenderReport p) = SenderReport_BlockLength p"
| "Any_BlockLength (AnyReceiverReport p) = ReceiverReport_BlockLength p"
| "Any_BlockLength (AnyExtendedJitterReport p) = ExtendedJitterReport_BlockLength p"
| "Any_BlockLength (AnyExtendedReports p) = ExtendedReports_BlockLength p"
| "Any_BlockLength (AnySdes p) = Sdes_BlockLength p"
| "Any_BlockLength (AnyBye p) = Bye_BlockLength p"
| "Any_BlockLength (AnyApp p) = App_BlockLength p"
| "Any_BlockLength (AnyNack p) = Nack_BlockLength p"
| "Any_BlockLength (AnyRapidResyncRequest p) = RapidResyncRequest_BlockLength p"
| "Any_BlockLength (AnyTmmbr p) = Tmmbr_BlockLength p"
| "Any_BlockLength (AnyTmmbn p) = Tmmbn_BlockLength p"
| "Any_BlockLength (AnyTransportFeedback p) = TransportFeedback_BlockLength p"
| "Any_BlockLength (AnyPli p) = Pli_BlockLength p"
| "Any_BlockLength (AnyFir p) = Fir_BlockLength p"
| "Any_BlockLength (AnyRemb p) = Remb_BlockLength p"
| "Any_BlockLength (AnyLossNotification p) = LossNotification_BlockLength p"
| "Any_BlockLength (AnyCompound ps) = sum_list (map Any_BlockLength ps)"

type_synonym 'n compound_packet = "'n rtcp_any list"

definition Compound_Append :: "'n compound_packet \<Rightarrow> 'n rtcp_any \<Rightarrow> 'n compound_packet" where
  "Compound_Append appended_packets appended = appended_packets @ [appended]"

definition Compound_Create ::
    "'n ntp_ops \<Rightarrow> 'n compound_packet \<Rightarrow> nat \<Rightarrow> bool \<Rightarrow> sink \<Rightarrow> (bool \<times> sink) option" where
  "Compound_Create N appended_packets = create_all (Any_Create N) appended_packets"

definition Compound_BlockLength :: "'n compound_packet \<Rightarrow> nat" where
  "Compound_BlockLength appended_packets = sum_list (map Any_BlockLength appended_packets)"

subsection \<open>Contract\<close>

fun any_valid :: "'n ntp_ops \<Rightarrow> 'n rtcp_any \<Rightarrow> bool" where
  "any_valid N (AnySenderReport p) = (ntp_ok N \<and> sr_valid p)"
| "any_valid N (AnyReceiverReport p) = rr_valid p"
| "any_valid N (AnyExtendedJitterReport p) = ij_valid p"
| "any_valid N (AnyExtendedReports p) = (ntp_ok N \<and> xr_valid p)"
| "any_valid N (AnySdes p) = sdes_valid p"
| "any_valid N (AnyBye p) = bye_valid p"
| "any_valid N (AnyApp p) = app_valid p"
| "any_valid N (AnyNack p) = nack_valid p"
| "any_valid N (AnyRapidResyncRequest p) = True"
| "any_valid N (AnyTmmbr p) = tmmbr_valid p"
| "any_valid N (AnyTmmbn p) = tmmbn_valid p"
| "any_valid N (AnyTransportFeedback p) = tf_valid p"
| "any_valid N (AnyPli p) = True"
| "any_valid N (AnyFir p) = fir_valid p"
| "any_valid N (AnyRemb p) = remb_valid p"
| "any_valid N (AnyLossNotification p) = lntf_valid p"
| "any_valid N (AnyCompound ps) = list_all (any_valid N) ps"

text \<open>The bytes a packet may produce; only NACK has a choice, it may be split.\<close>

fun any_emits :: "'n ntp_ops \<Rightarrow> 'n rtcp_any \<Rightarrow> u8 list \<Rightarrow> bool" where
  "any_emits N (AnySenderReport p) bs = (bs = sr_wire N p)"
| "any_emits N (AnyReceiverReport p) bs = (bs = rr_wire p)"
| "any_emits N (AnyExtendedJitterReport p) bs = (bs = ij_wire p)"
| "any_emits N (AnyExtendedReports p) bs = (bs = xr_wire N p)"
| "any_emits N (AnySdes p) bs = (bs = sdes_wire p)"
| "any_emits N (AnyBye p) bs = (bs = bye_wire p)"
| "any_emits N (AnyApp p) bs = (bs = app_wire p)"
| "any_emits N (AnyNack p) bs = nack_emits p bs"
| "any_emits N (AnyRapidResyncRequest p) bs = (bs = rrr_wire p)"
| "any_emits N (AnyTmmbr p) bs = (bs = tmmbr_wire 3 p)"
| "any_emits N (AnyTmmbn p) bs = (bs = tmmbr_wire 4 p)"
| "any_emits N (AnyTransportFeedback p) bs = (bs = tf_wire p)"
| "any_emits N (AnyPli p) bs = (bs = pli_wire p)"
| "any_emits N (AnyFir p) bs = (bs = fir_wire p)"
| "any_emits N (AnyRemb p) bs = (bs = remb_wire p)"
| "any_emits N (AnyLossNotification p) bs = (bs = lntf_wire p)"
| "any_emits N (AnyCompound ps) bs = (\<exists>bss. list_all2 (any_emits N) ps bss \<and> bs = concat bss)"

text \<open>
  When \<^verbatim>\<open>Create\<close> can succeed: a NACK is split and needs room for its header and one item; any other
  packet has to fit into an empty buffer.
\<close>

fun any_fits :: "nat \<Rightarrow> 'n rtcp_any \<Rightarrow> bool" where
  "any_fits max_length (AnyNack p) = (kNackHeaderLength + kNackItemLength \<le> max_length)"
| "any_fits max_length (AnyCompound ps) = list_all (any_fits max_length) ps"
| "any_fits max_length p = (Any_BlockLength p \<le> max_length)"

text \<open>The loop fulfils the contract whenever the parts do.\<close>

lemma create_all_stream:
  assumes "\<And>p st. p \<in> set ps \<Longrightarrow> sink_ok max_length st \<Longrightarrow>
      \<exists>st'. C p max_length True st = Some (fits p, st') \<and> sink_ok max_length st' \<and>
        (fits p \<longrightarrow> (\<exists>bs. emits p bs \<and> stream st' = stream st @ bs) \<and> (index st' = 0 \<longleftrightarrow> len p = (0 :: nat) \<and> index st = 0))"
    and "sink_ok max_length st"
  shows "\<exists>st'. create_all C ps max_length True st = Some (list_all fits ps, st') \<and> sink_ok max_length st' \<and>
    (list_all fits ps \<longrightarrow> (\<exists>bss. list_all2 emits ps bss \<and> stream st' = stream st @ concat bss) \<and>
      (index st' = 0 \<longleftrightarrow> sum_list (map len ps) = 0 \<and> index st = 0))"
  using assms
proof (induction ps arbitrary: st)
  case Nil
  then show ?case by auto
next
  case (Cons p ps)
  obtain st1 where 1: "C p max_length True st = Some (fits p, st1)" "sink_ok max_length st1"
      "fits p \<longrightarrow> (\<exists>bs. emits p bs \<and> stream st1 = stream st @ bs) \<and> (index st1 = 0 \<longleftrightarrow> len p = 0 \<and> index st = 0)"
    using Cons.prems(1) [OF list.set_intros(1) Cons.prems(2)] by (elim exE conjE) (rule that)
  show ?case
  proof (cases "fits p")
    case False
    with 1 show ?thesis by auto
  next
    case True
    then obtain bs where bs: "emits p bs" "stream st1 = stream st @ bs" using 1(3) by blast
    have "\<exists>st'. create_all C ps max_length True st1 = Some (list_all fits ps, st') \<and> sink_ok max_length st' \<and>
        (list_all fits ps \<longrightarrow> (\<exists>bss. list_all2 emits ps bss \<and> stream st' = stream st1 @ concat bss) \<and>
          (index st' = 0 \<longleftrightarrow> sum_list (map len ps) = 0 \<and> index st1 = 0))"
      by (rule Cons.IH [OF _ 1(2)]) (rule Cons.prems(1) [OF list.set_intros(2)])
    then obtain st2 where 2: "create_all C ps max_length True st1 = Some (list_all fits ps, st2)" "sink_ok max_length st2"
        "list_all fits ps \<longrightarrow> (\<exists>bss. list_all2 emits ps bss \<and> stream st2 = stream st1 @ concat bss) \<and>
          (index st2 = 0 \<longleftrightarrow> sum_list (map len ps) = 0 \<and> index st1 = 0)"
      by (elim exE conjE) (rule that)
    have "\<exists>bss. list_all2 emits (p # ps) bss \<and> stream st2 = stream st @ concat bss" if all: "list_all fits ps"
    proof -
      obtain bss where "list_all2 emits ps bss" "stream st2 = stream st1 @ concat bss" using 2(3) all by blast
      then show ?thesis using bs by (intro exI [of _ "bs # bss"]) simp
    qed
    moreover have "index st2 = 0 \<longleftrightarrow> sum_list (map len (p # ps)) = 0 \<and> index st = 0" if "list_all fits ps"
      using 2(3) 1(3) True that by auto
    ultimately show ?thesis using 1(1) 2(1,2) True by simp
  qed
qed

lemma ex_concat: "(\<exists>bs. (\<exists>bss. P bss \<and> bs = concat bss) \<and> Q bs) \<longleftrightarrow> (\<exists>bss. P bss \<and> Q (concat bss))"
  by blast

lemma Any_Create_stream:
  "any_valid N p \<Longrightarrow> sink_ok max_length st \<Longrightarrow>
    \<exists>st'. Any_Create N p max_length True st = Some (any_fits max_length p, st') \<and> sink_ok max_length st' \<and>
      (any_fits max_length p \<longrightarrow> (\<exists>bs. any_emits N p bs \<and> stream st' = stream st @ bs) \<and>
        (index st' = 0 \<longleftrightarrow> Any_BlockLength p = 0 \<and> index st = 0))"
proof (induction p arbitrary: st)
  case (AnyCompound ps)
  have "\<exists>st'. create_all (Any_Create N) ps max_length True st = Some (list_all (any_fits max_length) ps, st') \<and>
      sink_ok max_length st' \<and>
    (list_all (any_fits max_length) ps \<longrightarrow> (\<exists>bss. list_all2 (any_emits N) ps bss \<and> stream st' = stream st @ concat bss) \<and>
      (index st' = 0 \<longleftrightarrow> sum_list (map Any_BlockLength ps) = 0 \<and> index st = 0))"
  proof (rule create_all_stream [OF _ AnyCompound.prems(2)])
    fix p st
    assume "p \<in> set ps" "sink_ok max_length st"
    moreover from this have "any_valid N p" using AnyCompound.prems(1) by (simp add: list_all_iff)
    ultimately show "\<exists>st'. Any_Create N p max_length True st = Some (any_fits max_length p, st') \<and> sink_ok max_length st' \<and>
      (any_fits max_length p \<longrightarrow> (\<exists>bs. any_emits N p bs \<and> stream st' = stream st @ bs) \<and>
        (index st' = 0 \<longleftrightarrow> Any_BlockLength p = 0 \<and> index st = 0))"
      by (intro AnyCompound.IH)
  qed
  then show ?case
    by (simp only: Any_Create.simps any_emits.simps any_fits.simps Any_BlockLength.simps ex_concat)
next
  case (AnyNack p)
  then show ?case using nack.Create_stream [of p max_length st] by (simp add: nack_lengths)
qed (simp_all only: Any_Create.simps any_valid.simps any_emits.simps any_fits.simps Any_BlockLength.simps,
    (rule sr.creator.Create_stream rr.creator.Create_stream ij.creator.Create_stream xr.creator.Create_stream
      sdes.creator.Create_stream bye.creator.Create_stream app.creator.Create_stream
      rrr.creator.Create_stream tmmbr.creator.Create_stream tmmbn.creator.Create_stream
      tf.creator.Create_stream pli.creator.Create_stream fir.creator.Create_stream
      remb.creator.Create_stream lntf.creator.Create_stream; simp)+)

interpretation any: rtcp_creator Any_BlockLength "Any_Create N" "any_valid N" "any_emits N"
    "\<lambda>p max_length. any_fits max_length p" for N :: "'n ntp_ops"
  by unfold_locales (rule Any_Create_stream)

interpretation compound: rtcp_creator Compound_BlockLength "Compound_Create N" "list_all (any_valid N)"
    "\<lambda>ps bs. \<exists>bss. list_all2 (any_emits N) ps bss \<and> bs = concat bss"
    "\<lambda>ps max_length. list_all (any_fits max_length) ps" for N :: "'n ntp_ops"
proof unfold_locales
  fix ps :: "'n compound_packet" and max_length st
  assume "list_all (any_valid N) ps" "sink_ok max_length st"
  then show "\<exists>st'. Compound_Create N ps max_length True st = Some (list_all (any_fits max_length) ps, st') \<and>
      sink_ok max_length st' \<and>
      (list_all (any_fits max_length) ps \<longrightarrow>
        (\<exists>bs. (\<exists>bss. list_all2 (any_emits N) ps bss \<and> bs = concat bss) \<and> stream st' = stream st @ bs) \<and>
        (index st' = 0 \<longleftrightarrow> Compound_BlockLength ps = 0 \<and> index st = 0))"
    using any.Create_stream [of N "AnyCompound ps" max_length st]
    by (simp add: Compound_Create_def Compound_BlockLength_def)
qed

text \<open>
  A packet that is neither a NACK nor a compound packet is handed to the callback in one piece, or
  not at all.
\<close>

lemma Any_Create_virtual:
  "Any_Create N (AnySenderReport sr_p) = SenderReport_Create N sr_p"
  "Any_Create N (AnyReceiverReport rr_p) = ReceiverReport_Create rr_p"
  "Any_Create N (AnyExtendedJitterReport ij_p) = ExtendedJitterReport_Create ij_p"
  "Any_Create N (AnyExtendedReports xr_p) = ExtendedReports_Create N xr_p"
  "Any_Create N (AnySdes sdes_p) = Sdes_Create sdes_p"
  "Any_Create N (AnyBye bye_p) = Bye_Create bye_p"
  "Any_Create N (AnyApp app_p) = App_Create app_p"
  "Any_Create N (AnyRapidResyncRequest rrr_p) = RapidResyncRequest_Create rrr_p"
  "Any_Create N (AnyTmmbr tmmbr_p) = Tmmbr_Create tmmbr_p"
  "Any_Create N (AnyTmmbn tmmbn_p) = Tmmbn_Create tmmbn_p"
  "Any_Create N (AnyTransportFeedback tf_p) = TransportFeedback_Create tf_p"
  "Any_Create N (AnyPli pli_p) = Pli_Create pli_p"
  "Any_Create N (AnyFir fir_p) = Fir_Create fir_p"
  "Any_Create N (AnyRemb remb_p) = Remb_Create remb_p"
  "Any_Create N (AnyLossNotification lntf_p) = LossNotification_Create lntf_p"
  by (intro ext, simp only: Any_Create.simps)+

lemma Any_BuildCallback:
  assumes "any_valid N p" "max_length \<le> IP_PACKET_SIZE" "\<forall>q. p \<noteq> AnyNack q" "\<forall>ps. p \<noteq> AnyCompound ps"
  shows "\<exists>bytes. Build (Any_Create N p) (Any_BlockLength p) fill = Some bytes \<and> length bytes = Any_BlockLength p \<and>
    BuildCallback (Any_Create N p) max_length fill =
      (if Any_BlockLength p \<le> max_length then Some (True, [bytes]) else Some (False, []))"
  using assms
proof (cases p)
  case (AnyNack q)
  with assms(3) show ?thesis by blast
next
  case (AnyCompound ps)
  with assms(4) show ?thesis by blast
qed (simp_all only: Any_Create_virtual any_valid.simps Any_BlockLength.simps,
    (rule sr.one_piece rr.one_piece ij.one_piece xr.one_piece sdes.one_piece bye.one_piece app.one_piece
      rrr.one_piece tmmbr.one_piece tmmbn.one_piece tf.one_piece pli.one_piece fir.one_piece
      remb.one_piece lntf.one_piece; simp)+)

end
