(* ===== verification/Http_Parser.thy ===== *)
theory Http_Parser
  imports Rtc_Prelude
begin

text \<open>
  The incremental parser of HTTP requests of the signalling server:
  \<^verbatim>\<open>signal_server/request_parser.cpp\<close>, \<^verbatim>\<open>request_parser.hpp\<close>, \<^verbatim>\<open>request.hpp\<close>, \<^verbatim>\<open>header.hpp\<close>.

  The parser is a state machine that is fed one character at a time.  \<open>None\<close> stands for undefined
  behaviour: overflow of a signed \<^verbatim>\<open>int\<close>, or \<^verbatim>\<open>back()\<close> of an empty vector.
\<close>

subsection \<open>Characters\<close>

text \<open>
  A \<^verbatim>\<open>char\<close> passed as an \<^verbatim>\<open>int\<close>.  It is taken as signed; the tests below give the same result when
  it is unsigned, since they only accept values from 0 to 127.
\<close>

definition char_int :: "char \<Rightarrow> int" where
  "char_int c = (let n = of_char c in if n < 128 then n else n - 256)"

definition is_char :: "int \<Rightarrow> bool" where
  "is_char c \<longleftrightarrow> c \<ge> 0 \<and> c \<le> 127"

definition is_ctl :: "int \<Rightarrow> bool" where
  "is_ctl c \<longleftrightarrow> (c \<ge> 0 \<and> c \<le> 31) \<or> c = 127"

definition is_tspecial :: "int \<Rightarrow> bool" where
  "is_tspecial c \<longleftrightarrow> c \<in> set (map char_int
     (''()<>@,;:'' @ [CHR 0x5C, CHR 0x22] @ ''/[]?={} '' @ [CHR 0x09]))"

definition is_digit :: "int \<Rightarrow> bool" where
  "is_digit c \<longleftrightarrow> c \<ge> char_int (CHR ''0'') \<and> c \<le> char_int (CHR ''9'')"

subsection \<open>Request and parser state\<close>

record header =
  hdr_name :: string
  hdr_value :: string

record request =
  req_method :: string
  req_uri :: string
  http_version_major :: int
  http_version_minor :: int
  req_headers :: "header list"

datatype result_type = Good | Bad | Indeterminate

datatype parser_state =
    St_method_start
  | St_method
  | St_uri
  | St_http_version_h
  | St_http_version_t_1
  | St_http_version_t_2
  | St_http_version_p
  | St_http_version_slash
  | St_http_version_major_start
  | St_http_version_major
  | St_http_version_minor_start
  | St_http_version_minor
  | St_expecting_newline_1
  | St_header_line_start
  | St_header_lws
  | St_header_name
  | St_space_before_header_value
  | St_header_value
  | St_expecting_newline_2
  | St_expecting_newline_3

definition request_parser_new :: parser_state where
  "request_parser_new = St_method_start"

definition reset :: "parser_state \<Rightarrow> parser_state" where
  "reset st = St_method_start"

text \<open>A \<^verbatim>\<open>request\<close> as it is constructed: the version numbers are not initialised.\<close>

definition request_new :: "int \<Rightarrow> int \<Rightarrow> request" where
  "request_new major minor = \<lparr>req_method = [], req_uri = [], http_version_major = major,
     http_version_minor = minor, req_headers = []\<rparr>"

definition header_new :: header where
  "header_new = \<lparr>hdr_name = [], hdr_value = []\<rparr>"

subsection \<open>One character\<close>

text \<open>Arithmetic on \<^verbatim>\<open>int\<close>, undefined on overflow.\<close>

definition int_fits :: "int \<Rightarrow> int option" where
  "int_fits i = (if - (2 ^ 31) \<le> i \<and> i < 2 ^ 31 then Some i else None)"

text \<open>\<^verbatim>\<open>version * 10 + input - '0'\<close>\<close>

definition push_digit :: "int \<Rightarrow> char \<Rightarrow> int option" where
  "push_digit version input = do {
     a \<leftarrow> int_fits (version * 10);
     b \<leftarrow> int_fits (a + char_int input);
     int_fits (b - char_int (CHR ''0''))
   }"

text \<open>A change of \<^verbatim>\<open>req.headers.back()\<close>.\<close>

definition back_update :: "(header \<Rightarrow> header) \<Rightarrow> request \<Rightarrow> request option" where
  "back_update f req =
     (if req_headers req = [] then None
      else Some (req\<lparr>req_headers := butlast (req_headers req) @ [f (last (req_headers req))]\<rparr>))"

definition name_push_back :: "char \<Rightarrow> header \<Rightarrow> header" where
  "name_push_back c h = h\<lparr>hdr_name := hdr_name h @ [c]\<rparr>"

definition value_push_back :: "char \<Rightarrow> header \<Rightarrow> header" where
  "value_push_back c h = h\<lparr>hdr_value := hdr_value h @ [c]\<rparr>"

definition expect :: "char \<Rightarrow> parser_state \<Rightarrow> parser_state \<Rightarrow> request \<Rightarrow> char \<Rightarrow>
    (result_type \<times> parser_state \<times> request) option" where
  "expect c st next_st req input =
     Some (if input = c then (Indeterminate, next_st, req) else (Bad, st, req))"

fun consume :: "parser_state \<Rightarrow> request \<Rightarrow> char \<Rightarrow> (result_type \<times> parser_state \<times> request) option" where
  "consume St_method_start req input =
     (let c = char_int input in
      if \<not> is_char c \<or> is_ctl c \<or> is_tspecial c then Some (Bad, St_method_start, req)
      else Some (Indeterminate, St_method, req\<lparr>req_method := req_method req @ [input]\<rparr>))"
| "consume St_method req input =
     (let c = char_int input in
      if input = CHR '' '' then Some (Indeterminate, St_uri, req)
      else if \<not> is_char c \<or> is_ctl c \<or> is_tspecial c then Some (Bad, St_method, req)
      else Some (Indeterminate, St_method, req\<lparr>req_method := req_method req @ [input]\<rparr>))"
| "consume St_uri req input =
     (if input = CHR '' '' then Some (Indeterminate, St_http_version_h, req)
      else if is_ctl (char_int input) then Some (Bad, St_uri, req)
      else Some (Indeterminate, St_uri, req\<lparr>req_uri := req_uri req @ [input]\<rparr>))"
| "consume St_http_version_h req input = expect (CHR ''H'') St_http_version_h St_http_version_t_1 req input"
| "consume St_http_version_t_1 req input = expect (CHR ''T'') St_http_version_t_1 St_http_version_t_2 req input"
| "consume St_http_version_t_2 req input = expect (CHR ''T'') St_http_version_t_2 St_http_version_p req input"
| "consume St_http_version_p req input = expect (CHR ''P'') St_http_version_p St_http_version_slash req input"
| "consume St_http_version_slash req input =
     (if input = CHR ''/''
      then Some (Indeterminate, St_http_version_major_start, req\<lparr>http_version_major := 0, http_version_minor := 0\<rparr>)
      else Some (Bad, St_http_version_slash, req))"
| "consume St_http_version_major_start req input =
     (if is_digit (char_int input) then do {
        v \<leftarrow> push_digit (http_version_major req) input;
        Some (Indeterminate, St_http_version_major, req\<lparr>http_version_major := v\<rparr>)
      } else Some (Bad, St_http_version_major_start, req))"
| "consume St_http_version_major req input =
     (if input = CHR ''.'' then Some (Indeterminate, St_http_version_minor_start, req)
      else if is_digit (char_int input) then do {
        v \<leftarrow> push_digit (http_version_major req) input;
        Some (Indeterminate, St_http_version_major, req\<lparr>http_version_major := v\<rparr>)
      } else Some (Bad, St_http_version_major, req))"
| "consume St_http_version_minor_start req input =
     (if is_digit (char_int input) then do {
        v \<leftarrow> push_digit (http_version_minor req) input;
        Some (Indeterminate, St_http_version_minor, req\<lparr>http_version_minor := v\<rparr>)
      } else Some (Bad, St_http_version_minor_start, req))"
| "consume St_http_version_minor req input =
     (if input = CHR 0x0D then Some (Indeterminate, St_expecting_newline_1, req)
      else if is_digit (char_int input) then do {
        v \<leftarrow> push_digit (http_version_minor req) input;
        Some (Indeterminate, St_http_version_minor, req\<lparr>http_version_minor := v\<rparr>)
      } else Some (Bad, St_http_version_minor, req))"
| "consume St_expecting_newline_1 req input = expect (CHR 0x0A) St_expecting_newline_1 St_header_line_start req input"
| "consume St_header_line_start req input =
     (let c = char_int input in
      if input = CHR 0x0D then Some (Indeterminate, St_expecting_newline_3, req)
      else if req_headers req \<noteq> [] \<and> (input = CHR '' '' \<or> input = CHR 0x09)
      then Some (Indeterminate, St_header_lws, req)
      else if \<not> is_char c \<or> is_ctl c \<or> is_tspecial c then Some (Bad, St_header_line_start, req)
      else do {
        req \<leftarrow> back_update (name_push_back input) (req\<lparr>req_headers := req_headers req @ [header_new]\<rparr>);
        Some (Indeterminate, St_header_name, req)
      })"
| "consume St_header_lws req input =
     (if input = CHR 0x0D then Some (Indeterminate, St_expecting_newline_2, req)
      else if input = CHR '' '' \<or> input = CHR 0x09 then Some (Indeterminate, St_header_lws, req)
      else if is_ctl (char_int input) then Some (Bad, St_header_lws, req)
      else do {
        req \<leftarrow> back_update (value_push_back input) req;
        Some (Indeterminate, St_header_value, req)
      })"
| "consume St_header_name req input =
     (let c = char_int input in
      if input = CHR '':'' then Some (Indeterminate, St_space_before_header_value, req)
      else if \<not> is_char c \<or> is_ctl c \<or> is_tspecial c then Some (Bad, St_header_name, req)
      else do {
        req \<leftarrow> back_update (name_push_back input) req;
        Some (Indeterminate, St_header_name, req)
      })"
| "consume St_space_before_header_value req input =
     expect (CHR '' '') St_space_before_header_value St_header_value req input"
| "consume St_header_value req input =
     (if input = CHR 0x0D then Some (Indeterminate, St_expecting_newline_2, req)
      else if is_ctl (char_int input) then Some (Bad, St_header_value, req)
      else do {
        req \<leftarrow> back_update (value_push_back input) req;
        Some (Indeterminate, St_header_value, req)
      })"
| "consume St_expecting_newline_2 req input = expect (CHR 0x0A) St_expecting_newline_2 St_header_line_start req input"
| "consume St_expecting_newline_3 req input =
     Some (if input = CHR 0x0A then Good else Bad, St_expecting_newline_3, req)"

subsection \<open>A buffer\<close>

fun parse :: "parser_state \<Rightarrow> request \<Rightarrow> string \<Rightarrow> (result_type \<times> string \<times> parser_state \<times> request) option" where
  "parse st req [] = Some (Indeterminate, [], st, req)"
| "parse st req (c # cs) = do {
     (result, st, req) \<leftarrow> consume st req c;
     if result = Good \<or> result = Bad then Some (result, cs, st, req)
     else parse st req cs
   }"

text \<open>Parsing in pieces is parsing the whole.\<close>

lemma parse_append:
  "parse st req (xs @ ys) = do {
     (result, rest, st', req') \<leftarrow> parse st req xs;
     if result = Indeterminate then parse st' req' ys else Some (result, rest @ ys, st', req')
   }"
proof (induction xs arbitrary: st req)
  case (Cons c xs)
  show ?case
  proof (cases "consume st req c")
    case (Some r)
    obtain result st' req' where "r = (result, st', req')" by (cases r)
    with Some Cons show ?thesis by (cases result) simp_all
  qed simp
qed simp

subsection \<open>Well-formed requests\<close>

abbreviation token_char :: "char \<Rightarrow> bool" where
  "token_char c \<equiv> is_char (char_int c) \<and> \<not> is_ctl (char_int c) \<and> \<not> is_tspecial (char_int c)"

definition wf_token :: "string \<Rightarrow> bool" where
  "wf_token s \<longleftrightarrow> s \<noteq> [] \<and> list_all token_char s"

definition wf_text :: "string \<Rightarrow> bool" where
  "wf_text s \<longleftrightarrow> list_all (\<lambda>c. \<not> is_ctl (char_int c)) s"

definition wf_http_header :: "header \<Rightarrow> bool" where
  "wf_http_header h \<longleftrightarrow> wf_token (hdr_name h) \<and> wf_text (hdr_value h)"

definition wf_request :: "request \<Rightarrow> bool" where
  "wf_request r \<longleftrightarrow> wf_token (req_method r) \<and> wf_text (req_uri r) \<and> CHR '' '' \<notin> set (req_uri r) \<and>
     0 \<le> http_version_major r \<and> 0 \<le> http_version_minor r \<and> list_all wf_http_header (req_headers r)"

lemma wf_token_simps [simp]:
  "wf_token [c] \<longleftrightarrow> token_char c"
  "wf_token (s @ [c]) \<longleftrightarrow> (s = [] \<or> wf_token s) \<and> token_char c"
  "\<not> wf_token []"
  by (auto simp: wf_token_def)

lemma wf_text_simps [simp]:
  "wf_text []" "wf_text (s @ t) \<longleftrightarrow> wf_text s \<and> wf_text t" "wf_text (c # s) \<longleftrightarrow> \<not> is_ctl (char_int c) \<and> wf_text s"
  by (simp_all add: wf_text_def)

lemmas delimiters = is_char_def is_ctl_def is_tspecial_def is_digit_def char_int_def

lemma not_token [simp]:
  "\<not> token_char (CHR '' '')" "\<not> token_char (CHR '':'')" "\<not> token_char (CHR 0x0D)" "\<not> token_char (CHR 0x0A)"
  "\<not> token_char (CHR 0x09)" "is_ctl (char_int (CHR 0x0D))" "is_ctl (char_int (CHR 0x0A))"
  by code_simp+

lemma token_neq: "token_char c \<Longrightarrow> c \<noteq> CHR '' '' \<and> c \<noteq> CHR '':'' \<and> c \<noteq> CHR 0x0D \<and> c \<noteq> CHR 0x09"
  using not_token by metis

lemma text_neq: "\<not> is_ctl (char_int c) \<Longrightarrow> c \<noteq> CHR 0x0D"
  using not_token by metis

subsection \<open>What the parser accepts is well formed\<close>

text \<open>
  The states in which the request is complete up to some point.  Headers that are being read have a
  name already; the version numbers are numbers once the slash has been read.
\<close>

definition past_slash :: "parser_state \<Rightarrow> bool" where
  "past_slash st \<longleftrightarrow> st \<notin> {St_method_start, St_method, St_uri, St_http_version_h, St_http_version_t_1,
     St_http_version_t_2, St_http_version_p, St_http_version_slash}"

definition in_header :: "parser_state \<Rightarrow> bool" where
  "in_header st \<longleftrightarrow> st \<in> {St_header_lws, St_header_name, St_space_before_header_value, St_header_value}"

definition parser_inv :: "parser_state \<Rightarrow> request \<Rightarrow> bool" where
  "parser_inv st r \<longleftrightarrow> (if st = St_method_start then req_method r = [] else wf_token (req_method r)) \<and>
     wf_text (req_uri r) \<and> CHR '' '' \<notin> set (req_uri r) \<and> list_all wf_http_header (req_headers r) \<and>
     (past_slash st \<longrightarrow> 0 \<le> http_version_major r \<and> 0 \<le> http_version_minor r) \<and>
     (in_header st \<longrightarrow> req_headers r \<noteq> [])"

lemma parser_inv_new: "parser_inv request_parser_new (request_new major minor)"
  by (simp add: parser_inv_def request_parser_new_def request_new_def past_slash_def in_header_def)

lemma digit_int: "is_digit (char_int c) \<Longrightarrow> 48 \<le> char_int c \<and> char_int c \<le> 57"
  by (simp add: is_digit_def char_int_def)

lemma push_digit_nonneg: "push_digit v c = Some w \<Longrightarrow> is_digit (char_int c) \<Longrightarrow> 0 \<le> v \<Longrightarrow> 0 \<le> w"
  using digit_int [of c] by (auto simp: push_digit_def int_fits_def char_int_def split: bind_splits if_splits)

lemma list_all_split_last: "xs \<noteq> [] \<Longrightarrow> list_all P xs \<longleftrightarrow> list_all P (butlast xs) \<and> P (last xs)"
  by (induction xs rule: rev_induct) simp_all

lemma back_update_wf:
  assumes "back_update f req = Some req'" "list_all wf_http_header (req_headers req)"
    and "\<And>h. wf_http_header h \<Longrightarrow> wf_http_header (f h)"
  shows "\<exists>hs. req' = req\<lparr>req_headers := hs\<rparr> \<and> hs \<noteq> [] \<and> list_all wf_http_header hs"
  using assms list_all_split_last [of "req_headers req" wf_http_header]
  by (auto simp: back_update_def split: if_splits)

lemma push_back_wf:
  "token_char c \<Longrightarrow> wf_http_header h \<Longrightarrow> wf_http_header (name_push_back c h)"
  "\<not> is_ctl (char_int c) \<Longrightarrow> wf_http_header h \<Longrightarrow> wf_http_header (value_push_back c h)"
  by (auto simp: wf_http_header_def name_push_back_def value_push_back_def wf_token_def)

lemma name_update_wf:
  "token_char c \<Longrightarrow> back_update (name_push_back c) req = Some req' \<Longrightarrow> list_all wf_http_header (req_headers req) \<Longrightarrow>
     \<exists>hs. req' = req\<lparr>req_headers := hs\<rparr> \<and> hs \<noteq> [] \<and> list_all wf_http_header hs"
  using back_update_wf push_back_wf(1) by blast

lemma value_update_wf:
  "\<not> is_ctl (char_int c) \<Longrightarrow> back_update (value_push_back c) req = Some req' \<Longrightarrow>
     list_all wf_http_header (req_headers req) \<Longrightarrow>
     \<exists>hs. req' = req\<lparr>req_headers := hs\<rparr> \<and> hs \<noteq> [] \<and> list_all wf_http_header hs"
  using back_update_wf push_back_wf(2) by blast

lemma new_header_wf:
  assumes "token_char c" "list_all wf_http_header (req_headers req)"
    and "back_update (name_push_back c) (req\<lparr>req_headers := req_headers req @ [header_new]\<rparr>) = Some req'"
  shows "\<exists>hs. req' = req\<lparr>req_headers := hs\<rparr> \<and> hs \<noteq> [] \<and> list_all wf_http_header hs"
  using assms by (auto simp: back_update_def header_new_def name_push_back_def wf_http_header_def)

lemma consume_inv:
  assumes "parser_inv st req" "consume st req c = Some (r, st', req')"
  shows "parser_inv st' req' \<and> (r = Good \<longrightarrow> wf_request req')"
proof (cases st)
  case St_header_line_start
  then show ?thesis
    using assms new_header_wf [of c req]
    by (fastforce simp: parser_inv_def past_slash_def in_header_def Let_def split: if_splits bind_splits)
next
  case St_header_lws
  then show ?thesis
    using assms value_update_wf [of c req]
    by (fastforce simp: parser_inv_def past_slash_def in_header_def split: if_splits bind_splits)
next
  case St_header_name
  then show ?thesis
    using assms name_update_wf [of c req]
    by (fastforce simp: parser_inv_def past_slash_def in_header_def Let_def split: if_splits bind_splits)
next
  case St_header_value
  then show ?thesis
    using assms value_update_wf [of c req]
    by (fastforce simp: parser_inv_def past_slash_def in_header_def split: if_splits bind_splits)
qed (use assms push_digit_nonneg in \<open>auto simp: parser_inv_def past_slash_def in_header_def expect_def
    wf_request_def Let_def split: if_splits bind_splits\<close>)

lemma parse_inv:
  "parser_inv st req \<Longrightarrow> parse st req cs = Some (r, rest, st', req') \<Longrightarrow>
     parser_inv st' req' \<and> (r = Good \<longrightarrow> wf_request req')"
proof (induction cs arbitrary: st req)
  case (Cons c cs)
  from Cons.prems(2) obtain r1 st1 req1 where 1: "consume st req c = Some (r1, st1, req1)"
    by (auto split: bind_splits)
  from consume_inv [OF Cons.prems(1) 1] Cons.IH [of st1 req1] Cons.prems(2) 1 show ?case
    by (auto split: if_splits)
qed simp

text \<open>The only undefined behaviour is the overflow of a version number.\<close>

lemma push_digit_None:
  assumes "push_digit v c = None" "is_digit (char_int c)" "0 \<le> v"
  shows "2 ^ 31 \<le> v * 10 + char_int c"
  using assms digit_int [OF assms(2)]
  by (auto simp: push_digit_def int_fits_def char_int_def split: bind_splits if_splits)

lemma consume_None:
  assumes "parser_inv st req" "consume st req c = None"
  shows "is_digit (char_int c) \<and>
    (st \<in> {St_http_version_major_start, St_http_version_major} \<and> 2 ^ 31 \<le> http_version_major req * 10 + char_int c \<or>
     st \<in> {St_http_version_minor_start, St_http_version_minor} \<and> 2 ^ 31 \<le> http_version_minor req * 10 + char_int c)"
  using assms push_digit_None [of _ c]
  by (cases st) (auto simp: parser_inv_def past_slash_def in_header_def expect_def back_update_def Let_def
      split: if_splits bind_splits)

subsection \<open>Every well-formed request is accepted\<close>

definition digit :: "nat \<Rightarrow> char" where
  "digit d = char_of (48 + d)"

fun decimal :: "nat \<Rightarrow> string" where
  "decimal n = (if n < 10 then [digit n] else decimal (n div 10) @ [digit (n mod 10)])"

declare decimal.simps [simp del]

definition print_header :: "header \<Rightarrow> string" where
  "print_header h = hdr_name h @ '': '' @ hdr_value h @ [CHR 0x0D, CHR 0x0A]"

definition print_request :: "request \<Rightarrow> string" where
  "print_request r = req_method r @ '' '' @ req_uri r @ '' HTTP/'' @ decimal (nat (http_version_major r)) @ ''.'' @
     decimal (nat (http_version_minor r)) @ [CHR 0x0D, CHR 0x0A] @ concat (map print_header (req_headers r)) @
     [CHR 0x0D, CHR 0x0A]"

lemma char_int_of: "n < 128 \<Longrightarrow> char_int (char_of n) = int n" for n :: nat
proof -
  assume n: "n < 128"
  have "of_char (char_of n) = int (of_char (char_of n) :: nat)" by (simp only: of_nat_of_char)
  also have "\<dots> = int n" using n by (simp only: of_char_of) simp
  finally show ?thesis using n by (simp add: char_int_def)
qed

lemma char_int_digit: "d < 10 \<Longrightarrow> char_int (digit d) = 48 + int d"
  unfolding digit_def by (subst char_int_of) simp_all

lemma is_digit_digit [simp]: "d < 10 \<Longrightarrow> is_digit (char_int (digit d))"
  by (simp add: char_int_digit is_digit_def) (simp add: char_int_def)

lemma push_digit_digit:
  "d < 10 \<Longrightarrow> v * 10 + d + 48 < 2 ^ 31 \<Longrightarrow> push_digit (int v) (digit d) = Some (int (v * 10 + d))"
  by (simp add: push_digit_def char_int_digit int_fits_def) (simp add: char_int_def)

lemma digit_neq: "d < 10 \<Longrightarrow> digit d \<noteq> CHR ''.'' \<and> digit d \<noteq> CHR 0x0D"
proof -
  assume "d < 10"
  moreover have "char_int (CHR ''.'') = 46" "char_int (CHR 0x0D) = 13" by (simp_all add: char_int_def)
  ultimately show ?thesis using char_int_digit [of d] by auto
qed

text \<open>
  Reading a decimal number, for the major and the minor version alike: \<open>s0\<close> is the state before the
  first digit, \<open>s1\<close> the state behind a digit, \<open>setv v\<close> the request with \<open>v\<close> read so far.
\<close>

lemma parse_decimal:
  assumes start: "\<And>d cs. d < 10 \<Longrightarrow> parse s0 (setv 0) (digit d # cs) = parse s1 (setv (int d)) cs"
    and more: "\<And>v d cs. d < 10 \<Longrightarrow> v * 10 + d + 48 < 2 ^ 31 \<Longrightarrow>
      parse s1 (setv (int v)) (digit d # cs) = parse s1 (setv (int (v * 10 + d))) cs"
  shows "n + 48 < 2 ^ 31 \<Longrightarrow> parse s0 (setv 0) (decimal n @ cs) = parse s1 (setv (int n)) cs"
proof (induction n arbitrary: cs rule: decimal.induct)
  case (1 n)
  show ?case
  proof (cases "n < 10")
    case True
    then show ?thesis by (simp add: decimal.simps [of n] start del: parse.simps)
  next
    case False
    have n: "n div 10 * 10 + n mod 10 = n" by simp
    have "parse s0 (setv 0) (decimal n @ cs) = parse s0 (setv 0) (decimal (n div 10) @ digit (n mod 10) # cs)"
      using False by (subst decimal.simps) simp
    also have "\<dots> = parse s1 (setv (int (n div 10))) (digit (n mod 10) # cs)"
      using False "1.prems" by (intro "1.IH") simp_all
    also have "\<dots> = parse s1 (setv (int (n div 10 * 10 + n mod 10))) cs"
      using "1.prems" by (intro more) (simp, simp only: n)
    finally show ?thesis by (simp only: n)
  qed
qed

lemma parse_major:
  assumes "n + 48 < 2 ^ 31"
  shows "parse St_http_version_major_start (req\<lparr>http_version_major := 0\<rparr>) (decimal n @ cs) =
    parse St_http_version_major (req\<lparr>http_version_major := int n\<rparr>) cs"
  using assms
proof (rule parse_decimal [rotated 2])
  fix d cs assume "(d :: nat) < 10"
  then show "parse St_http_version_major_start (req\<lparr>http_version_major := 0\<rparr>) (digit d # cs) =
      parse St_http_version_major (req\<lparr>http_version_major := int d\<rparr>) cs"
    using push_digit_digit [of d 0] by simp
next
  fix v d cs assume "(d :: nat) < 10" "v * 10 + d + 48 < 2 ^ 31"
  then show "parse St_http_version_major (req\<lparr>http_version_major := int v\<rparr>) (digit d # cs) =
      parse St_http_version_major (req\<lparr>http_version_major := int (v * 10 + d)\<rparr>) cs"
    using push_digit_digit [of d v] digit_neq [of d] by simp
qed

lemma parse_minor:
  assumes "n + 48 < 2 ^ 31"
  shows "parse St_http_version_minor_start (req\<lparr>http_version_minor := 0\<rparr>) (decimal n @ cs) =
    parse St_http_version_minor (req\<lparr>http_version_minor := int n\<rparr>) cs"
  using assms
proof (rule parse_decimal [rotated 2])
  fix d cs assume "(d :: nat) < 10"
  then show "parse St_http_version_minor_start (req\<lparr>http_version_minor := 0\<rparr>) (digit d # cs) =
      parse St_http_version_minor (req\<lparr>http_version_minor := int d\<rparr>) cs"
    using push_digit_digit [of d 0] by simp
next
  fix v d cs assume "(d :: nat) < 10" "v * 10 + d + 48 < 2 ^ 31"
  then show "parse St_http_version_minor (req\<lparr>http_version_minor := int v\<rparr>) (digit d # cs) =
      parse St_http_version_minor (req\<lparr>http_version_minor := int (v * 10 + d)\<rparr>) cs"
    using push_digit_digit [of d v] digit_neq [of d] by simp
qed

lemma parse_method_rest:
  "list_all token_char s \<Longrightarrow> parse St_method req (s @ cs) = parse St_method (req\<lparr>req_method := req_method req @ s\<rparr>) cs"
proof (induction s arbitrary: req)
  case (Cons c s)
  then show ?case using token_neq [of c] by (simp add: Let_def)
qed simp

lemma parse_method:
  assumes "wf_token s"
  shows "parse St_method_start req (s @ '' '' @ cs) = parse St_uri (req\<lparr>req_method := req_method req @ s\<rparr>) cs"
proof (cases s)
  case (Cons c s')
  with assms parse_method_rest [of s' "req\<lparr>req_method := req_method req @ [c]\<rparr>" "'' '' @ cs"] show ?thesis
    by (simp add: wf_token_def)
qed (use assms in simp)

lemma parse_uri:
  "wf_text s \<Longrightarrow> CHR '' '' \<notin> set s \<Longrightarrow>
     parse St_uri req (s @ '' HTTP/'' @ cs) = parse St_http_version_major_start
       (req\<lparr>req_uri := req_uri req @ s, http_version_major := 0, http_version_minor := 0\<rparr>) cs"
  by (induction s arbitrary: req) (auto simp: expect_def)

lemma back_update_snoc [simp]:
  "back_update f (req\<lparr>req_headers := hs @ [h]\<rparr>) = Some (req\<lparr>req_headers := hs @ [f h]\<rparr>)"
  by (simp add: back_update_def)

lemma parse_header_name:
  "list_all token_char s \<Longrightarrow> parse St_header_name (req\<lparr>req_headers := hs @ [h]\<rparr>) (s @ '': '' @ cs) =
     parse St_header_value (req\<lparr>req_headers := hs @ [h\<lparr>hdr_name := hdr_name h @ s\<rparr>]\<rparr>) cs"
proof (induction s arbitrary: h)
  case Nil
  then show ?case by (simp add: expect_def)
next
  case (Cons c s)
  then show ?case using token_neq [of c] by (simp add: name_push_back_def)
qed

lemma parse_header_value:
  "wf_text s \<Longrightarrow> parse St_header_value (req\<lparr>req_headers := hs @ [h]\<rparr>) (s @ [CHR 0x0D, CHR 0x0A] @ cs) =
     parse St_header_line_start (req\<lparr>req_headers := hs @ [h\<lparr>hdr_value := hdr_value h @ s\<rparr>]\<rparr>) cs"
proof (induction s arbitrary: h)
  case Nil
  then show ?case by (simp add: expect_def)
next
  case (Cons c s)
  then show ?case using text_neq [of c] by (simp add: value_push_back_def)
qed

lemma parse_header:
  assumes "wf_http_header h"
  shows "parse St_header_line_start (req\<lparr>req_headers := hs\<rparr>) (print_header h @ cs) =
    parse St_header_line_start (req\<lparr>req_headers := hs @ [h]\<rparr>) cs"
proof -
  from assms obtain c s where name: "hdr_name h = c # s" "token_char c" "list_all token_char s"
    by (cases "hdr_name h") (auto simp: wf_http_header_def wf_token_def)
  have val: "wf_text (hdr_value h)" using assms by (simp add: wf_http_header_def)
  have "parse St_header_line_start (req\<lparr>req_headers := hs\<rparr>) (print_header h @ cs) =
      parse St_header_name (req\<lparr>req_headers := hs @ [\<lparr>hdr_name = [c], hdr_value = []\<rparr>]\<rparr>)
        (s @ '': '' @ (hdr_value h @ [CHR 0x0D, CHR 0x0A] @ cs))"
    using name(2) token_neq [OF name(2)]
    by (simp add: print_header_def name(1) Let_def header_new_def name_push_back_def)
  also have "\<dots> = parse St_header_line_start (req\<lparr>req_headers := hs @ [\<lparr>hdr_name = hdr_name h, hdr_value = hdr_value h\<rparr>]\<rparr>) cs"
    unfolding parse_header_name [OF name(3)] parse_header_value [OF val] by (simp add: name(1))
  also have "\<lparr>hdr_name = hdr_name h, hdr_value = hdr_value h\<rparr> = h" by (cases h) simp
  finally show ?thesis .
qed

lemma parse_headers:
  "list_all wf_http_header new \<Longrightarrow> parse St_header_line_start (req\<lparr>req_headers := hs\<rparr>) (concat (map print_header new) @ cs) =
     parse St_header_line_start (req\<lparr>req_headers := hs @ new\<rparr>) cs"
proof (induction new arbitrary: hs)
  case (Cons h new)
  then show ?case
    using parse_header [where cs = "concat (map print_header new) @ cs"] by simp
qed simp

lemma parse_print_request:
  assumes "wf_request r" "http_version_major r + 48 < 2 ^ 31" "http_version_minor r + 48 < 2 ^ 31"
  shows "parse request_parser_new (request_new major minor) (print_request r @ rest) =
    Some (Good, rest, St_expecting_newline_3, r)"
proof -
  have r: "wf_token (req_method r)" "wf_text (req_uri r)" "CHR '' '' \<notin> set (req_uri r)"
    "0 \<le> http_version_major r" "0 \<le> http_version_minor r" "list_all wf_http_header (req_headers r)"
    using assms(1) by (simp_all add: wf_request_def)
  let ?maj = "nat (http_version_major r)" and ?min = "nat (http_version_minor r)"
  have v: "?maj + 48 < 2 ^ 31" "?min + 48 < 2 ^ 31" using assms(2,3) r(4,5) by simp_all
  let ?r1 = "\<lparr>req_method = req_method r, req_uri = req_uri r, http_version_major = http_version_major r,
     http_version_minor = http_version_minor r, req_headers = []\<rparr>"
  let ?tail = "concat (map print_header (req_headers r)) @ [CHR 0x0D, CHR 0x0A] @ rest"
  have "parse request_parser_new (request_new major minor) (print_request r @ rest) =
      parse St_http_version_major_start (?r1\<lparr>http_version_minor := 0, http_version_major := 0\<rparr>)
        (decimal ?maj @ ''.'' @ decimal ?min @ [CHR 0x0D, CHR 0x0A] @ ?tail)"
    using parse_method [OF r(1)] parse_uri [OF r(2,3)]
    by (simp add: print_request_def request_parser_new_def request_new_def)
  also have "\<dots> = parse St_http_version_minor_start ((?r1\<lparr>http_version_major := int ?maj\<rparr>)\<lparr>http_version_minor := 0\<rparr>)
        (decimal ?min @ [CHR 0x0D, CHR 0x0A] @ ?tail)"
    unfolding parse_major [OF v(1)] by simp
  also have "\<dots> = parse St_header_line_start (?r1\<lparr>req_headers := []\<rparr>) ?tail"
    unfolding parse_minor [OF v(2)] using r(4,5) by (simp add: expect_def)
  also have "\<dots> = parse St_header_line_start (?r1\<lparr>req_headers := [] @ req_headers r\<rparr>) ([CHR 0x0D, CHR 0x0A] @ rest)"
    by (rule parse_headers [OF r(6)])
  finally show ?thesis by (simp add: Let_def)
qed

lemma parse_None:
  "parser_inv st req \<Longrightarrow> parse st req cs = None \<Longrightarrow>
     \<exists>pre c post st' req'. cs = pre @ c # post \<and> parse st req pre = Some (Indeterminate, [], st', req') \<and>
       is_digit (char_int c) \<and> (2 ^ 31 \<le> http_version_major req' * 10 + char_int c \<or>
         2 ^ 31 \<le> http_version_minor req' * 10 + char_int c)"
proof (induction cs arbitrary: st req)
  case (Cons c cs)
  show ?case
  proof (cases "consume st req c")
    case None
    with consume_None [OF Cons.prems(1) None] show ?thesis
      by (intro exI [of _ "[]"] exI [of _ c] exI [of _ cs]) auto
  next
    case (Some r)
    obtain result st1 req1 where r: "r = (result, st1, req1)" by (cases r)
    have ind: "result = Indeterminate" and rest: "parse st1 req1 cs = None"
      using Some r Cons.prems(2) by (cases result; simp)+
    have "parser_inv st1 req1" using consume_inv [OF Cons.prems(1)] Some r by blast
    from Cons.IH [OF this rest] obtain pre d post st' req' where "cs = pre @ d # post"
      "parse st1 req1 pre = Some (Indeterminate, [], st', req')" "is_digit (char_int d)"
      "2 ^ 31 \<le> http_version_major req' * 10 + char_int d \<or> 2 ^ 31 \<le> http_version_minor req' * 10 + char_int d"
      by blast
    with Some r ind show ?thesis
      by (intro exI [of _ "c # pre"] exI [of _ d] exI [of _ post] exI [of _ st'] exI [of _ req']) simp
  qed
qed simp

end
