(* ===== verification/Http_Reply.thy ===== *)
theory Http_Reply
  imports Http_Parser
begin

text \<open>
  Replies of the signalling server: \<^verbatim>\<open>signal_server/reply.cpp\<close>, \<^verbatim>\<open>reply.hpp\<close>, \<^verbatim>\<open>mime_types.cpp\<close>.
  A buffer of \<^verbatim>\<open>to_buffers\<close> is the string it refers to.
\<close>

datatype status_type =
    Status_ok
  | Status_created
  | Status_accepted
  | Status_no_content
  | Status_multiple_choices
  | Status_moved_permanently
  | Status_moved_temporarily
  | Status_not_modified
  | Status_bad_request
  | Status_unauthorized
  | Status_forbidden
  | Status_not_found
  | Status_internal_server_error
  | Status_not_implemented
  | Status_bad_gateway
  | Status_service_unavailable

text \<open>The values of the enumerators.\<close>

fun status_code :: "status_type \<Rightarrow> nat" where
  "status_code Status_ok = 200"
| "status_code Status_created = 201"
| "status_code Status_accepted = 202"
| "status_code Status_no_content = 204"
| "status_code Status_multiple_choices = 300"
| "status_code Status_moved_permanently = 301"
| "status_code Status_moved_temporarily = 302"
| "status_code Status_not_modified = 304"
| "status_code Status_bad_request = 400"
| "status_code Status_unauthorized = 401"
| "status_code Status_forbidden = 403"
| "status_code Status_not_found = 404"
| "status_code Status_internal_server_error = 500"
| "status_code Status_not_implemented = 501"
| "status_code Status_bad_gateway = 502"
| "status_code Status_service_unavailable = 503"

record reply =
  reply_status :: status_type
  reply_headers :: "header list"
  reply_content :: string

definition crlf :: string where
  "crlf = [CHR 0x0D, CHR 0x0A]"

definition name_value_separator :: string where
  "name_value_separator = '': ''"

fun to_buffer :: "status_type \<Rightarrow> string" where
  "to_buffer Status_ok = ''HTTP/1.0 200 OK'' @ crlf"
| "to_buffer Status_created = ''HTTP/1.0 201 Created'' @ crlf"
| "to_buffer Status_accepted = ''HTTP/1.0 202 Accepted'' @ crlf"
| "to_buffer Status_no_content = ''HTTP/1.0 204 No Content'' @ crlf"
| "to_buffer Status_multiple_choices = ''HTTP/1.0 300 Multiple Choices'' @ crlf"
| "to_buffer Status_moved_permanently = ''HTTP/1.0 301 Moved Permanently'' @ crlf"
| "to_buffer Status_moved_temporarily = ''HTTP/1.0 302 Moved Temporarily'' @ crlf"
| "to_buffer Status_not_modified = ''HTTP/1.0 304 Not Modified'' @ crlf"
| "to_buffer Status_bad_request = ''HTTP/1.0 400 Bad Request'' @ crlf"
| "to_buffer Status_unauthorized = ''HTTP/1.0 401 Unauthorized'' @ crlf"
| "to_buffer Status_forbidden = ''HTTP/1.0 403 Forbidden'' @ crlf"
| "to_buffer Status_not_found = ''HTTP/1.0 404 Not Found'' @ crlf"
| "to_buffer Status_internal_server_error = ''HTTP/1.0 500 Internal Server Error'' @ crlf"
| "to_buffer Status_not_implemented = ''HTTP/1.0 501 Not Implemented'' @ crlf"
| "to_buffer Status_bad_gateway = ''HTTP/1.0 502 Bad Gateway'' @ crlf"
| "to_buffer Status_service_unavailable = ''HTTP/1.0 503 Service Unavailable'' @ crlf"

text \<open>The loop over the headers of \<^verbatim>\<open>to_buffers\<close>, and the whole.\<close>

fun header_buffers :: "header list \<Rightarrow> string list \<Rightarrow> string list" where
  "header_buffers [] buffers = buffers"
| "header_buffers (h # hs) buffers =
     header_buffers hs (buffers @ [hdr_name h, name_value_separator, hdr_value h, crlf])"

definition to_buffers :: "reply \<Rightarrow> string list" where
  "to_buffers rep = header_buffers (reply_headers rep) [to_buffer (reply_status rep)] @ [crlf, reply_content rep]"

fun stock_content :: "status_type \<Rightarrow> string" where
  "stock_content Status_ok = ''''"
| "stock_content Status_created = ''<html>'' @ ''<head><title>Created</title></head>'' @
     ''<body><h1>201 Created</h1></body>'' @ ''</html>''"
| "stock_content Status_accepted = ''<html>'' @ ''<head><title>Accepted</title></head>'' @
     ''<body><h1>202 Accepted</h1></body>'' @ ''</html>''"
| "stock_content Status_no_content = ''<html>'' @ ''<head><title>No Content</title></head>'' @
     ''<body><h1>204 Content</h1></body>'' @ ''</html>''"
| "stock_content Status_multiple_choices = ''<html>'' @ ''<head><title>Multiple Choices</title></head>'' @
     ''<body><h1>300 Multiple Choices</h1></body>'' @ ''</html>''"
| "stock_content Status_moved_permanently = ''<html>'' @ ''<head><title>Moved Permanently</title></head>'' @
     ''<body><h1>301 Moved Permanently</h1></body>'' @ ''</html>''"
| "stock_content Status_moved_temporarily = ''<html>'' @ ''<head><title>Moved Temporarily</title></head>'' @
     ''<body><h1>302 Moved Temporarily</h1></body>'' @ ''</html>''"
| "stock_content Status_not_modified = ''<html>'' @ ''<head><title>Not Modified</title></head>'' @
     ''<body><h1>304 Not Modified</h1></body>'' @ ''</html>''"
| "stock_content Status_bad_request = ''<html>'' @ ''<head><title>Bad Request</title></head>'' @
     ''<body><h1>400 Bad Request</h1></body>'' @ ''</html>''"
| "stock_content Status_unauthorized = ''<html>'' @ ''<head><title>Unauthorized</title></head>'' @
     ''<body><h1>401 Unauthorized</h1></body>'' @ ''</html>''"
| "stock_content Status_forbidden = ''<html>'' @ ''<head><title>Forbidden</title></head>'' @
     ''<body><h1>403 Forbidden</h1></body>'' @ ''</html>''"
| "stock_content Status_not_found = ''<html>'' @ ''<head><title>Not Found</title></head>'' @
     ''<body><h1>404 Not Found</h1></body>'' @ ''</html>''"
| "stock_content Status_internal_server_error = ''<html>'' @ ''<head><title>Internal Server Error</title></head>'' @
     ''<body><h1>500 Internal Server Error</h1></body>'' @ ''</html>''"
| "stock_content Status_not_implemented = ''<html>'' @ ''<head><title>Not Implemented</title></head>'' @
     ''<body><h1>501 Not Implemented</h1></body>'' @ ''</html>''"
| "stock_content Status_bad_gateway = ''<html>'' @ ''<head><title>Bad Gateway</title></head>'' @
     ''<body><h1>502 Bad Gateway</h1></body>'' @ ''</html>''"
| "stock_content Status_service_unavailable = ''<html>'' @ ''<head><title>Service Unavailable</title></head>'' @
     ''<body><h1>503 Service Unavailable</h1></body>'' @ ''</html>''"

definition stock_reply :: "status_type \<Rightarrow> reply" where
  "stock_reply status = (let content = stock_content status in
     \<lparr>reply_status = status,
      reply_headers = [\<lparr>hdr_name = ''Content-Length'', hdr_value = decimal (length content)\<rparr>,
        \<lparr>hdr_name = ''Content-Type'', hdr_value = ''text/html''\<rparr>],
      reply_content = content\<rparr>)"

subsection \<open>MIME types\<close>

definition mime_mappings :: "(string \<times> string) list" where
  "mime_mappings = [(''gif'', ''image/gif''), (''htm'', ''text/html''), (''html'', ''text/html''),
     (''jpg'', ''image/jpeg''), (''png'', ''image/png'')]"

fun find_mapping :: "(string \<times> string) list \<Rightarrow> string \<Rightarrow> string" where
  "find_mapping [] extension = ''text/plain''"
| "find_mapping ((e, t) # ms) extension = (if e = extension then t else find_mapping ms extension)"

definition extension_to_type :: "string \<Rightarrow> string" where
  "extension_to_type extension = find_mapping mime_mappings extension"

subsection \<open>What is sent\<close>

lemma header_buffers_concat: "concat (header_buffers hs bs) = concat bs @ concat (map print_header hs)"
  by (induction hs bs rule: header_buffers.induct)
    (simp_all add: print_header_def name_value_separator_def crlf_def)

text \<open>The status line carries the value of the enumerator.\<close>

lemma to_buffer_code: "\<exists>phrase. to_buffer st = ''HTTP/1.0 '' @ decimal (status_code st) @ '' '' @ phrase @ crlf"
proof (cases st)
qed (simp_all add: decimal.simps digit_def char_of_def bit_0)

definition decimal_value :: "string \<Rightarrow> nat" where
  "decimal_value s = foldl (\<lambda>v c. v * 10 + (of_char c - 48)) 0 s"

lemma decimal_value_decimal [simp]: "decimal_value (decimal n) = n"
proof (induction n rule: decimal.induct)
  case (1 n)
  have d: "d < 10 \<Longrightarrow> of_char (digit d) = 48 + d" for d by (simp add: digit_def)
  show ?case
  proof (cases "n < 10")
    case True
    then show ?thesis by (simp add: decimal.simps [of n] decimal_value_def d)
  next
    case False
    with 1 have "decimal_value (decimal n) = n div 10 * 10 + n mod 10"
      by (simp add: decimal.simps [of n] decimal_value_def d)
    then show ?thesis by simp
  qed
qed

text \<open>A reply announces the length of its content.\<close>

definition content_length_ok :: "reply \<Rightarrow> bool" where
  "content_length_ok rep \<longleftrightarrow> (\<exists>v rest. reply_headers rep = \<lparr>hdr_name = ''Content-Length'', hdr_value = v\<rparr> # rest \<and>
     decimal_value v = length (reply_content rep))"

lemma stock_reply_ok [simp]: "content_length_ok (stock_reply st)" "reply_status (stock_reply st) = st"
  by (simp_all add: content_length_ok_def stock_reply_def Let_def)

text \<open>The bytes of a reply.\<close>

lemma to_buffers_wire:
  "\<exists>phrase. concat (to_buffers rep) = ''HTTP/1.0 '' @ decimal (status_code (reply_status rep)) @ '' '' @ phrase @ crlf @
     concat (map print_header (reply_headers rep)) @ crlf @ reply_content rep"
proof -
  obtain phrase where "to_buffer (reply_status rep) =
      ''HTTP/1.0 '' @ decimal (status_code (reply_status rep)) @ '' '' @ phrase @ crlf"
    using to_buffer_code by blast
  then show ?thesis by (intro exI [of _ phrase]) (simp add: to_buffers_def header_buffers_concat)
qed

end
