(* ===== verification/Http_Handler.thy ===== *)
theory Http_Handler
  imports Http_Reply
begin

text \<open>
  The request handler of the signalling server, \<^verbatim>\<open>signal_server/request_handler.cpp\<close>: decoding of
  the URI, the checks on the path, and the reply with the contents of a file.

  The file system is the parameter \<open>files\<close>: the contents of the file that \<^verbatim>\<open>std::ifstream\<close> opens
  under a path, or \<open>None\<close> when it cannot be opened.
\<close>

subsection \<open>Reading a hexadecimal number\<close>

text \<open>
  \<^verbatim>\<open>is >> std::hex >> value\<close> in the C locale: white space is skipped, a sign and a prefix \<^verbatim>\<open>0x\<close> are
  allowed, the longest run of digits is read, and there must be at least one.
\<close>

definition is_space :: "char \<Rightarrow> bool" where
  "is_space c \<longleftrightarrow> c \<in> {CHR '' '', CHR 0x09, CHR 0x0A, CHR 0x0B, CHR 0x0C, CHR 0x0D}"

definition hex_value :: "char \<Rightarrow> nat option" where
  "hex_value c = (let n = of_char c in
     if 48 \<le> n \<and> n \<le> 57 then Some (n - 48)
     else if 97 \<le> n \<and> n \<le> 102 then Some (n - 87)
     else if 65 \<le> n \<and> n \<le> 70 then Some (n - 55)
     else None)"

definition read_sign :: "string \<Rightarrow> bool \<times> string" where
  "read_sign s = (case s of [] \<Rightarrow> (False, [])
     | c # t \<Rightarrow> if c = CHR ''-'' then (True, t) else if c = CHR ''+'' then (False, t) else (False, s))"

definition skip_prefix :: "string \<Rightarrow> string" where
  "skip_prefix s = (case s of c # x # t \<Rightarrow> if c = CHR ''0'' \<and> (x = CHR ''x'' \<or> x = CHR ''X'') then t else s | _ \<Rightarrow> s)"

definition extract_hex :: "string \<Rightarrow> int option" where
  "extract_hex s =
     (let (negative, s) = read_sign (dropWhile is_space s);
          ds = takeWhile (\<lambda>c. hex_value c \<noteq> None) (skip_prefix s);
          n = foldl (\<lambda>v c. v * 16 + the (hex_value c)) 0 ds
      in if ds = [] then None else Some (if negative then - int n else int n))"

definition char_cast :: "int \<Rightarrow> char" where
  "char_cast v = char_of (nat (v mod 256))"

subsection \<open>Decoding the URI\<close>

text \<open>The loop of \<^verbatim>\<open>url_decode\<close>, over the rest of the input; \<open>None\<close> is the return value false.\<close>

function url_decode_loop :: "string \<Rightarrow> string \<Rightarrow> string option" where
  "url_decode_loop [] out = Some out"
| "url_decode_loop (c # cs) out =
     (if c = CHR ''%'' then
        if 3 \<le> length (c # cs) then
          (case extract_hex (take 2 cs) of
             Some v \<Rightarrow> url_decode_loop (drop 2 cs) (out @ [char_cast v])
           | None \<Rightarrow> None)
        else None
      else if c = CHR ''+'' then url_decode_loop cs (out @ '' '')
      else url_decode_loop cs (out @ [c]))"
  by pat_completeness auto
termination
  by (relation "measure (length \<circ> fst)") auto

definition url_decode :: "string \<Rightarrow> string option" where
  "url_decode uri = url_decode_loop uri []"

subsection \<open>Handling a request\<close>

text \<open>\<^verbatim>\<open>s.find(pattern) != npos\<close> and \<^verbatim>\<open>s.find_last_of(c)\<close>.\<close>

fun contains :: "string \<Rightarrow> string \<Rightarrow> bool" where
  "contains pattern [] \<longleftrightarrow> pattern = []"
| "contains pattern (c # cs) \<longleftrightarrow> take (length pattern) (c # cs) = pattern \<or> contains pattern cs"

definition find_last_of :: "string \<Rightarrow> char \<Rightarrow> nat option" where
  "find_last_of s c = (if c \<in> set s then Some (length s - 1 - length (takeWhile (\<lambda>x. x \<noteq> c) (rev s))) else None)"

definition c_str :: "string \<Rightarrow> string" where
  "c_str s = takeWhile (\<lambda>c. c \<noteq> CHR 0x00) s"

text \<open>\<^verbatim>\<open>while (is.read(buf, sizeof(buf)).gcount() > 0) rep.content.append(buf, is.gcount());\<close>\<close>

function read_content :: "string \<Rightarrow> string \<Rightarrow> string" where
  "read_content stream content =
     (let buf = take 512 stream in
      if length buf > 0 then read_content (drop 512 stream) (content @ buf) else content)"
  by pat_completeness auto
termination
  by (relation "measure (length \<circ> fst)") auto

declare read_content.simps [simp del]

definition path_extension :: "string \<Rightarrow> string" where
  "path_extension request_path =
     (case (find_last_of request_path (CHR ''.''), find_last_of request_path (CHR ''/'')) of
        (Some last_dot_pos, Some last_slash_pos) \<Rightarrow>
          if last_dot_pos > last_slash_pos then drop (last_dot_pos + 1) request_path else []
      | _ \<Rightarrow> [])"

definition handle_request :: "string \<Rightarrow> (string \<Rightarrow> string option) \<Rightarrow> request \<Rightarrow> reply \<Rightarrow> reply" where
  "handle_request doc_root files req rep =
     (case url_decode (req_uri req) of
        None \<Rightarrow> stock_reply Status_bad_request
      | Some request_path \<Rightarrow>
          if request_path = [] \<or> hd request_path \<noteq> CHR ''/'' \<or> contains ''..'' request_path
          then stock_reply Status_bad_request
          else
            let request_path = (if last request_path = CHR ''/'' then request_path @ ''index.html'' else request_path);
                extension = path_extension request_path;
                full_path = doc_root @ request_path
            in (case files (c_str full_path) of
                  None \<Rightarrow> stock_reply Status_not_found
                | Some stream \<Rightarrow>
                    let content = read_content stream (reply_content rep)
                    in rep\<lparr>reply_status := Status_ok, reply_content := content,
                        reply_headers := [\<lparr>hdr_name = ''Content-Length'', hdr_value = decimal (length content)\<rparr>,
                          \<lparr>hdr_name = ''Content-Type'', hdr_value = extension_to_type extension\<rparr>]\<rparr>))"

subsection \<open>Facts\<close>

lemma read_content_all: "read_content stream content = content @ stream"
proof (induction stream content rule: read_content.induct)
  case (1 stream content)
  show ?case
  proof (cases "stream = []")
    case True
    then show ?thesis by (subst read_content.simps) (simp add: Let_def)
  next
    case False
    with 1 have "read_content (drop 512 stream) (content @ take 512 stream) = (content @ take 512 stream) @ drop 512 stream"
      by simp
    with False show ?thesis by (subst read_content.simps) (simp add: Let_def del: append_assoc, simp)
  qed
qed

text \<open>Percent-encoding: the characters that are not kept become \<^verbatim>\<open>%\<close> and two hexadecimal digits.\<close>

definition hex_char :: "nat \<Rightarrow> char" where
  "hex_char d = (if d < 10 then char_of (48 + d) else char_of (55 + d))"

definition url_encode :: "(char \<Rightarrow> bool) \<Rightarrow> string \<Rightarrow> string" where
  "url_encode keep s = concat (map (\<lambda>c. if keep c then [c]
     else [CHR ''%'', hex_char (of_char c div 16), hex_char (of_char c mod 16)]) s)"

lemma hex_value_char: "d < 16 \<Longrightarrow> hex_value (hex_char d) = Some d"
  by (simp add: hex_value_def hex_char_def Let_def)

lemma hex_char_neq:
  assumes "d < 16"
  shows "\<not> is_space (hex_char d)" "hex_char d \<noteq> CHR ''-''" "hex_char d \<noteq> CHR ''+''" "hex_char d \<noteq> CHR ''x''"
    "hex_char d \<noteq> CHR ''X''"
  using hex_value_char [OF assms] by (auto simp: is_space_def hex_value_def)

lemma extract_hex_digits:
  assumes "a < 16" "b < 16"
  shows "extract_hex [hex_char a, hex_char b] = Some (int (a * 16 + b))"
  using hex_char_neq [OF assms(1)] hex_char_neq [OF assms(2)] hex_value_char [OF assms(1)] hex_value_char [OF assms(2)]
  by (simp add: extract_hex_def read_sign_def skip_prefix_def)

lemma url_decode_loop_encode:
  assumes "\<And>c. keep c \<Longrightarrow> c \<noteq> CHR ''%'' \<and> c \<noteq> CHR ''+''"
  shows "url_decode_loop (url_encode keep s) out = Some (out @ s)"
proof (induction s arbitrary: out)
  case Nil
  then show ?case by (simp add: url_encode_def)
next
  case (Cons c s)
  show ?case
  proof (cases "keep c")
    case True
    with assms [OF True] Cons [of "out @ [c]"] show ?thesis by (simp add: url_encode_def)
  next
    case False
    have "of_char c mod 256 < (256 :: nat)" by (rule mod_less_divisor) simp
    then have n: "of_char c div 16 < (16 :: nat)" "of_char c mod 16 < (16 :: nat)"
      by (simp_all add: less_mult_imp_div_less)
    have "char_cast (int (of_char c div 16 * 16 + of_char c mod 16)) = c"
      by (simp only: div_mult_mod_eq char_cast_def) (simp add: nat_mod_distrib)
    with extract_hex_digits [OF n] False Cons [of "out @ [c]"] show ?thesis
      by (simp add: url_encode_def)
  qed
qed

text \<open>
  The handler only looks at files below the document root: paths that start with a slash and have no
  two dots in a row.
\<close>

definition safe_path :: "string \<Rightarrow> bool" where
  "safe_path p \<longleftrightarrow> p \<noteq> [] \<and> hd p = CHR ''/'' \<and> \<not> contains ''..'' p"

lemma contains_index: "\<not> contains ''..'' p \<Longrightarrow> p \<noteq> [] \<Longrightarrow> last p = CHR ''/'' \<Longrightarrow> \<not> contains ''..'' (p @ ''index.html'')"
proof (induction p)
  case (Cons c p)
  then show ?case by (cases p) auto
qed simp

text \<open>A successful reply carries the contents of such a file.\<close>

definition served_path :: "string \<Rightarrow> string" where
  "served_path p = (if last p = CHR ''/'' then p @ ''index.html'' else p)"

lemma served_path_safe: "safe_path p \<Longrightarrow> safe_path (served_path p)"
  using contains_index [of p] by (auto simp: safe_path_def served_path_def)

lemma handle_request_eq:
  "handle_request doc_root files req rep = (case url_decode (req_uri req) of
      None \<Rightarrow> stock_reply Status_bad_request
    | Some p \<Rightarrow> if \<not> safe_path p then stock_reply Status_bad_request
        else (case files (c_str (doc_root @ served_path p)) of
            None \<Rightarrow> stock_reply Status_not_found
          | Some stream \<Rightarrow> let content = reply_content rep @ stream in
              rep\<lparr>reply_status := Status_ok, reply_content := content,
                reply_headers := [\<lparr>hdr_name = ''Content-Length'', hdr_value = decimal (length content)\<rparr>,
                  \<lparr>hdr_name = ''Content-Type'', hdr_value = extension_to_type (path_extension (served_path p))\<rparr>]\<rparr>))"
  unfolding handle_request_def safe_path_def served_path_def [symmetric] read_content_all Let_def
  by (auto split: option.split)

lemma handle_request_safe:
  assumes "\<And>p. safe_path p \<Longrightarrow> files (c_str (doc_root @ p)) = files' (c_str (doc_root @ p))"
  shows "handle_request doc_root files req rep = handle_request doc_root files' req rep"
  using assms [OF served_path_safe] unfolding handle_request_eq by (auto split: option.split)

lemma handle_request_ok:
  assumes "reply_status (handle_request doc_root files req rep) = Status_ok" "reply_content rep = []"
  shows "\<exists>p. safe_path p \<and> files (c_str (doc_root @ p)) = Some (reply_content (handle_request doc_root files req rep))"
  using assms served_path_safe unfolding handle_request_eq
  by (auto simp: Let_def split: option.splits if_splits)

end
