(* ===== verification/Http_Connection.thy ===== *)
theory Http_Connection
  imports Http_Handler
begin

text \<open>
  Connections, their manager and the accept loop of the signalling server:
  \<^verbatim>\<open>signal_server/connection.cpp\<close>, \<^verbatim>\<open>connection_manager.cpp\<close>, \<^verbatim>\<open>server.cpp\<close>.

  The code is a set of completion handlers that Asio calls one at a time (the \<^verbatim>\<open>io_context\<close> runs on
  one thread).  An outstanding asynchronous operation is part of the state, and each handler is a
  function on the state; the step relation lets any outstanding operation complete with any outcome
  that Asio allows.
\<close>

subsection \<open>A connection\<close>

datatype io_error = NoError | Operation_aborted | Other_error

datatype pending = NoOp | Reading | Writing "string list"

record connection =
  socket_open :: bool
  socket_shut :: bool
  conn_request :: request
  conn_parser :: parser_state
  conn_reply :: reply
  conn_pending :: pending
  op_valid :: bool

text \<open>
  \<open>op_valid\<close> tells whether the socket was open when the outstanding operation was started.  The
  arguments of \<open>connection_new\<close> are the uninitialised members.
\<close>

definition connection_new :: "int \<Rightarrow> int \<Rightarrow> status_type \<Rightarrow> connection" where
  "connection_new major minor status = \<lparr>socket_open = True, socket_shut = False,
     conn_request = request_new major minor, conn_parser = request_parser_new,
     conn_reply = \<lparr>reply_status = status, reply_headers = [], reply_content = []\<rparr>, conn_pending = NoOp,
     op_valid = False\<rparr>"

definition do_read :: "connection \<Rightarrow> connection" where
  "do_read c = c\<lparr>conn_pending := Reading, op_valid := socket_open c\<rparr>"

definition do_write :: "connection \<Rightarrow> connection" where
  "do_write c = c\<lparr>conn_pending := Writing (to_buffers (conn_reply c)), op_valid := socket_open c\<rparr>"

definition conn_start :: "connection \<Rightarrow> connection" where
  "conn_start c = do_read c"

definition conn_stop :: "connection \<Rightarrow> connection" where
  "conn_stop c = c\<lparr>socket_open := False\<rparr>"

text \<open>The part of the read handler that runs when data has arrived.\<close>

definition on_data :: "string \<Rightarrow> (string \<Rightarrow> string option) \<Rightarrow> string \<Rightarrow> connection \<Rightarrow> connection option" where
  "on_data doc_root files data c = do {
     (result, _, st, req) \<leftarrow> parse (conn_parser c) (conn_request c) data;
     let c = c\<lparr>conn_parser := st, conn_request := req\<rparr>;
     Some (case result of
         Good \<Rightarrow> do_write (c\<lparr>conn_reply := handle_request doc_root files req (conn_reply c)\<rparr>)
       | Bad \<Rightarrow> do_write (c\<lparr>conn_reply := stock_reply Status_bad_request\<rparr>)
       | Indeterminate \<Rightarrow> do_read c)
   }"

subsection \<open>The server\<close>

record http_server =
  acceptor_open :: bool
  accepting :: bool
  awaiting_stop :: bool
  managed :: "nat set"
  conns :: "nat \<Rightarrow> connection option"

text \<open>The two operations that are not on a connection: waiting for a signal, and for a client.\<close>

definition do_await_stop :: "http_server \<Rightarrow> http_server" where
  "do_await_stop s = s\<lparr>awaiting_stop := True\<rparr>"

definition do_accept :: "http_server \<Rightarrow> http_server" where
  "do_accept s = s\<lparr>accepting := True\<rparr>"

definition server_new :: http_server where
  "server_new =
     (let s = do_await_stop \<lparr>acceptor_open = False, accepting = False, awaiting_stop = False, managed = {},
            conns = Map.empty\<rparr>
      in do_accept (s\<lparr>acceptor_open := True\<rparr>))"

definition set_conn :: "nat \<Rightarrow> connection \<Rightarrow> http_server \<Rightarrow> http_server" where
  "set_conn i c s = s\<lparr>conns := (conns s)(i \<mapsto> c)\<rparr>"

definition manager_start :: "nat \<Rightarrow> connection \<Rightarrow> http_server \<Rightarrow> http_server" where
  "manager_start i c s = set_conn i (conn_start c) (s\<lparr>managed := insert i (managed s)\<rparr>)"

definition manager_stop :: "nat \<Rightarrow> connection \<Rightarrow> http_server \<Rightarrow> http_server" where
  "manager_stop i c s = set_conn i (conn_stop c) (s\<lparr>managed := managed s - {i}\<rparr>)"

definition manager_stop_all :: "http_server \<Rightarrow> http_server" where
  "manager_stop_all s = s\<lparr>conns := (\<lambda>i. if i \<in> managed s then map_option conn_stop (conns s i) else conns s i),
     managed := {}\<rparr>"

text \<open>The completion handlers: of a read, of a write, of an accept, and of the wait for a signal.\<close>

definition on_read ::
    "string \<Rightarrow> (string \<Rightarrow> string option) \<Rightarrow> nat \<Rightarrow> connection \<Rightarrow> io_error \<Rightarrow> string \<Rightarrow> http_server \<Rightarrow> http_server option" where
  "on_read doc_root files i c ec data s =
     (let c = c\<lparr>conn_pending := NoOp\<rparr> in
      if ec = NoError then do {
        c \<leftarrow> on_data doc_root files data c;
        Some (set_conn i c s)
      }
      else if ec \<noteq> Operation_aborted then Some (manager_stop i c s)
      else Some (set_conn i c s))"

definition on_write :: "nat \<Rightarrow> connection \<Rightarrow> io_error \<Rightarrow> http_server \<Rightarrow> http_server" where
  "on_write i c ec s =
     (let c = c\<lparr>conn_pending := NoOp\<rparr>;
          c = (if ec = NoError then c\<lparr>socket_shut := True\<rparr> else c)
      in if ec \<noteq> Operation_aborted then manager_stop i c s else set_conn i c s)"

definition on_accept :: "nat \<Rightarrow> connection \<Rightarrow> io_error \<Rightarrow> http_server \<Rightarrow> http_server" where
  "on_accept i c ec s =
     (let s = s\<lparr>accepting := False\<rparr> in
      if \<not> acceptor_open s then s
      else do_accept (if ec = NoError then manager_start i c s else s))"

definition on_signal :: "http_server \<Rightarrow> http_server" where
  "on_signal s = manager_stop_all (s\<lparr>awaiting_stop := False, acceptor_open := False\<rparr>)"

text \<open>
  What Asio guarantees: a completed read has at least one byte and at most the 8192 of the buffer, an
  operation is aborted only after its socket has been closed, and an operation that is started on a
  closed socket fails.  One that was started before may still succeed after the socket was closed, when
  its completion was already queued.  Undefined behaviour in the parser is no step.
\<close>

inductive server_step :: "string \<Rightarrow> (string \<Rightarrow> string option) \<Rightarrow> http_server \<Rightarrow> http_server \<Rightarrow> bool"
  for doc_root files where
  step_accept: "accepting s \<Longrightarrow> conns s i = None \<Longrightarrow>
    server_step doc_root files s (on_accept i (connection_new major minor status) ec s)"
| step_read: "conns s i = Some c \<Longrightarrow> conn_pending c = Reading \<Longrightarrow>
    (ec = NoError \<longrightarrow> op_valid c \<and> 0 < length data \<and> length data \<le> 8192) \<Longrightarrow> (ec = Operation_aborted \<longrightarrow> \<not> socket_open c) \<Longrightarrow>
    on_read doc_root files i c ec data s = Some s' \<Longrightarrow> server_step doc_root files s s'"
| step_write: "conns s i = Some c \<Longrightarrow> conn_pending c = Writing bufs \<Longrightarrow>
    (ec = NoError \<longrightarrow> op_valid c) \<Longrightarrow> (ec = Operation_aborted \<longrightarrow> \<not> socket_open c) \<Longrightarrow>
    server_step doc_root files s (on_write i c ec s)"
| step_signal: "awaiting_stop s \<Longrightarrow> server_step doc_root files s (on_signal s)"

inductive server_reachable :: "string \<Rightarrow> (string \<Rightarrow> string option) \<Rightarrow> http_server \<Rightarrow> bool"
  for doc_root files where
  reach_init: "server_reachable doc_root files server_new"
| reach_step: "server_reachable doc_root files s \<Longrightarrow> server_step doc_root files s s' \<Longrightarrow>
    server_reachable doc_root files s'"

subsection \<open>Invariant\<close>

lemma handle_request_reply:
  "content_length_ok (handle_request doc_root files req rep) \<and>
   reply_status (handle_request doc_root files req rep) \<in> {Status_ok, Status_bad_request, Status_not_found}"
  by (simp add: handle_request_def Let_def split: option.split) (simp add: content_length_ok_def)

definition reply_ok :: "string \<Rightarrow> (string \<Rightarrow> string option) \<Rightarrow> reply \<Rightarrow> bool" where
  "reply_ok doc_root files rep \<longleftrightarrow> content_length_ok rep \<and>
     (reply_status rep = Status_bad_request \<or> reply_status rep = Status_not_found \<or>
      reply_status rep = Status_ok \<and> (\<exists>p. safe_path p \<and> files (c_str (doc_root @ p)) = Some (reply_content rep)))"

lemma handle_request_reply_ok:
  "reply_content rep = [] \<Longrightarrow> reply_ok doc_root files (handle_request doc_root files req rep)"
  using handle_request_reply [of doc_root files req rep] handle_request_ok [of doc_root files req rep]
  by (auto simp: reply_ok_def)

definition conn_ok :: "string \<Rightarrow> (string \<Rightarrow> string option) \<Rightarrow> bool \<Rightarrow> connection \<Rightarrow> bool" where
  "conn_ok doc_root files is_managed c \<longleftrightarrow>
     (is_managed \<longleftrightarrow> socket_open c) \<and> (conn_pending c = NoOp \<longrightarrow> \<not> socket_open c) \<and>
     parser_inv (conn_parser c) (conn_request c) \<and>
     (case conn_pending c of
        NoOp \<Rightarrow> True
      | Reading \<Rightarrow> reply_content (conn_reply c) = []
      | Writing bufs \<Rightarrow> bufs = to_buffers (conn_reply c) \<and> reply_ok doc_root files (conn_reply c))"

definition server_inv :: "string \<Rightarrow> (string \<Rightarrow> string option) \<Rightarrow> http_server \<Rightarrow> bool" where
  "server_inv doc_root files s \<longleftrightarrow> (\<forall>i c. conns s i = Some c \<longrightarrow> conn_ok doc_root files (i \<in> managed s) c) \<and>
     managed s \<subseteq> dom (conns s) \<and> finite (dom (conns s)) \<and>
     (\<not> acceptor_open s \<longrightarrow> managed s = {}) \<and> awaiting_stop s = acceptor_open s"

lemma server_inv_accepting [simp]: "server_inv doc_root files (s\<lparr>accepting := b\<rparr>) = server_inv doc_root files s"
  by (simp add: server_inv_def)

lemma server_inv_do_accept [simp]: "server_inv doc_root files (do_accept s) = server_inv doc_root files s"
  by (simp add: do_accept_def)

lemma server_invD:
  assumes "server_inv doc_root files s"
  shows "conns s i = Some c \<Longrightarrow> conn_ok doc_root files (i \<in> managed s) c" "i \<in> managed s \<Longrightarrow> \<exists>c. conns s i = Some c"
    "\<not> acceptor_open s \<Longrightarrow> managed s = {}" "awaiting_stop s = acceptor_open s" "finite (dom (conns s))"
  using assms by (auto simp: server_inv_def)

text \<open>Replacing one connection: what has to be shown of it, and nothing of the others.\<close>

lemma server_inv_replace:
  assumes "server_inv doc_root files s" "conn_ok doc_root files m c" "m \<longrightarrow> acceptor_open s"
    and "s' = set_conn i c (s\<lparr>managed := (if m then insert i (managed s) else managed s - {i})\<rparr>)"
  shows "server_inv doc_root files s'"
  using assms by (cases m) (auto simp: server_inv_def set_conn_def)

lemma managed_open: "server_inv doc_root files s \<Longrightarrow> i \<in> managed s \<Longrightarrow> acceptor_open s"
  by (auto simp: server_inv_def)

lemma managed_same: "managed s = (if i \<in> managed s then insert i (managed s) else managed s - {i})"
  by auto

lemma server_inv_keep:
  assumes "server_inv doc_root files s" "conn_ok doc_root files (i \<in> managed s) c"
  shows "server_inv doc_root files (set_conn i c s)"
proof (rule server_inv_replace [OF assms])
  show "i \<in> managed s \<longrightarrow> acceptor_open s" using assms(1) managed_open by blast
  have "s = s\<lparr>managed := managed s\<rparr>" by simp
  then show "set_conn i c s = set_conn i c (s\<lparr>managed := if i \<in> managed s then insert i (managed s) else managed s - {i}\<rparr>)"
    by (subst managed_same [symmetric]) simp
qed

lemma server_inv_stop:
  assumes "server_inv doc_root files s" "parser_inv (conn_parser c) (conn_request c)" "conn_pending c = NoOp"
  shows "server_inv doc_root files (manager_stop i c s)"
  using assms(1)
proof (rule server_inv_replace)
  show "conn_ok doc_root files False (conn_stop c)" using assms(2,3) by (simp add: conn_ok_def conn_stop_def)
qed (simp_all add: manager_stop_def)

lemma conn_ok_stop: "conn_ok doc_root files m c \<Longrightarrow> conn_ok doc_root files False (conn_stop c)"
  by (simp add: conn_ok_def conn_stop_def split: pending.splits)

lemma on_data_ok:
  assumes "conn_ok doc_root files m c" "conn_pending c = Reading"
    "on_data doc_root files data (c\<lparr>conn_pending := NoOp\<rparr>) = Some c'"
  shows "conn_ok doc_root files m c'"
proof -
  from assms(3) obtain result rest st req where
    p: "parse (conn_parser c) (conn_request c) data = Some (result, rest, st, req)"
    by (auto simp: on_data_def split: bind_splits)
  have c: "parser_inv (conn_parser c) (conn_request c)" "m = socket_open c" "reply_content (conn_reply c) = []"
    using assms(1,2) by (simp_all add: conn_ok_def)
  have "parser_inv st req" using parse_inv [OF c(1) p] by simp
  moreover have "reply_ok doc_root files (handle_request doc_root files req (conn_reply c))"
    "reply_ok doc_root files (stock_reply Status_bad_request)"
    using handle_request_reply_ok c(3) by (simp_all add: reply_ok_def)
  ultimately show ?thesis using assms(3) p c(2,3)
    by (cases result) (auto simp: on_data_def Let_def do_write_def do_read_def conn_ok_def)
qed

lemma on_signal_simps [simp]:
  "conns (on_signal s) = (\<lambda>i. if i \<in> managed s then map_option conn_stop (conns s i) else conns s i)"
  "managed (on_signal s) = {}" "acceptor_open (on_signal s) = False" "awaiting_stop (on_signal s) = False"
  "accepting (on_signal s) = accepting s"
proof -
  let ?s = "s\<lparr>awaiting_stop := False, acceptor_open := False\<rparr>"
  have "conns ?s = conns s" "managed ?s = managed s" by simp_all
  then show "conns (on_signal s) = (\<lambda>i. if i \<in> managed s then map_option conn_stop (conns s i) else conns s i)"
    unfolding on_signal_def manager_stop_all_def by (simp only:) simp
qed (simp_all add: on_signal_def manager_stop_all_def)

lemma server_step_inv:
  assumes "server_step doc_root files s s'" "server_inv doc_root files s"
  shows "server_inv doc_root files s'"
  using assms
proof (induction rule: server_step.induct)
  case (step_accept s i major minor status ec)
  let ?c = "connection_new major minor status" and ?s = "s\<lparr>accepting := False\<rparr>"
  have "conn_ok doc_root files True (conn_start ?c)"
    using parser_inv_new [of major minor] by (simp add: conn_ok_def conn_start_def do_read_def connection_new_def)
  then have "server_inv doc_root files (manager_start i ?c ?s)" if "acceptor_open ?s"
    using step_accept.prems that server_inv_replace [of doc_root files ?s True "conn_start ?c" "manager_start i ?c ?s" i]
    by (simp add: manager_start_def)
  with step_accept.prems show ?case by (simp add: on_accept_def Let_def)
next
  case (step_read s i c ec data s')
  have c: "conn_ok doc_root files (i \<in> managed s) c" using server_invD(1) [OF step_read.prems step_read(1)] .
  then have c': "parser_inv (conn_parser c) (conn_request c)" by (simp add: conn_ok_def)
  show ?case
  proof (cases ec)
    case NoError
    with step_read(5) obtain d where "on_data doc_root files data (c\<lparr>conn_pending := NoOp\<rparr>) = Some d"
        "s' = set_conn i d s"
      by (auto simp: on_read_def split: bind_splits)
    with on_data_ok [OF c step_read(2)] server_inv_keep [OF step_read.prems] show ?thesis by simp
  next
    case Operation_aborted
    with step_read c have "conn_ok doc_root files (i \<in> managed s) (c\<lparr>conn_pending := NoOp\<rparr>)" by (simp add: conn_ok_def)
    with Operation_aborted step_read server_inv_keep [OF step_read.prems] show ?thesis by (auto simp: on_read_def)
  next
    case Other_error
    with step_read c' server_inv_stop [OF step_read.prems, of "c\<lparr>conn_pending := NoOp\<rparr>" i] show ?thesis
      by (simp add: on_read_def)
  qed
next
  case (step_write s i c bufs ec)
  have c: "conn_ok doc_root files (i \<in> managed s) c" using server_invD(1) [OF step_write.prems step_write(1)] .
  show ?case
  proof (cases "ec = Operation_aborted")
    case True
    with step_write c have "conn_ok doc_root files (i \<in> managed s) (c\<lparr>conn_pending := NoOp\<rparr>)" by (simp add: conn_ok_def)
    with True step_write server_inv_keep show ?thesis by (simp add: on_write_def)
  next
    case False
    with c server_inv_stop [OF step_write.prems] show ?thesis by (simp add: on_write_def conn_ok_def Let_def)
  qed
next
  case (step_signal s)
  have "conn_ok doc_root files False c" if "conns s i = Some c" "i \<notin> managed s" for i c
    using server_invD(1) [OF step_signal(2) that(1)] that(2) by simp
  moreover have "conn_ok doc_root files False (conn_stop c)" if "conns s i = Some c" for i c
    using conn_ok_stop server_invD(1) [OF step_signal(2) that] by blast
  moreover have "dom (\<lambda>i. if i \<in> m then map_option conn_stop (conns s i) else conns s i) = dom (conns s)" for m
    by (auto split: if_splits)
  ultimately show ?case using server_invD(5) [OF step_signal(2)] by (auto simp: server_inv_def)
qed

lemma server_reachable_inv: "server_reachable doc_root files s \<Longrightarrow> server_inv doc_root files s"
proof (induction rule: server_reachable.induct)
  case reach_init
  then show ?case by (simp add: server_inv_def server_new_def do_accept_def do_await_stop_def)
next
  case (reach_step s s')
  then show ?case using server_step_inv by blast
qed

lemmas server_new_defs = server_new_def do_accept_def do_await_stop_def Let_def

text \<open>While the server has not been stopped, it waits for the next client.\<close>

lemma server_step_accepting:
  "server_step doc_root files s s' \<Longrightarrow> acceptor_open s \<longrightarrow> accepting s \<Longrightarrow> acceptor_open s' \<longrightarrow> accepting s'"
  by (induction rule: server_step.induct)
    (auto simp: on_accept_def do_accept_def on_read_def on_write_def on_signal_def manager_stop_all_def
      manager_stop_def set_conn_def Let_def split: if_splits bind_splits)

lemma server_reachable_accepting: "server_reachable doc_root files s \<Longrightarrow> acceptor_open s \<longrightarrow> accepting s"
proof (induction rule: server_reachable.induct)
  case reach_init
  then show ?case by (simp add: server_new_def do_accept_def Let_def)
next
  case (reach_step s s')
  then show ?case using server_step_accepting by blast
qed

subsection \<open>Stopping\<close>

text \<open>
  A bound on the number of handlers that can still run once the acceptor is closed: one for an
  outstanding accept, and for a connection one, or two when its outstanding operation may still
  succeed.
\<close>

definition conn_work :: "connection \<Rightarrow> nat" where
  "conn_work c = (if conn_pending c = NoOp then 0 else if op_valid c then 2 else 1)"

definition work_left :: "http_server \<Rightarrow> nat" where
  "work_left s = (if accepting s then 1 else 0) + (\<Sum>i \<in> dom (conns s). conn_work (the (conns s i)))"

definition quiescent :: "http_server \<Rightarrow> bool" where
  "quiescent s \<longleftrightarrow> \<not> accepting s \<and> \<not> awaiting_stop s \<and> (\<forall>i c. conns s i = Some c \<longrightarrow> conn_pending c = NoOp)"

lemma work_left_zero:
  assumes "finite (dom (conns s))" "\<not> awaiting_stop s"
  shows "work_left s = 0 \<longleftrightarrow> quiescent s"
proof -
  have "(\<forall>i \<in> dom (conns s). conn_work (the (conns s i)) = 0) \<longleftrightarrow> (\<forall>i c. conns s i = Some c \<longrightarrow> conn_pending c = NoOp)"
    by (force simp: conn_work_def split: if_splits)
  with assms show ?thesis by (simp add: work_left_def quiescent_def)
qed

lemma work_left_set_conn:
  assumes "finite (dom (conns s))" "conns s i = Some c"
  shows "work_left (set_conn i c' s) + conn_work c = work_left s + conn_work c'"
proof -
  let ?w = "\<lambda>i. conn_work (the (conns s i))"
  have i: "i \<in> dom (conns s)" using assms(2) by auto
  have "(\<Sum>j \<in> dom (conns s). conn_work (the (((conns s)(i \<mapsto> c')) j))) = conn_work c' + sum ?w (dom (conns s) - {i})"
    using assms(1) i by (subst sum.remove [of _ i]) (auto intro!: sum.cong)
  moreover have "sum ?w (dom (conns s)) = conn_work c + sum ?w (dom (conns s) - {i})"
    using assms i by (subst sum.remove [of _ i]) auto
  ultimately show ?thesis using i by (simp add: work_left_def set_conn_def insert_absorb)
qed

lemma work_left_managed [simp]: "work_left (s\<lparr>managed := m\<rparr>) = work_left s"
  by (simp add: work_left_def)

lemma conn_work_simps [simp]:
  "conn_work (conn_stop c) = conn_work c" "conn_work (c\<lparr>conn_pending := NoOp\<rparr>) = 0"
  "conn_work (c\<lparr>conn_pending := NoOp, socket_shut := b\<rparr>) = 0"
  by (simp_all add: conn_work_def conn_stop_def)

lemma on_data_work:
  "on_data doc_root files data c = Some c' \<Longrightarrow> socket_open c' = socket_open c \<and> (\<not> socket_open c \<longrightarrow> conn_work c' \<le> 1)"
  by (auto simp: on_data_def Let_def do_read_def do_write_def conn_work_def
      split: bind_splits result_type.splits)

lemma work_left_less:
  assumes "finite (dom (conns s))" "conns s i = Some c" "conn_work c' < conn_work c"
  shows "work_left (set_conn i c' s) < work_left s" "work_left (set_conn i c' (s\<lparr>managed := m\<rparr>)) < work_left s"
  using work_left_set_conn [of s i c c'] work_left_set_conn [of "s\<lparr>managed := m\<rparr>" i c c'] assms by simp_all

lemma on_read_work:
  assumes "finite (dom (conns s))" "conns s i = Some c" "conn_pending c = Reading" "ec = NoError \<longrightarrow> op_valid c"
    "\<not> socket_open c" "on_read doc_root files i c ec data s = Some s'"
  shows "work_left s' < work_left s \<and> acceptor_open s' = acceptor_open s"
proof (cases "ec = NoError")
  case True
  with assms(6) obtain d where d: "on_data doc_root files data (c\<lparr>conn_pending := NoOp\<rparr>) = Some d" "s' = set_conn i d s"
    by (auto simp: on_read_def split: bind_splits)
  have "conn_work c = 2" using True assms(3,4) by (simp add: conn_work_def)
  with on_data_work [OF d(1)] assms(5) have "conn_work d < conn_work c" by simp
  with work_left_less(1) [OF assms(1,2) this] d(2) show ?thesis by (simp add: set_conn_def)
next
  case False
  have "conn_work c > 0" using assms(3) by (simp add: conn_work_def)
  with False assms(6) work_left_less [OF assms(1,2)] show ?thesis
    by (cases ec) (auto simp: on_read_def manager_stop_def, simp_all add: set_conn_def)
qed

lemma on_write_work:
  assumes "finite (dom (conns s))" "conns s i = Some c" "conn_pending c = Writing bufs"
  shows "work_left (on_write i c ec s) < work_left s \<and> acceptor_open (on_write i c ec s) = acceptor_open s"
proof -
  have "conn_work c > 0" using assms(3) by (simp add: conn_work_def)
  with work_left_less [OF assms(1,2)] show ?thesis
    by (cases ec) (simp_all add: on_write_def manager_stop_def, simp_all add: set_conn_def)
qed

lemma server_step_work:
  assumes "server_step doc_root files s s'" "server_inv doc_root files s" "\<not> acceptor_open s"
  shows "work_left s' < work_left s \<and> \<not> acceptor_open s'"
  using assms
proof (induction rule: server_step.induct)
  case (step_accept s i major minor status ec)
  then show ?case by (simp add: on_accept_def work_left_def Let_def)
next
  case (step_read s i c ec data s')
  have "\<not> socket_open c"
    using server_invD(1) [OF step_read.prems(1) step_read(1)] server_invD(3) [OF step_read.prems] by (simp add: conn_ok_def)
  with on_read_work [OF server_invD(5) [OF step_read.prems(1)] step_read(1,2) _ _ step_read(5)] step_read show ?case
    by simp
next
  case (step_write s i c bufs ec)
  then show ?case using on_write_work [OF server_invD(5)] by simp
next
  case (step_signal s)
  with server_invD(4) show ?case by blast
qed

text \<open>An outstanding operation can always complete, with an error if with nothing else.\<close>

lemma server_step_progress:
  assumes "\<not> quiescent s" "finite (dom (conns s))"
  shows "\<exists>s'. server_step doc_root files s s'"
proof -
  consider "accepting s" | "awaiting_stop s" | i c where "conns s i = Some c" "conn_pending c \<noteq> NoOp"
    using assms(1) by (auto simp: quiescent_def)
  then show ?thesis
  proof cases
    case 1
    obtain i where "i \<notin> dom (conns s)" using assms(2) ex_new_if_finite infinite_UNIV_nat by blast
    with 1 show ?thesis using step_accept by blast
  next
    case 2
    then show ?thesis using step_signal by blast
  next
    case 3
    then show ?thesis
    proof (cases "conn_pending c")
      case Reading
      have "on_read doc_root files i c Other_error [] s = Some (manager_stop i (c\<lparr>conn_pending := NoOp\<rparr>) s)"
        by (simp add: on_read_def)
      with 3 Reading show ?thesis by (intro exI step_read [where ec = Other_error]) simp_all
    next
      case (Writing bufs)
      with 3 have "server_step doc_root files s (on_write i c Other_error s)" by (intro step_write) simp_all
      then show ?thesis ..
    qed simp
  qed
qed

text \<open>Runs of the server, by their number of steps.\<close>

inductive server_run :: "string \<Rightarrow> (string \<Rightarrow> string option) \<Rightarrow> nat \<Rightarrow> http_server \<Rightarrow> http_server \<Rightarrow> bool"
  for doc_root files where
  run_nil: "server_run doc_root files 0 s s"
| run_step: "server_run doc_root files n s s' \<Longrightarrow> server_step doc_root files s' s'' \<Longrightarrow>
    server_run doc_root files (Suc n) s s''"

lemma server_run_work:
  assumes "server_run doc_root files n s s'" "server_inv doc_root files s" "\<not> acceptor_open s"
  shows "n + work_left s' \<le> work_left s \<and> server_inv doc_root files s' \<and> \<not> acceptor_open s'"
  using assms
proof (induction rule: server_run.induct)
  case (run_step n s s' s'')
  then show ?case using server_step_work [OF run_step(2)] server_step_inv [OF run_step(2)] by auto
qed simp

lemma work_left_bound:
  assumes "finite (dom (conns s))"
  shows "work_left s \<le> 1 + 2 * card (dom (conns s))"
proof -
  have "(\<Sum>i \<in> dom (conns s). conn_work (the (conns s i))) \<le> (\<Sum>i \<in> dom (conns s). 2)"
    by (rule sum_mono) (simp add: conn_work_def)
  then show ?thesis by (simp add: work_left_def)
qed

subsection \<open>The chunks in which data arrives do not matter\<close>

fun feed :: "string \<Rightarrow> (string \<Rightarrow> string option) \<Rightarrow> connection \<Rightarrow> string list \<Rightarrow> connection option" where
  "feed doc_root files c [] = Some c"
| "feed doc_root files c (data # ds) =
     (if conn_pending c = Reading then do {
        c \<leftarrow> on_data doc_root files data (c\<lparr>conn_pending := NoOp\<rparr>);
        feed doc_root files c ds
      } else Some c)"

text \<open>What the handler makes of a result of the parser; it forgets what the connection was waiting for.\<close>

definition react :: "string \<Rightarrow> (string \<Rightarrow> string option) \<Rightarrow> result_type \<times> string \<times> parser_state \<times> request \<Rightarrow>
    connection \<Rightarrow> connection" where
  "react doc_root files r c = (case r of (result, _, st, req) \<Rightarrow>
     let c = c\<lparr>conn_parser := st, conn_request := req\<rparr> in
     case result of
       Good \<Rightarrow> do_write (c\<lparr>conn_reply := handle_request doc_root files req (conn_reply c)\<rparr>)
     | Bad \<Rightarrow> do_write (c\<lparr>conn_reply := stock_reply Status_bad_request\<rparr>)
     | Indeterminate \<Rightarrow> do_read c)"

lemma on_data_react:
  "on_data doc_root files data c =
     map_option (\<lambda>r. react doc_root files r c) (parse (conn_parser c) (conn_request c) data)"
  by (cases "parse (conn_parser c) (conn_request c) data") (auto simp: on_data_def react_def Let_def)

lemmas react_defs = react_def Let_def do_read_def do_write_def prod.case

lemma react_simps [simp]:
  "conn_pending (react doc_root files (result, rest, st, req) c) = Reading \<longleftrightarrow> result = Indeterminate"
  "conn_parser (react doc_root files (result, rest, st, req) c) = st"
  "conn_request (react doc_root files (result, rest, st, req) c) = req"
  unfolding react_defs by (cases result; simp)+

lemma react_again [simp]:
  "react doc_root files r (c\<lparr>conn_pending := x\<rparr>) = react doc_root files r c"
  "react doc_root files r (react doc_root files (Indeterminate, rest, st, req) c) = react doc_root files r c"
proof -
  obtain result' rest' st' req' where r: "r = (result', rest', st', req')" by (cases r)
  show "react doc_root files r (c\<lparr>conn_pending := x\<rparr>) = react doc_root files r c"
    unfolding r react_defs by (cases result') simp_all
  show "react doc_root files r (react doc_root files (Indeterminate, rest, st, req) c) = react doc_root files r c"
    unfolding r react_defs by (cases result') simp_all
qed

lemma react_rest: "react doc_root files (result, rest, st, req) c = react doc_root files (result, [], st, req) c"
  by (simp add: react_def)

lemma on_data_pending [simp]: "on_data doc_root files data (c\<lparr>conn_pending := x\<rparr>) = on_data doc_root files data c"
  by (simp add: on_data_react)

lemma on_data_append:
  "on_data doc_root files (xs @ ys) c = do {
     c' \<leftarrow> on_data doc_root files xs c;
     if conn_pending c' = Reading then on_data doc_root files ys c' else Some c'
   }"
proof (cases "parse (conn_parser c) (conn_request c) xs")
  case None
  then show ?thesis by (simp add: on_data_react parse_append)
next
  case (Some p)
  obtain result rest st req where "p = (result, rest, st, req)" by (cases p)
  with Some react_rest [of doc_root files result "rest @ ys" st req c] react_rest [of doc_root files result rest st req c]
  show ?thesis by (simp add: on_data_react parse_append)
qed

lemma on_data_valid: "on_data doc_root files data c = Some d \<Longrightarrow> op_valid d = socket_open d"
  by (auto simp: on_data_def Let_def do_read_def do_write_def split: bind_splits result_type.splits)

lemma feed_concat:
  "conn_pending c = Reading \<Longrightarrow> op_valid c = socket_open c \<Longrightarrow> feed doc_root files c ds = on_data doc_root files (concat ds) c"
proof (induction ds arbitrary: c)
  case Nil
  then show ?case by (cases c) (simp add: on_data_def do_read_def)
next
  case (Cons data ds)
  show ?case
  proof (cases "on_data doc_root files data c")
    case None
    with Cons.prems show ?thesis by (simp add: on_data_append)
  next
    case (Some d)
    show ?thesis
    proof (cases "conn_pending d = Reading")
      case True
      with Some Cons on_data_valid [OF Some] show ?thesis by (simp add: on_data_append)
    next
      case False
      with Some Cons.prems show ?thesis by (cases ds) (simp_all add: on_data_append)
    qed
  qed
qed

text \<open>The same for a connection in any state, when there is at least one piece.\<close>

lemma feed_pieces:
  assumes "ds \<noteq> []" "conn_pending c = Reading"
  shows "feed doc_root files c ds = on_data doc_root files (concat ds) c"
proof -
  obtain d ds' where ds: "ds = d # ds'" using assms(1) by (cases ds) auto
  show ?thesis
  proof (cases "on_data doc_root files d c")
    case (Some c')
    then show ?thesis
    proof (cases "conn_pending c' = Reading")
      case True
      with Some feed_concat [OF True on_data_valid [OF Some]] assms(2) show ?thesis by (simp add: ds on_data_append)
    next
      case False
      with Some assms(2) show ?thesis by (cases ds') (simp_all add: ds on_data_append)
    qed
  qed (use assms(2) in \<open>simp add: ds on_data_append\<close>)
qed

end
