(* ===== verification/Fec_Masks.thy ===== *)
theory Fec_Masks
  imports Fec_Tables
begin

text \<open>
  Packet masks of forward error correction: \<^verbatim>\<open>forward_error_correction_internal.cc\<close>.

  A mask is a matrix of bits, one row per FEC packet and one column per media packet; a row is a number
  of bytes, the first column the highest bit of the first byte.  The matrices are flat byte arrays, and
  \<open>None\<close> is an access out of bounds or a failed check.
\<close>

subsection \<open>Sizes\<close>

definition kUlpfecMaxMediaPackets :: nat where
  "kUlpfecMaxMediaPackets = 48"

definition kUlpfecPacketMaskSizeLBitClear :: nat where
  "kUlpfecPacketMaskSizeLBitClear = 2"

definition kUlpfecPacketMaskSizeLBitSet :: nat where
  "kUlpfecPacketMaskSizeLBitSet = 6"

definition PacketMaskSize :: "nat \<Rightarrow> nat option" where
  "PacketMaskSize num_sequence_numbers = do {
     dcheck (num_sequence_numbers \<le> 8 * kUlpfecPacketMaskSizeLBitSet);
     Some (if num_sequence_numbers > 8 * kUlpfecPacketMaskSizeLBitClear
           then kUlpfecPacketMaskSizeLBitSet else kUlpfecPacketMaskSizeLBitClear)
   }"

subsection \<open>The tables\<close>

datatype FecMaskType = kFecMaskRandom | kFecMaskBursty

text \<open>The loops that hop over entries of a table; a pointer into the table is an index.\<close>

fun skip_data :: "nat \<Rightarrow> nat \<Rightarrow> nat \<Rightarrow> nat" where
  "skip_data increment 0 entry = entry"
| "skip_data increment (Suc j) entry = skip_data increment j entry + increment * (j + 1)"

fun skip_entries :: "u8 list \<Rightarrow> nat \<Rightarrow> nat \<Rightarrow> nat \<Rightarrow> nat \<Rightarrow> (nat \<times> nat) option" where
  "skip_entries table i 0 increment entry = Some (increment, entry)"
| "skip_entries table i (Suc n) increment entry = do {
     let increment = (if i = 16 then 6 else increment);
     count \<leftarrow> load table entry;
     skip_entries table (i + 1) n increment (skip_data increment (unat count) (entry + 1))
   }"

definition LookUpInFecTable :: "u8 list \<Rightarrow> nat \<Rightarrow> nat \<Rightarrow> u8 list option" where
  "LookUpInFecTable table media_packet_index fec_index = do {
     table_size \<leftarrow> load table 0;
     dcheck (media_packet_index < unat table_size);
     (increment, entry) \<leftarrow> skip_entries table 0 media_packet_index 2 1;
     let increment = (if media_packet_index = 16 then 6 else increment);
     count \<leftarrow> load table entry;
     dcheck (fec_index < unat count);
     slice table (skip_data increment fec_index (entry + 1)) (increment * (fec_index + 1))
   }"

text \<open>One byte of a generated mask.\<close>

definition mask_code :: "nat \<Rightarrow> nat \<Rightarrow> nat \<Rightarrow> nat \<Rightarrow> u8" where
  "mask_code num_media_packets num_fec_packets row col =
     (if (col * 8) mod num_fec_packets = row \<and> col * 8 < num_media_packets then 0x80 else 0x00) OR
     (if (col * 8 + 1) mod num_fec_packets = row \<and> col * 8 + 1 < num_media_packets then 0x40 else 0x00) OR
     (if (col * 8 + 2) mod num_fec_packets = row \<and> col * 8 + 2 < num_media_packets then 0x20 else 0x00) OR
     (if (col * 8 + 3) mod num_fec_packets = row \<and> col * 8 + 3 < num_media_packets then 0x10 else 0x00) OR
     (if (col * 8 + 4) mod num_fec_packets = row \<and> col * 8 + 4 < num_media_packets then 0x08 else 0x00) OR
     (if (col * 8 + 5) mod num_fec_packets = row \<and> col * 8 + 5 < num_media_packets then 0x04 else 0x00) OR
     (if (col * 8 + 6) mod num_fec_packets = row \<and> col * 8 + 6 < num_media_packets then 0x02 else 0x00) OR
     (if (col * 8 + 7) mod num_fec_packets = row \<and> col * 8 + 7 < num_media_packets then 0x01 else 0x00)"

definition LookUp :: "u8 list \<Rightarrow> nat \<Rightarrow> nat \<Rightarrow> u8 list option" where
  "LookUp table num_media_packets num_fec_packets = do {
     dcheck (num_media_packets > 0);
     dcheck (num_fec_packets > 0);
     dcheck (num_media_packets \<le> kUlpfecMaxMediaPackets);
     dcheck (num_fec_packets \<le> num_media_packets);
     if num_media_packets \<le> 12 then LookUpInFecTable table (num_media_packets - 1) (num_fec_packets - 1)
     else do {
       mask_length \<leftarrow> PacketMaskSize num_media_packets;
       Some (concat (map (\<lambda>row. map (mask_code num_media_packets num_fec_packets row) [0..<mask_length])
               [0..<num_fec_packets]))
     }
   }"

definition PickTable :: "FecMaskType \<Rightarrow> nat \<Rightarrow> u8 list option" where
  "PickTable fec_mask_type num_media_packets = do {
     dcheck (num_media_packets \<le> kUlpfecMaxMediaPackets);
     Some (if fec_mask_type \<noteq> kFecMaskRandom \<and> num_media_packets \<le> unat (hd kPacketMaskBurstyTbl)
           then kPacketMaskBurstyTbl else kPacketMaskRandomTbl)
   }"

subsection \<open>Fitting masks\<close>

text \<open>A loop over the rows \<open>0, ..., n - 1\<close>.\<close>

fun each_row :: "nat \<Rightarrow> (nat \<Rightarrow> 's \<Rightarrow> 's option) \<Rightarrow> 's \<Rightarrow> 's option" where
  "each_row 0 f s = Some s"
| "each_row (Suc row) f s = do { s \<leftarrow> each_row row f s; f row s }"

text \<open>
  \<open>FitSubMask\<close> writes at an offset of the output mask, since it is called with a pointer into it.  The
  loop copies one row after the other.
\<close>

fun fit_rows :: "nat \<Rightarrow> nat \<Rightarrow> nat \<Rightarrow> u8 list \<Rightarrow> nat \<Rightarrow> u8 list \<Rightarrow> u8 list option" where
  "fit_rows num_mask_bytes num_sub_mask_bytes 0 sub_mask offset packet_mask = Some packet_mask"
| "fit_rows num_mask_bytes num_sub_mask_bytes (Suc i) sub_mask offset packet_mask = do {
     packet_mask \<leftarrow> fit_rows num_mask_bytes num_sub_mask_bytes i sub_mask offset packet_mask;
     row \<leftarrow> slice sub_mask (i * num_sub_mask_bytes) num_sub_mask_bytes;
     copy_to packet_mask (offset + i * num_mask_bytes) row
   }"

definition FitSubMask :: "nat \<Rightarrow> nat \<Rightarrow> nat \<Rightarrow> u8 list \<Rightarrow> nat \<Rightarrow> u8 list \<Rightarrow> u8 list option" where
  "FitSubMask num_mask_bytes num_sub_mask_bytes num_rows sub_mask offset packet_mask =
     (if num_mask_bytes = num_sub_mask_bytes then do {
        rows \<leftarrow> slice sub_mask 0 (num_rows * num_sub_mask_bytes);
        copy_to packet_mask offset rows
      }
      else fit_rows num_mask_bytes num_sub_mask_bytes num_rows sub_mask offset packet_mask)"

text \<open>
  \<open>shift_bytes\<close> is the loop over the bytes of one row, from the last one to the first; a byte shifted by 8
  bits is zero.
\<close>

fun shift_bytes :: "nat \<Rightarrow> nat \<Rightarrow> u8 list \<Rightarrow> nat \<Rightarrow> nat \<Rightarrow> u8 list \<Rightarrow> u8 list option" where
  "shift_bytes num_bit_shifts 0 sub_mask pkt_mask_idx pkt_mask_idx2 packet_mask = do {
     b \<leftarrow> load sub_mask pkt_mask_idx2;
     store packet_mask pkt_mask_idx (drop_bit num_bit_shifts b)
   }"
| "shift_bytes num_bit_shifts (Suc j) sub_mask pkt_mask_idx pkt_mask_idx2 packet_mask = do {
     curr \<leftarrow> load sub_mask pkt_mask_idx2;
     prev \<leftarrow> load sub_mask (pkt_mask_idx2 - 1);
     packet_mask \<leftarrow> store packet_mask pkt_mask_idx (drop_bit num_bit_shifts curr OR push_bit (8 - num_bit_shifts) prev);
     shift_bytes num_bit_shifts j sub_mask (pkt_mask_idx - 1) (pkt_mask_idx2 - 1) packet_mask
   }"

definition ShiftFitSubMask :: "nat \<Rightarrow> nat \<Rightarrow> nat \<Rightarrow> nat \<Rightarrow> u8 list \<Rightarrow> u8 list \<Rightarrow> u8 list option" where
  "ShiftFitSubMask num_mask_bytes res_mask_bytes num_column_shift end_row sub_mask packet_mask = do {
     let num_bit_shifts = num_column_shift mod 8;
     let num_byte_shifts = num_column_shift div 8;
     each_row (end_row - num_column_shift) (\<lambda>k packet_mask. do {
       let pkt_mask_idx = (num_column_shift + k) * num_mask_bytes + res_mask_bytes - 1 + num_byte_shifts;
       let pkt_mask_idx2 = k * res_mask_bytes + res_mask_bytes - 1;
       packet_mask \<leftarrow> (if num_mask_bytes > res_mask_bytes then do {
           b \<leftarrow> load sub_mask pkt_mask_idx2;
           store packet_mask (pkt_mask_idx + 1) (push_bit (8 - num_bit_shifts) b)
         } else Some packet_mask);
       shift_bytes num_bit_shifts (res_mask_bytes - 1) sub_mask pkt_mask_idx pkt_mask_idx2 packet_mask
     }) packet_mask
   }"

subsection \<open>Unequal protection\<close>

text \<open>The parameter \<^verbatim>\<open>alloc_par\<close> is 0.5, and a \<^verbatim>\<open>float\<close> represents the halves of these numbers exactly.\<close>

definition SetProtectionAllocation :: "nat \<Rightarrow> nat \<Rightarrow> nat \<Rightarrow> nat" where
  "SetProtectionAllocation num_media_packets num_fec_packets num_imp_packets =
     (let max_num_fec_for_imp = num_fec_packets div 2;
          num_fec_for_imp_packets = (if num_imp_packets < max_num_fec_for_imp then num_imp_packets else max_num_fec_for_imp)
      in if num_fec_packets = 1 \<and> num_media_packets > 2 * num_imp_packets then 0 else num_fec_for_imp_packets)"

definition ImportantPacketProtection :: "nat \<Rightarrow> nat \<Rightarrow> nat \<Rightarrow> u8 list \<Rightarrow> u8 list \<Rightarrow> u8 list option" where
  "ImportantPacketProtection num_fec_for_imp_packets num_imp_packets num_mask_bytes packet_mask table = do {
     num_imp_mask_bytes \<leftarrow> PacketMaskSize num_imp_packets;
     packet_mask_sub_1 \<leftarrow> LookUp table num_imp_packets num_fec_for_imp_packets;
     FitSubMask num_mask_bytes num_imp_mask_bytes num_fec_for_imp_packets packet_mask_sub_1 0 packet_mask
   }"

datatype ProtectionMode = kModeNoOverlap | kModeOverlap | kModeBiasFirstPacket

definition RemainingPacketProtection ::
    "nat \<Rightarrow> nat \<Rightarrow> nat \<Rightarrow> nat \<Rightarrow> ProtectionMode \<Rightarrow> u8 list \<Rightarrow> u8 list \<Rightarrow> u8 list option" where
  "RemainingPacketProtection num_media_packets num_fec_remaining num_fec_for_imp_packets num_mask_bytes mode packet_mask table =
     (if mode = kModeNoOverlap then do {
        res_mask_bytes \<leftarrow> PacketMaskSize (num_media_packets - num_fec_for_imp_packets);
        packet_mask_sub_21 \<leftarrow> LookUp table (num_media_packets - num_fec_for_imp_packets) num_fec_remaining;
        ShiftFitSubMask num_mask_bytes res_mask_bytes num_fec_for_imp_packets (num_fec_for_imp_packets + num_fec_remaining)
          packet_mask_sub_21 packet_mask
      }
      else do {
        packet_mask_sub_22 \<leftarrow> LookUp table num_media_packets num_fec_remaining;
        packet_mask \<leftarrow> FitSubMask num_mask_bytes num_mask_bytes num_fec_remaining packet_mask_sub_22
          (num_fec_for_imp_packets * num_mask_bytes) packet_mask;
        if mode = kModeBiasFirstPacket then each_row num_fec_remaining (\<lambda>i packet_mask. do {
          b \<leftarrow> load packet_mask (i * num_mask_bytes);
          store packet_mask (i * num_mask_bytes) (b OR push_bit 7 1)
        }) packet_mask
        else Some packet_mask
      })"

definition UnequalProtectionMask :: "nat \<Rightarrow> nat \<Rightarrow> nat \<Rightarrow> nat \<Rightarrow> u8 list \<Rightarrow> u8 list \<Rightarrow> u8 list option" where
  "UnequalProtectionMask num_media_packets num_fec_packets num_imp_packets num_mask_bytes packet_mask table = do {
     let mode = kModeOverlap;
     let num_fec_for_imp_packets = (if mode \<noteq> kModeBiasFirstPacket
       then SetProtectionAllocation num_media_packets num_fec_packets num_imp_packets else 0);
     let num_fec_remaining = num_fec_packets - num_fec_for_imp_packets;
     packet_mask \<leftarrow> (if num_fec_for_imp_packets > 0
       then ImportantPacketProtection num_fec_for_imp_packets num_imp_packets num_mask_bytes packet_mask table
       else Some packet_mask);
     if num_fec_remaining > 0
     then RemainingPacketProtection num_media_packets num_fec_remaining num_fec_for_imp_packets num_mask_bytes mode packet_mask table
     else Some packet_mask
   }"

definition GeneratePacketMasks :: "nat \<Rightarrow> nat \<Rightarrow> nat \<Rightarrow> bool \<Rightarrow> u8 list \<Rightarrow> u8 list \<Rightarrow> u8 list option" where
  "GeneratePacketMasks num_media_packets num_fec_packets num_imp_packets use_unequal_protection table packet_mask = do {
     dcheck (num_media_packets > 0);
     dcheck (num_fec_packets > 0);
     dcheck (num_fec_packets \<le> num_media_packets);
     dcheck (num_imp_packets \<le> num_media_packets);
     num_mask_bytes \<leftarrow> PacketMaskSize num_media_packets;
     if \<not> use_unequal_protection \<or> num_imp_packets = 0 then do {
       mask \<leftarrow> LookUp table num_media_packets num_fec_packets;
       copy_to packet_mask 0 mask
     }
     else UnequalProtectionMask num_media_packets num_fec_packets num_imp_packets num_mask_bytes packet_mask table
   }"

subsection \<open>Columns\<close>

text \<open>The two functions that insert columns, with their loops over the rows.\<close>

definition InsertZeroColumns :: "nat \<Rightarrow> u8 list \<Rightarrow> nat \<Rightarrow> nat \<Rightarrow> nat \<Rightarrow> u8 list option" where
  "InsertZeroColumns num_zeros new_mask new_mask_bytes num_fec_packets new_bit_index =
     each_row num_fec_packets (\<lambda>row new_mask. do {
       let new_byte_index = row * new_mask_bytes + new_bit_index div 8;
       let max_shifts = 7 - new_bit_index mod 8;
       b \<leftarrow> load new_mask new_byte_index;
       store new_mask new_byte_index (push_bit (min num_zeros max_shifts) b)
     }) new_mask"

definition CopyColumn :: "u8 list \<Rightarrow> nat \<Rightarrow> u8 list \<Rightarrow> nat \<Rightarrow> nat \<Rightarrow> nat \<Rightarrow> nat \<Rightarrow> (u8 list \<times> u8 list) option" where
  "CopyColumn new_mask new_mask_bytes old_mask old_mask_bytes num_fec_packets new_bit_index old_bit_index = do {
     dcheck (new_bit_index < 8 * new_mask_bytes);
     each_row num_fec_packets (\<lambda>row (new_mask, old_mask). do {
       let new_byte_index = row * new_mask_bytes + new_bit_index div 8;
       let old_byte_index = row * old_mask_bytes + old_bit_index div 8;
       n \<leftarrow> load new_mask new_byte_index;
       ob \<leftarrow> load old_mask old_byte_index;
       let n = n OR drop_bit 7 (ob AND 0x80);
       new_mask \<leftarrow> store new_mask new_byte_index (if new_bit_index mod 8 \<noteq> 7 then push_bit 1 n else n);
       old_mask \<leftarrow> store old_mask old_byte_index (push_bit 1 ob);
       Some (new_mask, old_mask)
     }) (new_mask, old_mask)
   }"

subsection \<open>What the masks protect\<close>

definition mask_bit :: "u8 list \<Rightarrow> nat \<Rightarrow> nat \<Rightarrow> nat \<Rightarrow> bool" where
  "mask_bit pm bytes row col = bit (pm ! (row * bytes + col div 8)) (7 - col mod 8)"

text \<open>
  A mask for \<open>m\<close> media packets and \<open>f\<close> FEC packets: every FEC packet protects something, every media packet
  is protected, and nothing else is.
\<close>

definition mask_ok :: "nat \<Rightarrow> nat \<Rightarrow> nat \<Rightarrow> u8 list \<Rightarrow> bool" where
  "mask_ok m f bytes pm \<longleftrightarrow> (\<forall>r < f. \<exists>c < m. mask_bit pm bytes r c) \<and> (\<forall>c < m. \<exists>r < f. mask_bit pm bytes r c) \<and>
     (\<forall>r < f. \<forall>c < 8 * bytes. mask_bit pm bytes r c \<longrightarrow> c < m)"

text \<open>The same for the two bytes of a table row, in a form that is fast to evaluate.\<close>

definition full_row :: "nat \<Rightarrow> u8 \<times> u8" where
  "full_row m = (if m \<le> 8 then (push_bit (8 - m) 0xff, 0) else (0xff, push_bit (16 - m) 0xff))"

fun or_rows :: "u8 list \<Rightarrow> u8 \<times> u8" where
  "or_rows (a # b # xs) = (case or_rows xs of (p, q) \<Rightarrow> (a OR p, b OR q))"
| "or_rows _ = (0, 0)"

fun rows_nonzero :: "u8 list \<Rightarrow> bool" where
  "rows_nonzero (a # b # xs) \<longleftrightarrow> (a, b) \<noteq> (0, 0) \<and> rows_nonzero xs"
| "rows_nonzero _ \<longleftrightarrow> True"

fun masks_ok :: "nat \<Rightarrow> nat \<Rightarrow> u8 \<times> u8 \<Rightarrow> u8 list \<Rightarrow> bool" where
  "masks_ok f 0 full xs \<longleftrightarrow> xs = []"
| "masks_ok f (Suc n) full xs \<longleftrightarrow> (let pm = take (2 * f) xs in length pm = 2 * f \<and>
     or_rows pm = full \<and> rows_nonzero pm \<and> masks_ok (Suc f) n full (drop (2 * f) xs))"

fun table_ok :: "nat \<Rightarrow> u8 list list \<Rightarrow> bool" where
  "table_ok m [] \<longleftrightarrow> True"
| "table_ok m (block # blocks) \<longleftrightarrow>
     (case block of [] \<Rightarrow> False | c # xs \<Rightarrow> unat c = m \<and> masks_ok 1 m (full_row m) xs) \<and> table_ok (Suc m) blocks"

lemma random_table_ok: "table_ok 1 [kPacketMaskRandom1, kPacketMaskRandom2, kPacketMaskRandom3, kPacketMaskRandom4,
    kPacketMaskRandom5, kPacketMaskRandom6, kPacketMaskRandom7, kPacketMaskRandom8, kPacketMaskRandom9,
    kPacketMaskRandom10, kPacketMaskRandom11, kPacketMaskRandom12]"
  by code_simp

lemma bursty_table_ok: "table_ok 1 [kPacketMaskBursty1, kPacketMaskBursty2, kPacketMaskBursty3, kPacketMaskBursty4,
    kPacketMaskBursty5, kPacketMaskBursty6, kPacketMaskBursty7, kPacketMaskBursty8, kPacketMaskBursty9,
    kPacketMaskBursty10, kPacketMaskBursty11, kPacketMaskBursty12]"
  by code_simp

lemma skip_data_eq: "skip_data 2 n entry = entry + n * (n + 1)"
  by (induction n) auto

lemma masks_ok_length: "masks_ok f n full xs \<Longrightarrow> length xs = 2 * f * n + n * (n - 1)"
proof (induction n arbitrary: f xs)
  case (Suc n)
  from Suc.prems have l: "2 * f \<le> length xs" "masks_ok (Suc f) n full (drop (2 * f) xs)" by (auto simp: Let_def)
  have "length xs = 2 * f + length (drop (2 * f) xs)" using l(1) by simp
  also have "\<dots> = 2 * f * Suc n + Suc n * n" using Suc.IH [OF l(2)] by (cases n) (simp_all add: algebra_simps)
  finally show ?case by simp
qed simp

lemma masks_ok_nth:
  assumes "masks_ok f n full xs" "k < n"
  shows "\<exists>pm. pm = take (2 * (f + k)) (drop (2 * f * k + k * (k - 1)) xs) \<and> length pm = 2 * (f + k) \<and> or_rows pm = full \<and> rows_nonzero pm"
  using assms
proof (induction n arbitrary: f xs k)
  case (Suc n)
  show ?case
  proof (cases k)
    case 0
    with Suc.prems show ?thesis by (simp add: Let_def)
  next
    case (Suc j)
    have e: "2 * Suc f * j + j * (j - 1) + 2 * f = 2 * f * k + k * (k - 1)"
      by (cases j) (simp_all add: Suc algebra_simps)
    have "drop (2 * Suc f * j + j * (j - 1)) (drop (2 * f) xs) = drop (2 * f * k + k * (k - 1)) xs"
      by (simp only: drop_drop e)
    moreover have "masks_ok (Suc f) n full (drop (2 * f) xs)" "j < n" "2 * (Suc f + j) = 2 * (f + k)"
      using Suc.prems Suc by (simp_all add: Let_def)
    ultimately show ?thesis using Suc.IH [of "Suc f" "drop (2 * f) xs" j] by metis
  qed
qed simp

lemma skip_entries_blocks:
  assumes "table_ok (Suc i) blocks" "n < length blocks" "i + n \<le> 16"
  shows "\<exists>before c xs after. skip_entries (pre @ concat blocks) i n 2 (length pre) = Some (2, length before) \<and>
    pre @ concat blocks = before @ (c # xs) @ after \<and> unat c = Suc (i + n) \<and> masks_ok 1 (Suc (i + n)) (full_row (Suc (i + n))) xs"
  using assms
proof (induction n arbitrary: i blocks pre)
  case 0
  then obtain c xs bs where b: "blocks = (c # xs) # bs" "unat c = Suc i" "masks_ok 1 (Suc i) (full_row (Suc i)) xs"
    by (cases blocks) (auto split: list.splits)
  then show ?case by (intro exI [of _ pre] exI [of _ c] exI [of _ xs] exI [of _ "concat bs"]) simp
next
  case (Suc n)
  then obtain c xs bs where b: "blocks = (c # xs) # bs" "unat c = Suc i" "masks_ok 1 (Suc i) (full_row (Suc i)) xs"
      "table_ok (Suc (Suc i)) bs"
    by (cases blocks) (auto split: list.splits)
  have l: "length xs = Suc i * (Suc i + 1)" using masks_ok_length [OF b(3)] by simp
  have "load (pre @ concat blocks) (length pre) = Some c" by (simp add: b(1) load_def nth_append)
  moreover have "skip_data 2 (unat c) (length pre + 1) = length (pre @ c # xs)"
    unfolding skip_data_eq b(2) using l by simp
  moreover have "pre @ concat blocks = (pre @ c # xs) @ concat bs" by (simp add: b(1))
  ultimately show ?case using Suc.IH [OF b(4), of "pre @ c # xs"] Suc.prems b(1) by (simp add: Let_def)
qed

lemma LookUpInFecTable_blocks:
  assumes "table_ok 1 blocks" "length blocks = unat h" "m < unat h" "k \<le> m" "m \<le> 12"
  shows "\<exists>pm. LookUpInFecTable (h # concat blocks) m k = Some pm \<and> length pm = 2 * Suc k \<and>
    or_rows pm = full_row (Suc m) \<and> rows_nonzero pm"
proof -
  obtain before c xs after where b: "skip_entries ([h] @ concat blocks) 0 m 2 (length [h]) = Some (2, length before)"
      "[h] @ concat blocks = before @ (c # xs) @ after" "unat c = Suc m" "masks_ok 1 (Suc m) (full_row (Suc m)) xs"
    using skip_entries_blocks [of 0 blocks m "[h]"] assms by auto
  obtain pm where pm: "pm = take (2 * Suc k) (drop (k * (k + 1)) xs)" "length pm = 2 * Suc k" "or_rows pm = full_row (Suc m)"
      "rows_nonzero pm"
    using masks_ok_nth [OF b(4), of k] assms(4) by (cases k) (auto simp: algebra_simps)
  have "k * (k + 1) + 2 * Suc k \<le> length xs" using pm(1,2) by (simp add: min_def split: if_splits)
  then have "slice (before @ (c # xs) @ after) (length before + 1 + k * (k + 1)) (2 * (k + 1)) = Some pm"
    using pm(1) by (simp add: slice_def)
  then have "slice (h # concat blocks) (length before + 1 + k * (k + 1)) (2 * (k + 1)) = Some pm" using b(2) by simp
  moreover have "load (h # concat blocks) (length before) = Some c" using b(2) by (simp add: load_def nth_append)
  ultimately show ?thesis using b(1,3) assms pm by (simp add: LookUpInFecTable_def skip_data_eq load_def)
qed

text \<open>From the fast form to the bits.\<close>

lemma bit_or_rows:
  "length pm = 2 * f \<Longrightarrow> bit (fst (or_rows pm)) i \<longleftrightarrow> (\<exists>r < f. bit (pm ! (2 * r)) i)"
  "length pm = 2 * f \<Longrightarrow> bit (snd (or_rows pm)) i \<longleftrightarrow> (\<exists>r < f. bit (pm ! (2 * r + 1)) i)"
proof (induction pm arbitrary: f rule: or_rows.induct)
  case (1 a b xs)
  {
    case 1
    then obtain g where "f = Suc g" "length xs = 2 * g" by (cases f) auto
    with "1.IH"(1) show ?case by (auto simp: bit_simps Ex_less_Suc2 split: prod.splits)
  next
    case 2
    then obtain g where "f = Suc g" "length xs = 2 * g" by (cases f) auto
    with "1.IH"(2) show ?case by (auto simp: bit_simps Ex_less_Suc2 split: prod.splits)
  }
qed auto

lemma rows_nonzeroD: "rows_nonzero pm \<Longrightarrow> length pm = 2 * f \<Longrightarrow> r < f \<Longrightarrow> pm ! (2 * r) \<noteq> 0 \<or> pm ! (2 * r + 1) \<noteq> 0"
proof (induction pm arbitrary: f r rule: rows_nonzero.induct)
  case (1 a b xs)
  then obtain g where "f = Suc g" "length xs = 2 * g" by (cases f) auto
  with 1 show ?case by (cases r) auto
qed auto

lemma bit_full_row:
  assumes "1 \<le> m" "m \<le> 12" "c < 16"
  shows "bit (if c < 8 then fst (full_row m) else snd (full_row m)) (7 - c mod 8) \<longleftrightarrow> c < m"
proof -
  have "\<forall>m \<in> set [1..<13]. \<forall>c \<in> set [0..<16].
    bit (if c < 8 then fst (full_row m) else snd (full_row m)) (7 - c mod 8) \<longleftrightarrow> c < m" by code_simp
  with assms show ?thesis by (auto simp del: upt_Suc)
qed

lemma mask_ok_rows:
  assumes "length pm = 2 * f" "or_rows pm = full_row m" "rows_nonzero pm" "1 \<le> m" "m \<le> 12"
  shows "mask_ok m f 2 pm"
proof -
  have any: "(\<exists>r < f. mask_bit pm 2 r c) \<longleftrightarrow> c < m" if "c < 16" for c
  proof (cases "c < 8")
    case True
    then show ?thesis
      using bit_full_row [OF assms(4,5) that] bit_or_rows(1) [OF assms(1)] assms(2)
      by (simp add: mask_bit_def mult.commute)
  next
    case False
    then have "c div 8 = 1" using that by auto
    then show ?thesis
      using False bit_full_row [OF assms(4,5) that] bit_or_rows(2) [OF assms(1)] assms(2)
      by (simp add: mask_bit_def mult.commute)
  qed
  moreover have "\<exists>c < m. mask_bit pm 2 r c" if r: "r < f" for r
  proof -
    consider i where "bit (pm ! (2 * r)) i" | i where "bit (pm ! (2 * r + 1)) i"
      using rows_nonzeroD [OF assms(3,1) r] by (metis bit_0_eq bit_eqI bot_apply bot_bool_def)
    then show ?thesis
    proof cases
      case 1
      then have i: "i < 8" using bit_imp_le_length [OF 1] by simp
      have "mask_bit pm 2 r (7 - i)" using 1 i by (simp add: mask_bit_def mult.commute)
      moreover have "7 - i < 16" by simp
      ultimately show ?thesis using any r by blast
    next
      case 2
      then have i: "i < 8" using bit_imp_le_length [OF 2] by simp
      then have "(15 - i) div 8 = 1" "(15 - i) mod 8 = 7 - i" by (simp_all add: div_nat_eqI mod_nat_eqI)
      with 2 i have "mask_bit pm 2 r (15 - i)" by (simp add: mask_bit_def mult.commute)
      moreover have "15 - i < 16" by simp
      ultimately show ?thesis using any r by blast
    qed
  qed
  ultimately show ?thesis using assms(5) by (auto simp: mask_ok_def)
qed

lemma bit_pow_u8: "n < 8 \<Longrightarrow> bit (2 ^ n :: u8) i \<longleftrightarrow> i = n"
  by (auto simp: bit_exp_iff)

lemma bit_byte_pow:
  "bit (0x80 :: u8) i \<longleftrightarrow> i = 7" "bit (0x40 :: u8) i \<longleftrightarrow> i = 6" "bit (0x20 :: u8) i \<longleftrightarrow> i = 5" "bit (0x10 :: u8) i \<longleftrightarrow> i = 4"
  "bit (0x08 :: u8) i \<longleftrightarrow> i = 3" "bit (0x04 :: u8) i \<longleftrightarrow> i = 2" "bit (0x02 :: u8) i \<longleftrightarrow> i = 1" "bit (0x01 :: u8) i \<longleftrightarrow> i = 0"
  using bit_pow_u8 [of 7 i] bit_pow_u8 [of 6 i] bit_pow_u8 [of 5 i] bit_pow_u8 [of 4 i] bit_pow_u8 [of 3 i]
    bit_pow_u8 [of 2 i] bit_pow_u8 [of 1 i] bit_pow_u8 [of 0 i]
  by simp_all

lemma bit_if_zero: "bit (if P then a else 0) i \<longleftrightarrow> P \<and> bit a i"
  by simp

lemma bit_mask_code:
  assumes "k < 8"
  shows "bit (mask_code m f row col) (7 - k) \<longleftrightarrow> (col * 8 + k) mod f = row \<and> col * 8 + k < m"
proof -
  consider "k = 0" | "k = 1" | "k = 2" | "k = 3" | "k = 4" | "k = 5" | "k = 6" | "k = 7" using assms by linarith
  then show ?thesis by cases (simp_all only: mask_code_def bit_or_iff bit_if_zero bit_byte_pow, simp_all)
qed

lemma concat_rows_nth:
  "(\<And>r. length (g r) = n) \<Longrightarrow> r < f \<Longrightarrow> c < n \<Longrightarrow> concat (map g [0..<f]) ! (r * n + c) = g r ! c"
proof (induction f)
  case (Suc f)
  have l: "length (concat (map g [0..<f])) = f * n" using Suc.prems(1) by (simp add: length_concat_const mult.commute)
  show ?case
  proof (cases "r = f")
    case True
    with l Suc.prems show ?thesis by (simp add: nth_append)
  next
    case False
    then have "r * n + c < Suc r * n" "Suc r * n \<le> f * n" using Suc.prems by (simp, intro mult_le_mono1) simp
    with Suc False l show ?thesis by (simp add: nth_append)
  qed
qed simp

lemma mask_ok_generated:
  assumes "0 < f" "f \<le> m" "m \<le> 8 * bytes"
  shows "mask_ok m f bytes (concat (map (\<lambda>row. map (mask_code m f row) [0..<bytes]) [0..<f]))"
proof -
  let ?pm = "concat (map (\<lambda>row. map (mask_code m f row) [0..<bytes]) [0..<f])"
  have b: "mask_bit ?pm bytes r c \<longleftrightarrow> c mod f = r \<and> c < m" if "r < f" "c < 8 * bytes" for r c
  proof -
    have "c div 8 < bytes" using that(2) by auto
    with that(1) have "?pm ! (r * bytes + c div 8) = mask_code m f r (c div 8)"
      by (subst concat_rows_nth) simp_all
    with bit_mask_code [of "c mod 8" m f r "c div 8"] show ?thesis by (simp add: mask_bit_def)
  qed
  have "\<exists>c < m. mask_bit ?pm bytes r c" if "r < f" for r
    using b [of r r] that assms by (intro exI [of _ r]) auto
  moreover have "\<exists>r < f. mask_bit ?pm bytes r c" if "c < m" for c
    using b [of "c mod f" c] that assms by (intro exI [of _ "c mod f"]) auto
  ultimately show ?thesis using b by (auto simp: mask_ok_def)
qed

definition mask_bytes :: "nat \<Rightarrow> nat" where
  "mask_bytes n = (if n > 16 then 6 else 2)"

lemma PacketMaskSize_eq: "n \<le> 48 \<Longrightarrow> PacketMaskSize n = Some (mask_bytes n)"
  by (simp add: PacketMaskSize_def mask_bytes_def kUlpfecPacketMaskSizeLBitSet_def kUlpfecPacketMaskSizeLBitClear_def)

lemma table_blocks:
  assumes "table \<in> {kPacketMaskRandomTbl, kPacketMaskBurstyTbl}"
  obtains blocks where "table = 12 # concat blocks" "table_ok 1 blocks" "length blocks = 12"
  using that [OF _ random_table_ok] that [OF _ bursty_table_ok] assms
  by (auto simp: kPacketMaskRandomTbl_def kPacketMaskBurstyTbl_def)

lemma LookUp_ok:
  assumes "table \<in> {kPacketMaskRandomTbl, kPacketMaskBurstyTbl}" "0 < f" "f \<le> m" "m \<le> 48"
  shows "\<exists>pm. LookUp table m f = Some pm \<and> length pm = f * mask_bytes m \<and> mask_ok m f (mask_bytes m) pm"
proof (cases "m \<le> 12")
  case True
  obtain blocks where b: "table = 12 # concat blocks" "table_ok 1 blocks" "length blocks = 12"
    using table_blocks [OF assms(1)] .
  obtain pm where "LookUpInFecTable table (m - 1) (f - 1) = Some pm" "length pm = 2 * f" "or_rows pm = full_row m"
      "rows_nonzero pm"
    using LookUpInFecTable_blocks [OF b(2), of 12 "m - 1" "f - 1"] b(1,3) assms(2-4) True by force
  with mask_ok_rows [of pm f m] assms True show ?thesis
    by (simp add: LookUp_def kUlpfecMaxMediaPackets_def mask_bytes_def)
next
  case False
  with assms mask_ok_generated [of f m "mask_bytes m"] show ?thesis
    by (simp add: LookUp_def kUlpfecMaxMediaPackets_def PacketMaskSize_eq length_concat_const mult.commute)
      (simp add: mask_bytes_def)
qed


text \<open>Copying rows into an array.\<close>

lemma nth_overwrite:
  "i + length bs \<le> length data \<Longrightarrow> j < length data \<Longrightarrow>
    overwrite data i bs ! j = (if i \<le> j \<and> j < i + length bs then bs ! (j - i) else data ! j)"
  by (auto simp: overwrite_def nth_append min_def)

lemma fit_rows_spec:
  assumes "n * ns \<le> length sub" "ns \<le> nm" "offset + n * nm \<le> length pm"
  shows "\<exists>pm'. fit_rows nm ns n sub offset pm = Some pm' \<and> length pm' = length pm \<and>
    (\<forall>i < n. \<forall>k < nm. pm' ! (offset + i * nm + k) = (if k < ns then sub ! (i * ns + k) else pm ! (offset + i * nm + k))) \<and>
    (\<forall>j < length pm. j < offset \<or> offset + n * nm \<le> j \<longrightarrow> pm' ! j = pm ! j)"
  using assms
proof (induction n)
  case (Suc n)
  then obtain q where q: "fit_rows nm ns n sub offset pm = Some q" "length q = length pm"
      "\<forall>i < n. \<forall>k < nm. q ! (offset + i * nm + k) = (if k < ns then sub ! (i * ns + k) else pm ! (offset + i * nm + k))"
      "\<forall>j < length pm. j < offset \<or> offset + n * nm \<le> j \<longrightarrow> q ! j = pm ! j" by auto
  let ?row = "take ns (drop (n * ns) sub)" and ?o = "offset + n * nm"
  have row: "slice sub (n * ns) ns = Some ?row" "length ?row = ns" using Suc.prems by (simp_all add: slice_def)
  have fits: "?o + length ?row \<le> length q" using Suc.prems q(2) row(2) by simp
  then have "copy_to q ?o ?row = Some (overwrite q ?o ?row)" by (subst copy_to_put) (auto simp: put_def)
  moreover have "overwrite q ?o ?row ! (offset + i * nm + k) = (if k < ns then sub ! (i * ns + k) else pm ! (offset + i * nm + k))"
    if ik: "i < Suc n" "k < nm" for i k
  proof -
    have j: "offset + i * nm + k < offset + Suc i * nm" using ik by simp
    have le: "Suc i * nm \<le> Suc n * nm" using ik(1) by (intro mult_le_mono1) simp
    with j Suc.prems(3) q(2) have jl: "offset + i * nm + k < length q" by linarith
    show ?thesis
    proof (cases "i = n")
      case True
      then show ?thesis using jl fits row(2) q(4) ik(2) q(2) by (auto simp: nth_overwrite)
    next
      case False
      then have "Suc i * nm \<le> n * nm" using ik(1) by (intro mult_le_mono1) simp
      with j have "offset + i * nm + k < ?o" by linarith
      with False q(3) ik jl fits show ?thesis by (simp add: nth_overwrite)
    qed
  qed
  moreover have "overwrite q ?o ?row ! j = pm ! j" if "j < length pm" "j < offset \<or> offset + Suc n * nm \<le> j" for j
    using that fits q(2,4) row(2) Suc.prems(2) by (auto simp: nth_overwrite)
  ultimately show ?case using q(1,2) row(1) fits by (intro exI [of _ "overwrite q ?o ?row"]) simp
qed simp

lemma FitSubMask_spec:
  assumes "length sub = n * ns" "ns \<le> nm" "offset + n * nm \<le> length pm"
  shows "\<exists>pm'. FitSubMask nm ns n sub offset pm = Some pm' \<and> length pm' = length pm \<and>
    (\<forall>i < n. \<forall>k < nm. pm' ! (offset + i * nm + k) = (if k < ns then sub ! (i * ns + k) else pm ! (offset + i * nm + k))) \<and>
    (\<forall>j < length pm. j < offset \<or> offset + n * nm \<le> j \<longrightarrow> pm' ! j = pm ! j)"
proof (cases "nm = ns")
  case True
  have "copy_to pm offset sub = Some (overwrite pm offset sub)"
    using assms True by (subst copy_to_put) (auto simp: put_def)
  moreover have "overwrite pm offset sub ! (offset + i * nm + k) = sub ! (i * ns + k)" if "i < n" "k < nm" for i k
  proof -
    have "i * nm + k < Suc i * nm" "Suc i * nm \<le> n * nm" using that by (simp, intro mult_le_mono1) simp
    then have "i * nm + k < n * nm" by linarith
    with assms True show ?thesis by (simp add: nth_overwrite add.assoc)
  qed
  ultimately show ?thesis using True assms
    by (intro exI [of _ "overwrite pm offset sub"]) (auto simp: FitSubMask_def slice_def nth_overwrite)
next
  case False
  with fit_rows_spec [of n ns sub nm offset pm] assms show ?thesis by (simp add: FitSubMask_def)
qed

lemma row_index:
  "r < n \<Longrightarrow> c < 8 * bytes \<Longrightarrow> r * bytes + c div 8 < n * bytes" for c bytes r n :: nat
proof -
  assume "r < n" "c < 8 * bytes"
  then have "r * bytes + c div 8 < Suc r * bytes" "Suc r * bytes \<le> n * bytes" by (auto simp del: mult_Suc intro!: mult_le_mono1, simp)
  then show ?thesis by linarith
qed

lemma SetProtectionAllocation_bounds:
  "SetProtectionAllocation m f imp \<le> imp" "2 * SetProtectionAllocation m f imp \<le> f"
  by (auto simp: SetProtectionAllocation_def Let_def)

lemma mask_okD:
  assumes "mask_ok m f bytes pm"
  shows "r < f \<Longrightarrow> \<exists>c < m. mask_bit pm bytes r c" "c < m \<Longrightarrow> \<exists>r < f. mask_bit pm bytes r c"
    "r < f \<Longrightarrow> c < 8 * bytes \<Longrightarrow> mask_bit pm bytes r c \<Longrightarrow> c < m"
  using assms by (auto simp: mask_ok_def)

lemma mask_ok_cong:
  assumes "mask_ok m f bytes pm" "m \<le> 8 * bytes"
    and same: "\<And>r c. r < f \<Longrightarrow> c < 8 * bytes \<Longrightarrow> mask_bit pm' bytes r c = mask_bit pm bytes r c"
  shows "mask_ok m f bytes pm'"
  unfolding mask_ok_def
proof (intro conjI allI impI)
  fix r assume r: "r < f"
  with mask_okD(1) [OF assms(1)] obtain c where "c < m" "mask_bit pm bytes r c" by blast
  with same [OF r, of c] assms(2) show "\<exists>c < m. mask_bit pm' bytes r c" by auto
next
  fix c assume c: "c < m"
  with mask_okD(2) [OF assms(1)] obtain r where "r < f" "mask_bit pm bytes r c" by blast
  with same [of r c] assms(2) c show "\<exists>r < f. mask_bit pm' bytes r c" by auto
next
  fix r c assume "r < f" "c < 8 * bytes" "mask_bit pm' bytes r c"
  with same mask_okD(3) [OF assms(1)] show "c < m" by blast
qed

text \<open>The masks of unequal protection are put together from two tables.\<close>

lemma mask_ok_stack:
  assumes one: "mask_ok imp t b1 sub1" "imp \<le> m" "b1 \<le> bytes"
    and two: "mask_ok m (f - t) bytes sub2" "t < f" "m \<le> 8 * bytes"
    and low: "\<And>r c. r < t \<Longrightarrow> c < 8 * bytes \<Longrightarrow> mask_bit pm bytes r c \<longleftrightarrow> c < 8 * b1 \<and> mask_bit sub1 b1 r c"
    and high: "\<And>r c. r < f - t \<Longrightarrow> c < 8 * bytes \<Longrightarrow> mask_bit pm bytes (t + r) c \<longleftrightarrow> mask_bit sub2 bytes r c"
    and fit: "imp \<le> 8 * b1"
  shows "mask_ok m f bytes pm"
proof -
  have high': "mask_bit pm bytes r c \<longleftrightarrow> mask_bit sub2 bytes (r - t) c" if "t \<le> r" "r < f" "c < 8 * bytes" for r c
    using high [of "r - t" c] that by simp
  have "\<exists>c < m. mask_bit pm bytes r c" if "r < f" for r
  proof (cases "r < t")
    case True
    then obtain c where "c < imp" "mask_bit sub1 b1 r c" using mask_okD(1) [OF one(1)] by blast
    with low [OF True, of c] one two fit show ?thesis by (intro exI [of _ c]) auto
  next
    case False
    then have "r - t < f - t" using that by simp
    then obtain c where "c < m" "mask_bit sub2 bytes (r - t) c" using mask_okD(1) [OF two(1)] by blast
    with high' [of r c] False that two(3) show ?thesis by (intro exI [of _ c]) auto
  qed
  moreover have "\<exists>r < f. mask_bit pm bytes r c" if c: "c < m" for c
  proof -
    obtain r where "r < f - t" "mask_bit sub2 bytes r c" using mask_okD(2) [OF two(1) c] by blast
    with high [of r c] c two(2,3) show ?thesis by (intro exI [of _ "t + r"]) auto
  qed
  moreover have "c < m" if "r < f" "c < 8 * bytes" "mask_bit pm bytes r c" for r c
  proof (cases "r < t")
    case True
    with low [OF True that(2)] that(3) mask_okD(3) [OF one(1) True, of c] one(2) show ?thesis by simp
  next
    case False
    with high' [of r c] that mask_okD(3) [OF two(1), of "r - t" c] show ?thesis by simp
  qed
  ultimately show ?thesis by (auto simp: mask_ok_def)
qed

lemma ImportantPacketProtection_spec:
  assumes "table \<in> {kPacketMaskRandomTbl, kPacketMaskBurstyTbl}" "0 < t" "t \<le> imp" "imp \<le> 48" "mask_bytes imp \<le> bytes"
    "t * bytes \<le> length pm"
  shows "\<exists>pm' sub. ImportantPacketProtection t imp bytes pm table = Some pm' \<and> length pm' = length pm \<and>
    mask_ok imp t (mask_bytes imp) sub \<and>
    (\<forall>i < t. \<forall>k < bytes. pm' ! (i * bytes + k) = (if k < mask_bytes imp then sub ! (i * mask_bytes imp + k) else pm ! (i * bytes + k)))"
proof -
  obtain sub where sub: "LookUp table imp t = Some sub" "length sub = t * mask_bytes imp" "mask_ok imp t (mask_bytes imp) sub"
    using LookUp_ok [OF assms(1-4)] by blast
  with FitSubMask_spec [of sub t "mask_bytes imp" bytes 0 pm] assms show ?thesis
    by (auto simp: ImportantPacketProtection_def PacketMaskSize_eq)
qed

lemma RemainingPacketProtection_spec:
  assumes "table \<in> {kPacketMaskRandomTbl, kPacketMaskBurstyTbl}" "0 < n" "n \<le> m" "m \<le> 48"
    "(t + n) * mask_bytes m \<le> length pm"
  shows "\<exists>pm' sub. RemainingPacketProtection m n t (mask_bytes m) kModeOverlap pm table = Some pm' \<and> length pm' = length pm \<and>
    mask_ok m n (mask_bytes m) sub \<and>
    (\<forall>i < n. \<forall>k < mask_bytes m. pm' ! ((t + i) * mask_bytes m + k) = sub ! (i * mask_bytes m + k)) \<and>
    (\<forall>j < t * mask_bytes m. pm' ! j = pm ! j)"
proof -
  let ?b = "mask_bytes m"
  obtain sub where sub: "LookUp table m n = Some sub" "length sub = n * ?b" "mask_ok m n ?b sub"
    using LookUp_ok [OF assms(1-4)] by blast
  have "t * ?b + n * ?b \<le> length pm" using assms(5) by (simp add: algebra_simps)
  with FitSubMask_spec [of sub n ?b ?b "t * ?b" pm] sub obtain pm' where
    p: "FitSubMask ?b ?b n sub (t * ?b) pm = Some pm'" "length pm' = length pm"
      "\<forall>i < n. \<forall>k < ?b. pm' ! (t * ?b + i * ?b + k) = sub ! (i * ?b + k)" "\<forall>j < t * ?b. pm' ! j = pm ! j"
    by (auto simp: algebra_simps)
  have "(t + i) * ?b + k = t * ?b + i * ?b + k" for i k by (simp add: algebra_simps)
  with p sub show ?thesis by (intro exI [of _ pm'] exI [of _ sub]) (simp add: RemainingPacketProtection_def)
qed

lemma mask_bytes_mono: "a \<le> b \<Longrightarrow> mask_bytes a \<le> mask_bytes b"
  by (simp add: mask_bytes_def)

lemma mask_bytes_fits: "m \<le> 48 \<Longrightarrow> m \<le> 8 * mask_bytes m"
  by (simp add: mask_bytes_def)

lemma UnequalProtectionMask_ok:
  assumes table: "table \<in> {kPacketMaskRandomTbl, kPacketMaskBurstyTbl}" and f: "0 < f" "f \<le> m" "m \<le> 48" and imp: "imp \<le> m"
    and pm: "f * mask_bytes m \<le> length pm" "\<forall>j < f * mask_bytes m. pm ! j = 0"
  shows "\<exists>pm'. UnequalProtectionMask m f imp (mask_bytes m) pm table = Some pm' \<and> length pm' = length pm \<and>
    mask_ok m f (mask_bytes m) pm'"
proof -
  define t where "t = SetProtectionAllocation m f imp"
  let ?b = "mask_bytes m" and ?b1 = "mask_bytes imp"
  have t: "t \<le> imp" "t < f" using SetProtectionAllocation_bounds [of m f imp] f(1) by (auto simp: t_def)
  have tb: "t * ?b \<le> length pm" "j < t * ?b \<Longrightarrow> j < f * ?b" for j
    using pm(1) mult_le_mono1 [OF less_imp_le [OF t(2)], of ?b] by linarith+
  obtain q sub1 where q: "(if 0 < t then ImportantPacketProtection t imp ?b pm table else Some pm) = Some q" "length q = length pm"
      "mask_ok imp t ?b1 sub1 \<or> t = 0"
      "\<forall>i < t. \<forall>k < ?b. q ! (i * ?b + k) = (if k < ?b1 then sub1 ! (i * ?b1 + k) else pm ! (i * ?b + k))"
    using ImportantPacketProtection_spec [OF table, of t imp ?b pm] t(1) imp f(3) tb(1) mask_bytes_mono [OF imp]
    by (cases "0 < t") auto
  obtain pm' sub2 where p: "RemainingPacketProtection m (f - t) t ?b kModeOverlap q table = Some pm'" "length pm' = length q"
      "mask_ok m (f - t) ?b sub2" "\<forall>i < f - t. \<forall>k < ?b. pm' ! ((t + i) * ?b + k) = sub2 ! (i * ?b + k)"
      "\<forall>j < t * ?b. pm' ! j = q ! j"
  proof -
    have "0 < f - t" "f - t \<le> m" "(t + (f - t)) * ?b \<le> length q" using t(2) f(2) pm(1) q(2) by simp_all
    from RemainingPacketProtection_spec [OF table this(1,2) f(3) this(3)] that show thesis by blast
  qed
  have high: "mask_bit pm' ?b (t + r) c \<longleftrightarrow> mask_bit sub2 ?b r c" if "r < f - t" "c < 8 * ?b" for r c
    using p(4) that by (simp add: mask_bit_def)
  have low: "mask_bit pm' ?b r c \<longleftrightarrow> c < 8 * ?b1 \<and> mask_bit sub1 ?b1 r c" if rc: "r < t" "c < 8 * ?b" for r c
  proof -
    have "pm' ! (r * ?b + c div 8) = (if c div 8 < ?b1 then sub1 ! (r * ?b1 + c div 8) else 0)"
      using row_index [OF rc] p(5) q(4) rc tb(2) pm(2) by simp
    then show ?thesis by (auto simp: mask_bit_def)
  qed
  have "mask_ok m f ?b pm'"
  proof (cases "t = 0")
    case True
    have "mask_bit pm' ?b r c = mask_bit sub2 ?b r c" if "r < f" "c < 8 * ?b" for r c using high [of r c] that True by simp
    with p(3) mask_bytes_fits [OF f(3)] True show ?thesis using mask_ok_cong [of m f ?b sub2 pm'] by simp
  next
    case False
    with q(3) have "mask_ok imp t ?b1 sub1" by simp
    from mask_ok_stack [OF this imp mask_bytes_mono [OF imp] p(3) t(2) mask_bytes_fits [OF f(3)] low high]
    show ?thesis using mask_bytes_fits [of imp] imp f(3) by simp
  qed
  with p q t(2) show ?thesis by (simp add: UnequalProtectionMask_def t_def [symmetric])
qed

lemma GeneratePacketMasks_ok:
  assumes "table \<in> {kPacketMaskRandomTbl, kPacketMaskBurstyTbl}" "0 < f" "f \<le> m" "m \<le> 48" "imp \<le> m"
    and "f * mask_bytes m \<le> length pm" "\<forall>j < f * mask_bytes m. pm ! j = 0"
  shows "\<exists>pm'. GeneratePacketMasks m f imp uep table pm = Some pm' \<and> length pm' = length pm \<and> mask_ok m f (mask_bytes m) pm'"
proof (cases "\<not> uep \<or> imp = 0")
  case True
  obtain sub where sub: "LookUp table m f = Some sub" "length sub = f * mask_bytes m" "mask_ok m f (mask_bytes m) sub"
    using LookUp_ok [OF assms(1-4)] by blast
  have "mask_ok m f (mask_bytes m) (overwrite pm 0 sub)"
    using sub(3) mask_bytes_fits [OF assms(4)]
  proof (rule mask_ok_cong)
    fix r c assume "r < f" "c < 8 * mask_bytes m"
    then show "mask_bit (overwrite pm 0 sub) (mask_bytes m) r c = mask_bit sub (mask_bytes m) r c"
      using row_index [of r f c "mask_bytes m"] sub(2) assms(6) by (simp add: mask_bit_def nth_overwrite)
  qed
  moreover have "copy_to pm 0 sub = Some (overwrite pm 0 sub)"
    using sub(2) assms(6) by (subst copy_to_put) (auto simp: put_def)
  ultimately show ?thesis using True assms sub(1,2) by (simp add: GeneratePacketMasks_def PacketMaskSize_eq)
next
  case False
  with UnequalProtectionMask_ok [OF assms] assms(1-5) show ?thesis
    by (simp add: GeneratePacketMasks_def PacketMaskSize_eq)
qed

end
