(* ===== verification/Fec_Insert_Zeros.thy ===== *)
theory Fec_Insert_Zeros
  imports Fec_Masks Byte_IO
begin

text \<open>
  Adapting packet masks to gaps in the sequence numbers:
  \<^verbatim>\<open>ForwardErrorCorrection::InsertZerosInPacketMasks\<close>.  A packet is the list of its bytes.
\<close>

definition ParseSequenceNumber :: "u8 list \<Rightarrow> u16 option" where
  "ParseSequenceNumber pkt = do {
     a \<leftarrow> load pkt 2;
     b \<leftarrow> load pkt 3;
     Some (push_bit 8 (ucast a) + ucast b)
   }"

definition ParseSsrc :: "u8 list \<Rightarrow> u32 option" where
  "ParseSsrc pkt = do {
     a \<leftarrow> load pkt 8;
     b \<leftarrow> load pkt 9;
     c \<leftarrow> load pkt 10;
     d \<leftarrow> load pkt 11;
     Some (push_bit 24 (ucast a) + push_bit 16 (ucast b) + push_bit 8 (ucast c) + ucast d)
   }"

text \<open>The loop over the media packets after the first.\<close>

fun insert_zeros_loop ::
    "nat \<Rightarrow> nat \<Rightarrow> nat \<Rightarrow> nat \<Rightarrow> u8 list list \<Rightarrow> u16 \<Rightarrow> u8 list \<Rightarrow> u8 list \<Rightarrow> nat \<Rightarrow> nat \<Rightarrow>
      (u8 list \<times> u8 list \<times> nat) option" where
  "insert_zeros_loop max_media_packets new_bytes old_bytes num_fec_packets [] prev_seq_num new_mask old_mask new_bit old_bit =
     Some (new_mask, old_mask, new_bit)"
| "insert_zeros_loop max_media_packets new_bytes old_bytes num_fec_packets (p # ps) prev_seq_num new_mask old_mask new_bit old_bit =
     (if new_bit = max_media_packets then Some (new_mask, old_mask, new_bit)
      else do {
        seq_num \<leftarrow> ParseSequenceNumber p;
        let num_zeros_to_insert = unat (seq_num - prev_seq_num - 1);
        new_mask \<leftarrow> (if num_zeros_to_insert > 0
          then InsertZeroColumns num_zeros_to_insert new_mask new_bytes num_fec_packets new_bit
          else Some new_mask);
        let new_bit = new_bit + num_zeros_to_insert;
        (new_mask, old_mask) \<leftarrow> CopyColumn new_mask new_bytes old_mask old_bytes num_fec_packets new_bit old_bit;
        insert_zeros_loop max_media_packets new_bytes old_bytes num_fec_packets ps seq_num new_mask old_mask (new_bit + 1) (old_bit + 1)
      })"

text \<open>The shift at the end, when the last byte is not filled.\<close>

definition shift_last_byte :: "nat \<Rightarrow> nat \<Rightarrow> nat \<Rightarrow> u8 list \<Rightarrow> u8 list option" where
  "shift_last_byte num_fec_packets new_bytes new_bit new_mask =
     (if new_bit mod 8 \<noteq> 0 then
        each_row num_fec_packets (\<lambda>row new_mask. do {
          let new_byte_index = row * new_bytes + new_bit div 8;
          b \<leftarrow> load new_mask new_byte_index;
          store new_mask new_byte_index (push_bit (7 - new_bit mod 8) b)
        }) new_mask
      else Some new_mask)"

text \<open>
  The result is the number of bits of a row, or \<open>None\<close> inside for the return value -1, with the two
  arrays.  The subtractions on \<^verbatim>\<open>size_t\<close> wrap.
\<close>

definition InsertZerosInPacketMasks ::
    "nat \<Rightarrow> u8 list list \<Rightarrow> nat \<Rightarrow> nat \<Rightarrow> u8 list \<Rightarrow> u8 list \<Rightarrow> (nat option \<times> u8 list \<times> u8 list) option" where
  "InsertZerosInPacketMasks max_media_packets media_packets num_fec_packets packet_mask_size packet_masks tmp_packet_masks =
     (let num_media_packets = length media_packets in
      if num_media_packets \<le> 1 then Some (Some num_media_packets, packet_masks, tmp_packet_masks)
      else do {
        last_seq_num \<leftarrow> ParseSequenceNumber (last media_packets);
        first_seq_num \<leftarrow> ParseSequenceNumber (hd media_packets);
        let total_missing_seq_nums = (size_sub (unat (last_seq_num - first_seq_num)) num_media_packets + 1) mod 2 ^ 64;
        if total_missing_seq_nums = 0 then Some (Some num_media_packets, packet_masks, tmp_packet_masks)
        else if (total_missing_seq_nums + num_media_packets) mod 2 ^ 64 > max_media_packets
        then Some (None, packet_masks, tmp_packet_masks)
        else do {
          tmp_packet_mask_size \<leftarrow> PacketMaskSize ((total_missing_seq_nums + num_media_packets) mod 2 ^ 64);
          tmp_packet_masks \<leftarrow> copy_to tmp_packet_masks 0 (replicate (num_fec_packets * tmp_packet_mask_size) 0);
          (tmp_packet_masks, packet_masks) \<leftarrow> CopyColumn tmp_packet_masks tmp_packet_mask_size packet_masks packet_mask_size
            num_fec_packets 0 0;
          (tmp_packet_masks, packet_masks, new_bit_index) \<leftarrow> insert_zeros_loop max_media_packets tmp_packet_mask_size
            packet_mask_size num_fec_packets (tl media_packets) first_seq_num tmp_packet_masks packet_masks 1 1;
          tmp_packet_masks \<leftarrow> shift_last_byte num_fec_packets tmp_packet_mask_size new_bit_index tmp_packet_masks;
          rows \<leftarrow> slice tmp_packet_masks 0 (num_fec_packets * tmp_packet_mask_size);
          packet_masks \<leftarrow> copy_to packet_masks 0 rows;
          Some (Some new_bit_index, packet_masks, tmp_packet_masks)
        }
      })"

subsection \<open>Bits in a partly filled byte\<close>

text \<open>
  While a byte is filled from the right, its first \<open>n\<close> columns stand one place to the left of the right
  end; a full byte has the first column at the left end.
\<close>

definition column_pos :: "nat \<Rightarrow> nat \<Rightarrow> nat" where
  "column_pos n x = (if n = 8 then 7 - x else n - x)"

definition packed_byte :: "nat \<Rightarrow> (nat \<Rightarrow> bool) \<Rightarrow> u8 \<Rightarrow> bool" where
  "packed_byte n w byte \<longleftrightarrow> (\<forall>i. bit byte i \<longleftrightarrow> (\<exists>x < n. i = column_pos n x \<and> w x))"

lemma packed_byte_zero [simp]: "packed_byte 0 w 0"
  by (simp add: packed_byte_def)

lemma packed_byte_zeros:
  assumes "packed_byte n w byte" "n < 8" "\<And>x. n \<le> x \<Longrightarrow> \<not> w x"
  shows "packed_byte (min 8 (n + z)) w (push_bit (min z (7 - n)) byte)"
proof (cases "n = 0")
  case True
  with assms have "byte = 0" by (intro bit_word_eqI) (simp add: packed_byte_def)
  with True assms(3) show ?thesis by (simp add: packed_byte_def)
next
  case False
  let ?s = "min z (7 - n)"
  let ?N = "min 8 (n + z)"
  have pos: "column_pos ?N x = ?s + column_pos n x" if "x < n" for x
    using that assms(2) False by (auto simp: column_pos_def min_def)
  have "x < ?N \<and> i = column_pos ?N x \<and> w x \<longleftrightarrow> x < n \<and> i = ?s + column_pos n x \<and> w x" for i x
    using pos [of x] assms(2) assms(3) [of x] by (cases "x < n") auto
  then have e: "(\<exists>x < ?N. i = column_pos ?N x \<and> w x) \<longleftrightarrow> (\<exists>x < n. i = ?s + column_pos n x \<and> w x)" for i
    by presburger
  have "?s + column_pos n x < 8" if "x < n" for x using that assms(2) False by (auto simp: column_pos_def min_def)
  then have "bit (push_bit ?s byte) i \<longleftrightarrow> (\<exists>x < n. i = ?s + column_pos n x \<and> w x)" for i
    using assms(1) by (auto simp: packed_byte_def bit_simps)
  then show ?thesis unfolding packed_byte_def e by blast
qed

lemma bit_push_u8_iff:
  assumes "\<And>i. bit (b :: u8) i \<longleftrightarrow> P i" "\<And>i. P i \<Longrightarrow> s + i < 8"
  shows "bit (push_bit s b) i \<longleftrightarrow> (\<exists>j. i = s + j \<and> P j)"
  using assms by (auto simp: bit_simps intro: exI [of _ "i - s"])

lemma packed_copy:
  assumes "packed_byte n w byte" "n < 8"
  shows "packed_byte (Suc n) (\<lambda>x. if x = n then v else w x)
    (let byte = byte OR (if v then 1 else 0) in if n \<noteq> 7 then push_bit 1 byte else byte)"
proof -
  let ?b = "byte OR (if v then 1 else 0)" and ?s = "if n \<noteq> 7 then 1 else 0 :: nat"
  have pos: "column_pos (Suc n) x = ?s + (if x = n then 0 else column_pos n x)" if "x < Suc n" for x
    using that assms(2) by (auto simp: column_pos_def)
  have small: "?s + column_pos n x < 8" if "x < n" for x using that assms(2) by (auto simp: column_pos_def)
  have "x < n \<and> i = column_pos (Suc n) x \<and> (if x = n then v else w x) \<longleftrightarrow> x < n \<and> i = ?s + column_pos n x \<and> w x" for i x
    using pos [of x] by (cases "x < n") auto
  then have "(\<exists>x < Suc n. i = column_pos (Suc n) x \<and> (if x = n then v else w x)) \<longleftrightarrow>
      (\<exists>x < n. i = ?s + column_pos n x \<and> w x) \<or> v \<and> i = ?s" for i
    unfolding Ex_less_Suc using pos [of n] by (simp del: One_nat_def) blast
  moreover have "bit ?b i \<longleftrightarrow> (\<exists>x < n. i = column_pos n x \<and> w x) \<or> v \<and> i = 0" for i
    using assms(1) by (auto simp: packed_byte_def bit_simps)
  then have "bit (push_bit ?s ?b) i \<longleftrightarrow> (\<exists>j. i = ?s + j \<and> ((\<exists>x < n. j = column_pos n x \<and> w x) \<or> v \<and> j = 0))" for i
    using small by (intro bit_push_u8_iff) auto
  then have "bit (push_bit ?s ?b) i \<longleftrightarrow> (\<exists>x < n. i = ?s + column_pos n x \<and> w x) \<or> v \<and> i = ?s" for i
    by (simp only:) auto
  ultimately have "packed_byte (Suc n) (\<lambda>x. if x = n then v else w x) (push_bit ?s ?b)" unfolding packed_byte_def by blast
  moreover have "(let byte = ?b in if n \<noteq> 7 then push_bit 1 byte else byte) = push_bit ?s ?b" by (simp add: Let_def)
  ultimately show ?thesis by (simp only:)
qed

subsection \<open>Loops over the rows\<close>

lemma each_row_inv:
  assumes "P 0 s" "\<And>r s. r < n \<Longrightarrow> P r s \<Longrightarrow> \<exists>s'. f r s = Some s' \<and> P (Suc r) s'"
  shows "\<exists>s'. each_row n f s = Some s' \<and> P n s'"
  using assms
proof (induction n)
  case (Suc n)
  then obtain t where "each_row n f s = Some t" "P n t" by auto
  with Suc.prems(2) [of n t] show ?case by auto
qed simp

text \<open>A loop that changes one byte of every row.\<close>

lemma byte_index:
  fixes r n k bytes :: nat
  assumes "r < n" "k < bytes" "n * bytes \<le> len"
  shows "r * bytes + k < len"
proof -
  have "r * bytes + k < Suc r * bytes" using assms(2) by simp
  moreover have "Suc r * bytes \<le> n * bytes" using assms(1) by (intro mult_le_mono1) simp
  ultimately show ?thesis using assms(3) by linarith
qed

lemma byte_index_eq:
  fixes r r' k k' bytes :: nat
  assumes "k < bytes" "k' < bytes"
  shows "r * bytes + k = r' * bytes + k' \<longleftrightarrow> r = r' \<and> k = k'"
proof
  assume "r * bytes + k = r' * bytes + k'"
  then have "(r * bytes + k) div bytes = (r' * bytes + k') div bytes" "(r * bytes + k) mod bytes = (r' * bytes + k') mod bytes"
    by simp_all
  with assms show "r = r' \<and> k = k'" by simp
qed simp

lemma each_row_bytes:
  assumes "c < bytes" "n * bytes \<le> length m"
  shows "\<exists>m'. each_row n (\<lambda>row m. do { b \<leftarrow> load m (row * bytes + c); store m (row * bytes + c) (g b) }) m = Some m' \<and>
    length m' = length m \<and>
    (\<forall>r < n. \<forall>k < bytes. m' ! (r * bytes + k) = (if k = c then g (m ! (r * bytes + k)) else m ! (r * bytes + k)))"
proof -
  let ?P = "\<lambda>q m'. length m' = length m \<and> (\<forall>r < n. \<forall>k < bytes. m' ! (r * bytes + k) =
    (if r < q \<and> k = c then g (m ! (r * bytes + k)) else m ! (r * bytes + k)))"
  have "\<exists>m'. each_row n (\<lambda>row m. do { b \<leftarrow> load m (row * bytes + c); store m (row * bytes + c) (g b) }) m = Some m' \<and> ?P n m'"
  proof (rule each_row_inv [where P = ?P])
    fix q m' assume q: "q < n" and P: "?P q m'"
    have i: "q * bytes + c < length m'" using byte_index [OF q assms] P by simp
    let ?m = "m'[q * bytes + c := g (m' ! (q * bytes + c))]"
    have "do { b \<leftarrow> load m' (q * bytes + c); store m' (q * bytes + c) (g b) } = Some ?m"
      using i by (simp add: load_def store_def)
    moreover have "?P (Suc q) ?m"
      using P q i assms(1) by (auto simp: nth_list_update byte_index_eq less_Suc_eq)
    ultimately show "\<exists>m''. do { b \<leftarrow> load m' (q * bytes + c); store m' (q * bytes + c) (g b) } = Some m'' \<and> ?P (Suc q) m''"
      by blast
  qed simp
  then show ?thesis by auto
qed

lemma CopyColumn_spec:
  assumes "nbit < 8 * nb" "obit < 8 * ob" "n * nb \<le> length new" "n * ob \<le> length old"
  shows "\<exists>new' old'. CopyColumn new nb old ob n nbit obit = Some (new', old') \<and> length new' = length new \<and> length old' = length old \<and>
    (\<forall>r < n. \<forall>k < nb. new' ! (r * nb + k) = (if k = nbit div 8
       then (let byte = new ! (r * nb + k) OR (if bit (old ! (r * ob + obit div 8)) 7 then 1 else 0)
             in if nbit mod 8 \<noteq> 7 then push_bit 1 byte else byte)
       else new ! (r * nb + k))) \<and>
    (\<forall>r < n. \<forall>k < ob. old' ! (r * ob + k) = (if k = obit div 8 then push_bit 1 (old ! (r * ob + k)) else old ! (r * ob + k)))"
proof -
  define g where "g b v = (let byte = b OR (if v then 1 else 0 :: u8) in if nbit mod 8 \<noteq> 7 then push_bit 1 byte else byte)" for b v
  let ?P = "\<lambda>q (new', old'). length new' = length new \<and> length old' = length old \<and>
    (\<forall>r < n. \<forall>k < nb. new' ! (r * nb + k) = (if r < q \<and> k = nbit div 8
       then g (new ! (r * nb + k)) (bit (old ! (r * ob + obit div 8)) 7) else new ! (r * nb + k))) \<and>
    (\<forall>r < n. \<forall>k < ob. old' ! (r * ob + k) =
       (if r < q \<and> k = obit div 8 then push_bit 1 (old ! (r * ob + k)) else old ! (r * ob + k)))"
  have c: "nbit div 8 < nb" "obit div 8 < ob" using assms(1,2) by auto
  have top: "drop_bit 7 (b AND 0x80) = (if bit b 7 then 1 else 0)" for b :: u8
    by (rule bit_word_eqI) (auto simp: bit_simps bit_byte_pow simp del: drop_bit_Suc intro: gr0I)
  have "\<exists>s. CopyColumn new nb old ob n nbit obit = Some s \<and> ?P n s"
    unfolding CopyColumn_def bind_dcheck [OF assms(1)]
  proof (rule each_row_inv [where P = ?P])
    fix q s assume q: "q < n" and P: "?P q s"
    obtain new' old' where s: "s = (new', old')" by (cases s)
    have i: "q * nb + nbit div 8 < length new'" "q * ob + obit div 8 < length old'"
      using byte_index [OF q c(1)] byte_index [OF q c(2)] assms P s by simp_all
    have old: "old' ! (q * ob + obit div 8) = old ! (q * ob + obit div 8)" using P s q c(2) by simp
    show "\<exists>s'. (case s of (new_mask, old_mask) \<Rightarrow> do {
       let new_byte_index = q * nb + nbit div 8;
       let old_byte_index = q * ob + obit div 8;
       n \<leftarrow> load new_mask new_byte_index;
       ob \<leftarrow> load old_mask old_byte_index;
       let n = n OR drop_bit 7 (ob AND 0x80);
       new_mask \<leftarrow> store new_mask new_byte_index (if nbit mod 8 \<noteq> 7 then push_bit 1 n else n);
       old_mask \<leftarrow> store old_mask old_byte_index (push_bit 1 ob);
       Some (new_mask, old_mask)
     }) = Some s' \<and> ?P (Suc q) s'"
      unfolding s prod.case top Let_def using i P [unfolded s] q c old
      by (auto simp: load_def store_def g_def [unfolded Let_def] nth_list_update byte_index_eq less_Suc_eq)
  qed simp
  then show ?thesis unfolding g_def by auto
qed

subsection \<open>Inserting columns\<close>

text \<open>
  \<open>new_rep\<close>: the first \<open>b\<close> columns of the new mask are those of \<open>w\<close>.  \<open>old_rep\<close>: of the old mask, \<open>j\<close>
  columns have been shifted out.
\<close>

definition new_rep :: "nat \<Rightarrow> nat \<Rightarrow> nat \<Rightarrow> (nat \<Rightarrow> nat \<Rightarrow> bool) \<Rightarrow> u8 list \<Rightarrow> bool" where
  "new_rep n nb b w new \<longleftrightarrow> n * nb \<le> length new \<and> (\<forall>r c. w r c \<longrightarrow> c < b) \<and>
     (\<forall>r < n. \<forall>k < nb. packed_byte (min 8 (b - 8 * k)) (\<lambda>x. w r (8 * k + x)) (new ! (r * nb + k)))"

definition old_rep :: "nat \<Rightarrow> nat \<Rightarrow> nat \<Rightarrow> u8 list \<Rightarrow> u8 list \<Rightarrow> bool" where
  "old_rep n ob j M old \<longleftrightarrow> n * ob \<le> length old \<and>
     (\<forall>r < n. \<forall>k < ob. j div 8 \<le> k \<longrightarrow>
        old ! (r * ob + k) = push_bit (if k = j div 8 then j mod 8 else 0) (M ! (r * ob + k)))"

lemma packed_byte_none: "(\<And>x. \<not> w x) \<Longrightarrow> packed_byte n w byte \<longleftrightarrow> byte = 0"
  by (auto simp: packed_byte_def intro: bit_word_eqI)

lemma mod_8_le: "(b :: nat) mod 8 \<le> 8"
  by (simp add: less_imp_le)

lemma packed_grow:
  assumes w: "\<And>c. w c \<Longrightarrow> c < b"
    and p: "packed_byte (min 8 (b - 8 * k)) (\<lambda>x. w (8 * k + x)) byte" and k: "k = b div 8 \<Longrightarrow> byte' = push_bit (min z (7 - b mod 8)) byte"
    and k': "k \<noteq> b div 8 \<Longrightarrow> byte' = byte"
  shows "packed_byte (min 8 (b + z - 8 * k)) (\<lambda>x. w (8 * k + x)) byte'"
proof -
  consider "k < b div 8" | "k = b div 8" | "b div 8 < k" by linarith
  then show ?thesis
  proof cases
    case 1
    then have "8 * k + 8 \<le> b" by auto
    with 1 p k' show ?thesis by (simp add: min_absorb1)
  next
    case 2
    then have m: "b - 8 * k = b mod 8" "b + z - 8 * k = b mod 8 + z"
      by presburger+
    have "\<not> w (8 * k + x)" if "b mod 8 \<le> x" for x
    proof -
      have "b \<le> 8 * k + x" using that 2 by presburger
      then show ?thesis using w [of "8 * k + x"] by auto
    qed
    moreover have "packed_byte (b mod 8) (\<lambda>x. w (8 * k + x)) byte" using p unfolding m(1) by (simp only: min_absorb2 mod_8_le)
    ultimately have "packed_byte (min 8 (b mod 8 + z)) (\<lambda>x. w (8 * k + x)) (push_bit (min z (7 - b mod 8)) byte)"
      by (intro packed_byte_zeros) simp_all
    with k [OF 2] m(2) show ?thesis by (simp only:)
  next
    case 3
    then have "b \<le> 8 * k" by auto
    with w have none: "\<not> w (8 * k + x)" for x by (meson not_le trans_le_add1)
    with p 3 k' show ?thesis by (simp add: packed_byte_none)
  qed
qed

lemma new_rep_shift:
  assumes "new_rep n nb b w new" "b div 8 < nb"
  shows "\<exists>new'. each_row n (\<lambda>row m. do { v \<leftarrow> load m (row * nb + b div 8); store m (row * nb + b div 8) (push_bit (min z (7 - b mod 8)) v) }) new =
      Some new' \<and> length new' = length new \<and> new_rep n nb (b + z) w new'"
proof -
  have l: "n * nb \<le> length new" using assms(1) by (simp add: new_rep_def)
  obtain new' where n: "each_row n (\<lambda>row m. do { v \<leftarrow> load m (row * nb + b div 8); store m (row * nb + b div 8) (push_bit (min z (7 - b mod 8)) v) }) new = Some new'"
      "length new' = length new"
      "\<forall>r < n. \<forall>k < nb. new' ! (r * nb + k) = (if k = b div 8 then push_bit (min z (7 - b mod 8)) (new ! (r * nb + k)) else new ! (r * nb + k))"
    using each_row_bytes [OF assms(2) l] by blast
  have "packed_byte (min 8 (b + z - 8 * k)) (\<lambda>x. w r (8 * k + x)) (new' ! (r * nb + k))" if "r < n" "k < nb" for r k
    using assms(1) n(3) that by (intro packed_grow [of "w r" b k "new ! (r * nb + k)"]) (auto simp: new_rep_def)
  moreover have "\<forall>r c. w r c \<longrightarrow> c < b + z" using assms(1) trans_less_add1 unfolding new_rep_def by blast
  ultimately have "new_rep n nb (b + z) w new'" using n(2) l by (simp add: new_rep_def)
  with n show ?thesis by blast
qed

lemma new_rep_zeros:
  assumes "new_rep n nb b w new" "b div 8 < nb"
  shows "\<exists>new'. (if z > 0 then InsertZeroColumns z new nb n b else Some new) = Some new' \<and>
    length new' = length new \<and> new_rep n nb (b + z) w new'"
  using new_rep_shift [OF assms, of z] assms(1) by (simp add: InsertZeroColumns_def Let_def)

lemma new_rep_copy:
  assumes "new_rep n nb b w new" "old_rep n ob j M old" "b < 8 * nb" "j < 8 * ob"
  shows "\<exists>new' old'. CopyColumn new nb old ob n b j = Some (new', old') \<and> length new' = length new \<and> length old' = length old \<and>
    new_rep n nb (Suc b) (\<lambda>r c. w r c \<or> c = b \<and> mask_bit M ob r j) new' \<and> old_rep n ob (Suc j) M old'"
proof -
  let ?w = "\<lambda>r c. w r c \<or> c = b \<and> mask_bit M ob r j"
  have l: "n * nb \<le> length new" "n * ob \<le> length old" using assms(1,2) by (simp_all add: new_rep_def old_rep_def)
  obtain new' old' where c: "CopyColumn new nb old ob n b j = Some (new', old')" "length new' = length new" "length old' = length old"
      "\<forall>r < n. \<forall>k < nb. new' ! (r * nb + k) = (if k = b div 8
         then (let byte = new ! (r * nb + k) OR (if bit (old ! (r * ob + j div 8)) 7 then 1 else 0)
               in if b mod 8 \<noteq> 7 then push_bit 1 byte else byte)
         else new ! (r * nb + k))"
      "\<forall>r < n. \<forall>k < ob. old' ! (r * ob + k) = (if k = j div 8 then push_bit 1 (old ! (r * ob + k)) else old ! (r * ob + k))"
    using CopyColumn_spec [OF assms(3,4) l] by blast
  have wb: "w r c \<Longrightarrow> c < b" for r c using assms(1) by (simp add: new_rep_def)
  have "packed_byte (min 8 (Suc b - 8 * k)) (\<lambda>x. ?w r (8 * k + x)) (new' ! (r * nb + k))" if rk: "r < n" "k < nb" for r k
  proof (cases "k = b div 8")
    case True
    have "bit (old ! (r * ob + j div 8)) 7 \<longleftrightarrow> mask_bit M ob r j"
      using assms(2,4) rk by (auto simp: old_rep_def mask_bit_def bit_simps)
    moreover have "packed_byte (b mod 8) (\<lambda>x. w r (8 * k + x)) (new ! (r * nb + k))"
    proof -
      have "packed_byte (min 8 (b - 8 * k)) (\<lambda>x. w r (8 * k + x)) (new ! (r * nb + k))" using assms(1) rk by (simp add: new_rep_def)
      moreover have "min 8 (b - 8 * k) = b mod 8" using True by presburger
      ultimately show ?thesis by (simp only:)
    qed
    then have "packed_byte (Suc (b mod 8)) (\<lambda>x. if x = b mod 8 then mask_bit M ob r j else w r (8 * k + x))
        (let byte = new ! (r * nb + k) OR (if mask_bit M ob r j then 1 else 0) in if b mod 8 \<noteq> 7 then push_bit 1 byte else byte)"
      by (rule packed_copy) simp
    moreover have "(if x = b mod 8 then mask_bit M ob r j else w r (8 * k + x)) = ?w r (8 * k + x)" for x
    proof -
      have "8 * k + x = b \<longleftrightarrow> x = b mod 8" using True by presburger
      then show ?thesis using wb [of r "8 * k + x"] by auto
    qed
    moreover have "min 8 (Suc b - 8 * k) = Suc (b mod 8)" using True by (simp add: min_def) presburger
    ultimately show ?thesis using c(4) rk True by simp
  next
    case False
    then have "min 8 (Suc b - 8 * k) = min 8 (b - 8 * k)" and "8 * k + x = b \<Longrightarrow> \<not> x < min 8 (b - 8 * k)" for x by auto
    moreover have "packed_byte (min 8 (b - 8 * k)) (\<lambda>x. w r (8 * k + x)) (new ! (r * nb + k))"
      using assms(1) rk by (simp add: new_rep_def)
    ultimately show ?thesis using c(4) rk False by (auto simp: packed_byte_def)
  qed
  then have "new_rep n nb (Suc b) ?w new'" using l c(2) wb by (auto simp: new_rep_def less_Suc_eq)
  moreover have "old_rep n ob (Suc j) M old'"
  proof -
    have "old' ! (r * ob + k) = push_bit (if k = Suc j div 8 then Suc j mod 8 else 0) (M ! (r * ob + k))"
      if "r < n" "k < ob" "Suc j div 8 \<le> k" for r k
    proof (cases "k = j div 8")
      case True
      then have "Suc j div 8 = j div 8" using that(3) div_le_mono [of j "Suc j" 8] by (simp only: le_antisym le_SucI order_refl)
      then have "Suc j mod 8 = Suc (j mod 8)" using mult_div_mod_eq [of 8 j] mult_div_mod_eq [of 8 "Suc j"] by linarith
      with True that assms(2) c(5) \<open>Suc j div 8 = j div 8\<close> show ?thesis by (simp add: old_rep_def push_bit_push_bit del: push_bit_Suc)
    next
      case False
      have "j div 8 \<le> k" using that(3) div_le_mono [of j "Suc j" 8] by linarith
      moreover have "k = Suc j div 8 \<Longrightarrow> Suc j mod 8 = 0" using False by (metis div_Suc)
      ultimately show ?thesis using False that assms(2) c(5) by (simp add: old_rep_def)
    qed
    then show ?thesis using l c(3) by (simp add: old_rep_def)
  qed
  ultimately show ?thesis using c by blast
qed

lemma unat_u16_less: "unat (x :: u16) < 65536"
  using unsigned_less [of x] by simp

lemma insert_zeros_loop_spec:
  assumes "new_rep n nb b w new" "old_rep n ob j M old" "b = Suc (unat (prev - first))"
    and "\<forall>p \<in> set ps. ParseSequenceNumber p = Some (seq p) \<and> b \<le> unat (seq p - first) \<and> unat (seq p - first) < 8 * nb \<and>
      unat (seq p - first) < maxp"
    and "sorted_wrt (\<lambda>p q. unat (seq p - first) < unat (seq q - first)) ps" "j + length ps \<le> 8 * ob"
  shows "\<exists>new' old'. insert_zeros_loop maxp nb ob n ps prev new old b j =
      Some (new', old', if ps = [] then b else Suc (unat (seq (last ps) - first))) \<and>
    length new' = length new \<and> length old' = length old \<and>
    new_rep n nb (if ps = [] then b else Suc (unat (seq (last ps) - first)))
      (\<lambda>r c. w r c \<or> (\<exists>i < length ps. c = unat (seq (ps ! i) - first) \<and> mask_bit M ob r (j + i))) new'"
  using assms
proof (induction ps arbitrary: b w new j old prev)
  case Nil
  then show ?case by simp
next
  case (Cons p ps)
  define off where "off q = unat (seq q - first)" for q
  have p: "ParseSequenceNumber p = Some (seq p)" "b \<le> off p" "off p < 8 * nb" "off p < maxp"
    using Cons.prems(4) by (auto simp: off_def)
  have z: "unat (seq p - prev - 1) = off p - b"
  proof -
    have "seq p - prev - 1 = (seq p - first) - ((prev - first) + 1)" by simp
    moreover have "unat (prev - first + 1) = b" using Cons.prems(3) p(2) unat_u16_less [of "seq p - first"]
      by (subst unat_word_ariths) (simp add: off_def)
    ultimately show ?thesis using p(2) unat_sub [of "prev - first + 1" "seq p - first"]
      by (simp only: word_le_nat_alt off_def)
  qed
  have "b div 8 < nb" using p(2,3) by auto
  then obtain new1 where n1: "(if off p - b > 0 then InsertZeroColumns (off p - b) new nb n b else Some new) = Some new1"
      "length new1 = length new" "new_rep n nb (off p) w new1"
    using new_rep_zeros [OF Cons.prems(1), of "off p - b"] p(2) by auto
  have j: "j < 8 * ob" using Cons.prems(6) by simp
  let ?w = "\<lambda>r c. w r c \<or> c = off p \<and> mask_bit M ob r j"
  obtain new2 old2 where n2: "CopyColumn new1 nb old ob n (off p) j = Some (new2, old2)" "length new2 = length new1"
      "length old2 = length old" "new_rep n nb (Suc (off p)) ?w new2" "old_rep n ob (Suc j) M old2"
    using new_rep_copy [OF n1(3) Cons.prems(2) p(3) j] by blast
  have "\<forall>q \<in> set ps. ParseSequenceNumber q = Some (seq q) \<and> Suc (off p) \<le> unat (seq q - first) \<and> unat (seq q - first) < 8 * nb \<and>
      unat (seq q - first) < maxp"
    using Cons.prems(4,5) by (auto simp: off_def Suc_le_eq)
  then obtain new3 old3 where n3: "insert_zeros_loop maxp nb ob n ps (seq p) new2 old2 (Suc (off p)) (Suc j) =
      Some (new3, old3, if ps = [] then Suc (off p) else Suc (unat (seq (last ps) - first)))"
      "length new3 = length new2" "length old3 = length old2"
      "new_rep n nb (if ps = [] then Suc (off p) else Suc (unat (seq (last ps) - first)))
        (\<lambda>r c. ?w r c \<or> (\<exists>i < length ps. c = unat (seq (ps ! i) - first) \<and> mask_bit M ob r (Suc j + i))) new3"
    using Cons.IH [OF n2(4,5), of "seq p"] Cons.prems(5,6) by (auto simp: off_def)
  have w: "(\<lambda>r c. ?w r c \<or> (\<exists>i < length ps. c = unat (seq (ps ! i) - first) \<and> mask_bit M ob r (Suc j + i))) =
      (\<lambda>r c. w r c \<or> (\<exists>i < length (p # ps). c = unat (seq ((p # ps) ! i) - first) \<and> mask_bit M ob r (j + i)))"
    unfolding length_Cons Ex_less_Suc2 by (intro ext) (auto simp: off_def)
  have e: "(if ps = [] then Suc (off p) else Suc (unat (seq (last ps) - first))) =
      (if p # ps = [] then b else Suc (unat (seq (last (p # ps)) - first)))" by (simp add: off_def)
  have "b \<noteq> maxp" "b + (off p - b) = off p" using p(2,4) by simp_all
  with n1(1) n2(1) p(1) z have "insert_zeros_loop maxp nb ob n (p # ps) prev new old b j =
      insert_zeros_loop maxp nb ob n ps (seq p) new2 old2 (Suc (off p)) (Suc j)" by (cases "b < off p") (simp_all add: Let_def)
  with n1(2) n2(2,3) n3(1-3) n3(4) [unfolded w] show ?case unfolding e by simp
qed

text \<open>After the last byte has been shifted, the bits of the mask are the columns.\<close>

lemma shift_last_byte_spec:
  assumes "new_rep n nb b w new" "b \<le> 8 * nb"
  shows "\<exists>new'. shift_last_byte n nb b new = Some new' \<and> length new' = length new \<and>
    (\<forall>r < n. \<forall>c < 8 * nb. mask_bit new' nb r c \<longleftrightarrow> w r c)"
proof -
  define z where "z = (if b mod 8 = 0 then 0 else 8 - b mod 8)"
  obtain new' where n: "shift_last_byte n nb b new = Some new'" "length new' = length new" "new_rep n nb (b + z) w new'"
  proof (cases "b mod 8 = 0")
    case True
    with assms(1) that show thesis by (simp add: shift_last_byte_def z_def)
  next
    case False
    then have "b div 8 < nb" using assms(2) by presburger
    moreover have "min (8 - b mod 8) (7 - b mod 8) = 7 - b mod 8" by simp
    ultimately show thesis using new_rep_shift [OF assms(1), of "8 - b mod 8"] False that
      by (auto simp: shift_last_byte_def z_def Let_def)
  qed
  have full: "(b + z) mod 8 = 0" unfolding z_def by presburger
  have "mask_bit new' nb r c \<longleftrightarrow> w r c" if rc: "r < n" "c < 8 * nb" for r c
  proof -
    have k: "c div 8 < nb" using rc by auto
    have p: "packed_byte (min 8 (b + z - 8 * (c div 8))) (\<lambda>x. w r (8 * (c div 8) + x)) (new' ! (r * nb + c div 8))"
      using n(3) rc k by (simp add: new_rep_def)
    have wb: "w r c' \<Longrightarrow> c' < b + z" for c' using n(3) by (simp add: new_rep_def)
    obtain q where q: "b + z = 8 * q" using full by (metis mod_0_imp_dvd dvdE)
    have "8 * (c div 8) + 8 \<le> b + z \<or> b + z \<le> 8 * (c div 8)" unfolding q by (cases "c div 8 < q") linarith+
    then consider "8 * (c div 8) + 8 \<le> b + z" | "b + z \<le> 8 * (c div 8)" by blast
    then show ?thesis
    proof cases
      case 1
      then have "min 8 (b + z - 8 * (c div 8)) = 8" by simp
      with p have "bit (new' ! (r * nb + c div 8)) (7 - c mod 8) \<longleftrightarrow> (\<exists>x < 8. 7 - c mod 8 = 7 - x \<and> w r (8 * (c div 8) + x))"
        by (simp add: packed_byte_def column_pos_def)
      also have "\<dots> \<longleftrightarrow> w r c"
      proof
        assume "\<exists>x < 8. 7 - c mod 8 = 7 - x \<and> w r (8 * (c div 8) + x)"
        then obtain x where x: "x < 8" "7 - c mod 8 = 7 - x" "w r (8 * (c div 8) + x)" by blast
        have "c mod 8 < 8" by simp
        with x(1,2) have "x = c mod 8" by linarith
        with x(3) show "w r c" by simp
      qed (auto intro!: exI [of _ "c mod 8"])
      finally show ?thesis by (simp add: mask_bit_def)
    next
      case 2
      then have "\<not> w r (8 * (c div 8) + x)" for x using wb [of "8 * (c div 8) + x"] by auto
      moreover from this [of "c mod 8"] have "\<not> w r c" by simp
      ultimately show ?thesis using p by (simp add: packed_byte_none mask_bit_def)
    qed
  qed
  with n show ?thesis by blast
qed

text \<open>
  Media packets in ascending order, starting with \<open>first\<close>: \<open>media_seqs\<close> collects what is needed of their
  sequence numbers.
\<close>

definition media_seqs :: "u16 list \<Rightarrow> bool" where
  "media_seqs seqs \<longleftrightarrow> seqs \<noteq> [] \<and> sorted_wrt (\<lambda>a b. unat (a - hd seqs) < unat (b - hd seqs)) seqs"

definition seq_offset :: "u16 list \<Rightarrow> nat \<Rightarrow> nat" where
  "seq_offset seqs i = unat (seqs ! i - hd seqs)"

lemma seq_offset_0 [simp]: "seqs \<noteq> [] \<Longrightarrow> seq_offset seqs 0 = 0"
  by (simp add: seq_offset_def hd_conv_nth)

lemma seq_offset_mono: "media_seqs seqs \<Longrightarrow> i < j \<Longrightarrow> j < length seqs \<Longrightarrow> seq_offset seqs i < seq_offset seqs j"
  by (auto simp: media_seqs_def seq_offset_def sorted_wrt_iff_nth_less)

lemma seq_offset_ge: "media_seqs seqs \<Longrightarrow> i < length seqs \<Longrightarrow> i \<le> seq_offset seqs i"
proof (induction i)
  case (Suc i)
  with seq_offset_mono [of seqs i "Suc i"] show ?case by simp
qed simp

lemma seq_offset_le_last:
  "media_seqs seqs \<Longrightarrow> i < length seqs \<Longrightarrow> seq_offset seqs i \<le> seq_offset seqs (length seqs - 1)"
  by (cases "i = length seqs - 1") (auto intro!: less_imp_le seq_offset_mono)

lemma seq_offset_inj:
  "media_seqs seqs \<Longrightarrow> i < length seqs \<Longrightarrow> j < length seqs \<Longrightarrow> seq_offset seqs i = seq_offset seqs j \<longleftrightarrow> i = j"
  using seq_offset_mono by (metis nat_neq_iff)

text \<open>No gap: the offsets are the positions.\<close>

lemma seq_offset_id:
  assumes "media_seqs seqs" "seq_offset seqs (length seqs - 1) = length seqs - 1" "i < length seqs"
  shows "seq_offset seqs i = i"
proof -
  have "seq_offset seqs i + (j - i) \<le> seq_offset seqs j" if "i \<le> j" "j < length seqs" for j
    using that
  proof (induction j)
    case (Suc j)
    show ?case
    proof (cases "i = Suc j")
      case False
      with Suc seq_offset_mono [OF assms(1), of j "Suc j"] show ?thesis by simp
    qed simp
  qed simp
  moreover have "i \<le> length seqs - 1" "length seqs - 1 < length seqs" using assms(3) by simp_all
  ultimately have "seq_offset seqs i + (length seqs - 1 - i) \<le> length seqs - 1" using assms(2) by metis
  with seq_offset_ge [OF assms(1,3)] assms(3) show ?thesis by linarith
qed

definition spread_ok :: "nat \<Rightarrow> u16 list \<Rightarrow> nat \<Rightarrow> nat \<Rightarrow> u8 list \<Rightarrow> u8 list \<Rightarrow> bool" where
  "spread_ok f seqs ob bits pm pm' \<longleftrightarrow> (\<forall>r < f. \<forall>c < 8 * mask_bytes bits. mask_bit pm' (mask_bytes bits) r c \<longleftrightarrow>
     (\<exists>i < length seqs. c = seq_offset seqs i \<and> mask_bit pm ob r i))"

text \<open>The body of the function, once it is known that columns have to be inserted.\<close>

lemma insert_columns:
  assumes seqs: "map ParseSequenceNumber ps = map Some seqs" "media_seqs seqs" "2 \<le> length ps"
    and n: "length ps \<le> 8 * ob" "f * ob \<le> length pm" "f * nb \<le> length tmp"
    and fits: "seq_offset seqs (length seqs - 1) < 8 * nb" "seq_offset seqs (length seqs - 1) < maxp"
    and zero: "\<forall>j < f * nb. tmp ! j = 0"
  shows "\<exists>tmp1 pm1 tmp2 pm2 tmp3. CopyColumn tmp nb pm ob f 0 0 = Some (tmp1, pm1) \<and>
    insert_zeros_loop maxp nb ob f (tl ps) (hd seqs) tmp1 pm1 1 1 = Some (tmp2, pm2, Suc (seq_offset seqs (length seqs - 1))) \<and>
    shift_last_byte f nb (Suc (seq_offset seqs (length seqs - 1))) tmp2 = Some tmp3 \<and>
    length tmp3 = length tmp \<and> length pm2 = length pm \<and>
    (\<forall>r < f. \<forall>c < 8 * nb. mask_bit tmp3 nb r c \<longleftrightarrow> (\<exists>i < length seqs. c = seq_offset seqs i \<and> mask_bit pm ob r i))"
proof -
  define seq where "seq p = the (ParseSequenceNumber p)" for p
  let ?o = "seq_offset seqs (length seqs - 1)"
  have l: "length seqs = length ps" using seqs(1) by (metis length_map)
  have parse: "i < length ps \<Longrightarrow> ParseSequenceNumber (ps ! i) = Some (seqs ! i)" for i
    using seqs(1) l by (metis nth_map)
  then have seq: "i < length ps \<Longrightarrow> seq (ps ! i) = seqs ! i" for i by (simp add: seq_def)
  have off: "i < length ps \<Longrightarrow> unat (seq (ps ! i) - hd seqs) = seq_offset seqs i" for i by (simp add: seq seq_offset_def)
  have "packed_byte m (\<lambda>x. False) 0" for m by (simp add: packed_byte_def)
  then have "new_rep f nb 0 (\<lambda>_ _. False) tmp"
    using zero n(3) byte_index [of _ f _ nb "f * nb"] by (auto simp: new_rep_def)
  moreover have "old_rep f ob 0 pm pm" using n(2) by (simp add: old_rep_def)
  ultimately obtain tmp1 pm1 where c: "CopyColumn tmp nb pm ob f 0 0 = Some (tmp1, pm1)" "length tmp1 = length tmp" "length pm1 = length pm"
      "new_rep f nb 1 (\<lambda>r c. False \<or> c = 0 \<and> mask_bit pm ob r 0) tmp1" "old_rep f ob 1 pm pm1"
    using new_rep_copy [of f nb 0 "\<lambda>_ _. False" tmp ob 0 pm pm] fits(1) n(1) seqs(3) by auto
  have tl: "i < length (tl ps) \<Longrightarrow> tl ps ! i = ps ! Suc i" for i by (simp add: nth_tl)
  have "\<forall>p \<in> set (tl ps). ParseSequenceNumber p = Some (seq p) \<and> 1 \<le> unat (seq p - hd seqs) \<and> unat (seq p - hd seqs) < 8 * nb \<and>
      unat (seq p - hd seqs) < maxp"
  proof
    fix p assume "p \<in> set (tl ps)"
    then obtain k where "k < length ps - 1" "p = ps ! Suc k" by (auto simp: in_set_conv_nth nth_tl)
    then obtain i where i: "i < length ps" "p = ps ! i" "0 < i" using less_diff_conv by fastforce
    have "0 < seq_offset seqs i" using seq_offset_ge [OF seqs(2), of i] i l by simp
    with seq_offset_le_last [OF seqs(2), of i] i l fits parse [of i] off [of i] seq [of i]
    show "ParseSequenceNumber p = Some (seq p) \<and> 1 \<le> unat (seq p - hd seqs) \<and> unat (seq p - hd seqs) < 8 * nb \<and>
      unat (seq p - hd seqs) < maxp" by simp
  qed
  moreover have "sorted_wrt (\<lambda>p q. unat (seq p - hd seqs) < unat (seq q - hd seqs)) (tl ps)"
    using seq_offset_mono [OF seqs(2)] l by (auto simp: sorted_wrt_iff_nth_less nth_tl off)
  moreover have tlne: "tl ps \<noteq> []" using seqs(3) by (cases ps) auto
  moreover have "unat (seq (last (tl ps)) - hd seqs) = ?o"
  proof -
    have "last (tl ps) = ps ! (length ps - 1)" using tlne by (cases ps) (auto simp: last_conv_nth)
    moreover have "length ps - 1 < length ps" using seqs(3) by simp
    ultimately show ?thesis using off l by metis
  qed
  moreover have "1 + length (tl ps) \<le> 8 * ob" using n(1) seqs(3) by simp
  ultimately obtain tmp2 pm2 where loop: "insert_zeros_loop maxp nb ob f (tl ps) (hd seqs) tmp1 pm1 1 1 = Some (tmp2, pm2, Suc ?o)"
      "length tmp2 = length tmp1" "length pm2 = length pm1"
      "new_rep f nb (Suc ?o) (\<lambda>r c. (False \<or> c = 0 \<and> mask_bit pm ob r 0) \<or>
         (\<exists>i < length (tl ps). c = unat (seq (tl ps ! i) - hd seqs) \<and> mask_bit pm ob r (1 + i))) tmp2"
    using insert_zeros_loop_spec [OF c(4,5), of "hd seqs" "hd seqs" "tl ps" seq maxp] by auto
  have w: "(False \<or> c = 0 \<and> mask_bit pm ob r 0) \<or> (\<exists>i < length (tl ps). c = unat (seq (tl ps ! i) - hd seqs) \<and> mask_bit pm ob r (1 + i))
      \<longleftrightarrow> (\<exists>i < length seqs. c = seq_offset seqs i \<and> mask_bit pm ob r i)" for r c
  proof -
    have "length seqs = Suc (length (tl ps))" "seqs \<noteq> []" using l seqs(3) by auto
    then show ?thesis by (simp only: Ex_less_Suc2) (auto simp: tl off)
  qed
  obtain tmp3 where "shift_last_byte f nb (Suc ?o) tmp2 = Some tmp3" "length tmp3 = length tmp2"
      "\<forall>r < f. \<forall>c < 8 * nb. mask_bit tmp3 nb r c \<longleftrightarrow> (\<exists>i < length seqs. c = seq_offset seqs i \<and> mask_bit pm ob r i)"
    using shift_last_byte_spec [OF loop(4)] fits(1) unfolding w by auto
  with c loop show ?thesis by auto
qed

lemma InsertZerosInPacketMasks_spec:
  fixes ps :: "u8 list list"
  assumes seqs: "map ParseSequenceNumber ps = map Some seqs" "media_seqs seqs"
    and n: "length ps \<le> 48" "f \<le> length ps" "\<forall>r < f. \<forall>c < 8 * mask_bytes (length ps). mask_bit pm (mask_bytes (length ps)) r c \<longrightarrow> c < length ps"
    and len: "length pm = 288" "length tmp = 288"
  shows "\<exists>res pm' tmp'. InsertZerosInPacketMasks 48 ps f (mask_bytes (length ps)) pm tmp = Some (res, pm', tmp') \<and>
    (if Suc (seq_offset seqs (length seqs - 1)) \<le> 48
     then res = Some (Suc (seq_offset seqs (length seqs - 1))) \<and> length pm' = 288 \<and> length tmp' = 288 \<and>
       spread_ok f seqs (mask_bytes (length ps)) (Suc (seq_offset seqs (length seqs - 1))) pm pm'
     else res = None)"
proof -
  let ?n = "length ps" and ?o = "seq_offset seqs (length seqs - 1)"
  have l: "length seqs = ?n" using seqs(1) by (metis length_map)
  have pos: "0 < ?n" using seqs(2) l by (auto simp: media_seqs_def)
  have parse: "i < ?n \<Longrightarrow> ParseSequenceNumber (ps ! i) = Some (seqs ! i)" for i
    using seqs(1) l by (metis nth_map)
  have ge: "?n - 1 \<le> ?o" using seq_offset_ge [OF seqs(2), of "?n - 1"] l pos by simp
  have o: "?o < 65536" unfolding seq_offset_def by (rule unat_u16_less)
  have n48: "?n \<le> 8 * mask_bytes ?n" using n(1) by (rule mask_bytes_fits)
  have ends: "ParseSequenceNumber (last ps) = Some (seqs ! (?n - 1))" "ParseSequenceNumber (hd ps) = Some (hd seqs)"
    using parse [of "?n - 1"] parse [of 0] pos seqs(2) by (simp_all add: last_conv_nth hd_conv_nth media_seqs_def)
  have last: "unat (seqs ! (?n - 1) - hd seqs) = ?o" by (simp add: seq_offset_def l)
  have total: "(size_sub ?o ?n + 1) mod 2 ^ 64 = ?o + 1 - ?n"
  proof (cases "?n \<le> ?o")
    case True
    then have "?o - ?n + 1 < 2 ^ 64" using o by simp
    with True show ?thesis by simp
  next
    case False
    with ge pos have "?o = ?n - 1" by simp
    moreover have "\<not> ?n \<le> ?n - 1" using pos by linarith
    ultimately have "size_sub ?o ?n = 2 ^ 64 - 1" using pos n(1) by (simp add: size_sub_def)
    with \<open>?o = ?n - 1\<close> pos show ?thesis by simp
  qed
  show ?thesis
  proof (cases "?o = ?n - 1")
    case True
    then have "spread_ok f seqs (mask_bytes ?n) (Suc ?o) pm pm"
      using seq_offset_id [OF seqs(2)] n(3) l pos unfolding spread_ok_def by fastforce
    with True ends last total pos n(1) len show ?thesis
      by (auto simp: InsertZerosInPacketMasks_def Let_def)
  next
    case False
    have "?n \<noteq> 1"
    proof
      assume "?n = 1"
      with l seqs(2) have "?o = 0" by (simp add: media_seqs_def)
      with False \<open>?n = 1\<close> show False by simp
    qed
    with False ge pos have gap: "?n \<le> ?o" "2 \<le> ?n" by linarith+
    have sum: "?o + 1 - ?n + ?n = Suc ?o" "Suc ?o mod 2 ^ 64 = Suc ?o" "?o + 1 - ?n \<noteq> 0" using gap o by simp_all
    show ?thesis
    proof (cases "Suc ?o \<le> 48")
      case False
      with gap ends last total sum show ?thesis
        by (simp add: InsertZerosInPacketMasks_def Let_def del: One_nat_def)
    next
      case True
      let ?nb = "mask_bytes (Suc ?o)" and ?ob = "mask_bytes ?n"
      have fb: "f * ?nb \<le> 288" "f * ?ob \<le> 288" using n(1,2) mult_le_mono [of f 48 ?nb 6] mult_le_mono [of f 48 ?ob 6]
        by (auto simp: mask_bytes_def)
      let ?t0 = "overwrite tmp 0 (replicate (f * ?nb) 0)"
      have t0: "copy_to tmp 0 (replicate (f * ?nb) 0) = Some ?t0" "length ?t0 = 288" "\<forall>j < f * ?nb. ?t0 ! j = 0"
        using fb len by (auto simp: copy_to_put put_def nth_overwrite)
      obtain tmp1 pm1 tmp2 pm2 tmp3 where c: "CopyColumn ?t0 ?nb pm ?ob f 0 0 = Some (tmp1, pm1)"
          "insert_zeros_loop 48 ?nb ?ob f (tl ps) (hd seqs) tmp1 pm1 1 1 = Some (tmp2, pm2, Suc ?o)"
          "shift_last_byte f ?nb (Suc ?o) tmp2 = Some tmp3" "length tmp3 = 288" "length pm2 = 288"
          "\<forall>r < f. \<forall>c < 8 * ?nb. mask_bit tmp3 ?nb r c \<longleftrightarrow> (\<exists>i < length seqs. c = seq_offset seqs i \<and> mask_bit pm ?ob r i)"
        using insert_columns [OF seqs gap(2) n48, of f pm ?nb ?t0 48] fb len t0 True mask_bytes_fits [OF True] by auto
      let ?rows = "take (f * ?nb) tmp3"
      have s: "slice tmp3 0 (f * ?nb) = Some ?rows" "length ?rows = f * ?nb" using c(4) fb by (simp_all add: slice_def)
      then have cp: "copy_to pm2 0 ?rows = Some (overwrite pm2 0 ?rows)" using c(5) fb by (simp add: copy_to_put put_def)
      have "mask_bit (overwrite pm2 0 ?rows) ?nb r x = mask_bit tmp3 ?nb r x" if "r < f" "x < 8 * ?nb" for r x
        using row_index [OF that] s(2) c(4,5) fb by (simp add: mask_bit_def nth_overwrite)
      with c(6) have "spread_ok f seqs ?ob (Suc ?o) pm (overwrite pm2 0 ?rows)" by (simp add: spread_ok_def)
      moreover have "InsertZerosInPacketMasks 48 ps f ?ob pm tmp = Some (Some (Suc ?o), overwrite pm2 0 ?rows, tmp3)"
      proof -
        have "PacketMaskSize (?o + 1) = Some ?nb" using PacketMaskSize_eq [OF True] by simp
        then show ?thesis using gap ends last total sum True t0(1) c(1-3) s(1) cp
          by (simp add: InsertZerosInPacketMasks_def Let_def del: One_nat_def)
      qed
      ultimately show ?thesis using True c(4,5) s(2) fb by simp
    qed
  qed
qed

end
