(* ===== verification/Fec_Header.thy ===== *)
theory Fec_Header
  imports Fec_Insert_Zeros Rtcp_Packet
begin

text \<open>
  FEC headers: the packet classes and the header reader and writer interfaces of
  \<^verbatim>\<open>forward_error_correction.h\<close>, and their two implementations, \<^verbatim>\<open>ulpfec_header_reader_writer.cc\<close> and
  \<^verbatim>\<open>flexfec_header_reader_writer.cc\<close>.

  The data of a packet that is being built (\<^verbatim>\<open>rtc::CopyOnWriteBuffer\<close>) is memory of some capacity, of which
  the first \<open>data_size\<close> bytes belong to the packet.  Within the capacity a change of size leaves the memory
  as it is; beyond it the packet moves to new memory, and what it did not hold before has the unspecified
  contents \<open>fill\<close>.  The data of a packet that has been received is the list of its bytes; a header
  reader changes them in place.  After a reader has returned false the packet is dropped, and what it has
  done to the bytes until then is not looked at again, so the model gives back the packet as it was.
\<close>

subsection \<open>Packets\<close>

definition kRtpHeaderSize :: nat where
  "kRtpHeaderSize = 12"

record packet_data =
  data_mem :: "u8 list"
  data_size :: nat

definition EnsureCapacity :: "(nat \<Rightarrow> u8) \<Rightarrow> nat \<Rightarrow> packet_data \<Rightarrow> packet_data" where
  "EnsureCapacity fill n d =
     (if n \<le> length (data_mem d) then d
      else d\<lparr>data_mem := take (data_size d) (data_mem d) @ map fill [data_size d..<n]\<rparr>)"

definition SetSize :: "(nat \<Rightarrow> u8) \<Rightarrow> nat \<Rightarrow> packet_data \<Rightarrow> packet_data" where
  "SetSize fill n d = (EnsureCapacity fill n d)\<lparr>data_size := n\<rparr>"

definition packet_bytes :: "packet_data \<Rightarrow> u8 list" where
  "packet_bytes d = take (data_size d) (data_mem d)"

record protected_packet =
  prot_ssrc :: u32
  prot_seq_num :: u16
  prot_pkt :: "u8 list option"

record received_fec_packet =
  fec_seq_num :: u16
  fec_ssrc :: u32
  protected_packets :: "protected_packet list"
  fec_header_size :: nat
  protected_ssrc :: u32
  seq_num_base :: u16
  packet_mask_offset :: nat
  packet_mask_size :: nat
  protection_length :: nat
  fec_pkt :: "u8 list"

text \<open>The virtual methods of the two interfaces.\<close>

record fec_header_reader =
  reader_MaxMediaPackets :: nat
  reader_MaxFecPackets :: nat
  ReadFecHeader :: "received_fec_packet \<Rightarrow> (bool \<times> received_fec_packet) option"

record fec_header_writer =
  writer_MaxMediaPackets :: nat
  writer_MaxFecPackets :: nat
  writer_MaxPacketOverhead :: nat
  MinPacketMaskSize :: "u8 list \<Rightarrow> nat \<Rightarrow> nat option"
  FecHeaderSize :: "nat \<Rightarrow> nat option"
  FinalizeFecHeader :: "u32 \<Rightarrow> u16 \<Rightarrow> u8 list \<Rightarrow> nat \<Rightarrow> packet_data \<Rightarrow> packet_data option"

definition kMaxMediaPackets :: nat where
  "kMaxMediaPackets = 48"

definition kMaxTrackedMediaPackets :: nat where
  "kMaxTrackedMediaPackets = 4 * kMaxMediaPackets"

definition kMaxFecPackets :: nat where
  "kMaxFecPackets = kMaxMediaPackets"

subsection \<open>ULPFEC\<close>

definition kFecLevel0HeaderSize :: nat where
  "kFecLevel0HeaderSize = 10"

definition UlpfecHeaderSize :: "nat \<Rightarrow> nat option" where
  "UlpfecHeaderSize mask_size = do {
     dcheck (mask_size \<le> kUlpfecPacketMaskSizeLBitSet);
     Some (if mask_size \<le> kUlpfecPacketMaskSizeLBitClear
           then kFecLevel0HeaderSize + (2 + kUlpfecPacketMaskSizeLBitClear)
           else kFecLevel0HeaderSize + (2 + kUlpfecPacketMaskSizeLBitSet))
   }"

definition Ulpfec_ReadFecHeader :: "received_fec_packet \<Rightarrow> (bool \<times> received_fec_packet) option" where
  "Ulpfec_ReadFecHeader p =
     (let data = fec_pkt p in
      if length data < kFecLevel0HeaderSize + 2 then Some (False, p)
      else do {
        b0 \<leftarrow> load data 0;
        let l_bit = b0 AND 0x40 \<noteq> 0;
        let mask_size = (if l_bit then kUlpfecPacketMaskSizeLBitSet else kUlpfecPacketMaskSizeLBitClear);
        header_size \<leftarrow> UlpfecHeaderSize mask_size;
        base \<leftarrow> ReadBE16 data 2;
        len \<leftarrow> ReadBE16 data 10;
        len_recovery \<leftarrow> slice data 8 2;
        data \<leftarrow> copy_to data 2 len_recovery;
        Some (True, p\<lparr>fec_header_size := header_size, protected_ssrc := fec_ssrc p, seq_num_base := base,
          packet_mask_offset := kFecLevel0HeaderSize + 2, packet_mask_size := mask_size,
          protection_length := unat len, fec_pkt := data\<rparr>)
      })"

definition Ulpfec_FinalizeFecHeader :: "u32 \<Rightarrow> u16 \<Rightarrow> u8 list \<Rightarrow> nat \<Rightarrow> packet_data \<Rightarrow> packet_data option" where
  "Ulpfec_FinalizeFecHeader media_ssrc base pm pm_size d = do {
     let data = data_mem d;
     b0 \<leftarrow> load data 0;
     data \<leftarrow> store data 0 (b0 AND 0x7f);
     let l_bit = (pm_size = kUlpfecPacketMaskSizeLBitSet);
     b0 \<leftarrow> load data 0;
     data \<leftarrow> (if l_bit then store data 0 (b0 OR 0x40)
       else do { dcheck (pm_size = kUlpfecPacketMaskSizeLBitClear); store data 0 (b0 AND 0xbf) });
     len_recovery \<leftarrow> slice data 2 2;
     data \<leftarrow> copy_to data 8 len_recovery;
     data \<leftarrow> WriteBE16 data 2 base;
     header_size \<leftarrow> UlpfecHeaderSize pm_size;
     data \<leftarrow> WriteBE16 data 10 (of_nat (size_sub (data_size d) header_size));
     m \<leftarrow> slice pm 0 pm_size;
     data \<leftarrow> copy_to data 12 m;
     Some (d\<lparr>data_mem := data\<rparr>)
   }"

definition ulpfec_reader :: fec_header_reader where
  "ulpfec_reader = \<lparr>reader_MaxMediaPackets = kMaxTrackedMediaPackets, reader_MaxFecPackets = kMaxFecPackets,
     ReadFecHeader = Ulpfec_ReadFecHeader\<rparr>"

definition ulpfec_writer :: fec_header_writer where
  "ulpfec_writer = \<lparr>writer_MaxMediaPackets = kMaxMediaPackets, writer_MaxFecPackets = kMaxFecPackets,
     writer_MaxPacketOverhead = kFecLevel0HeaderSize + (2 + kUlpfecPacketMaskSizeLBitSet),
     MinPacketMaskSize = (\<lambda>pm pm_size. Some pm_size), FecHeaderSize = UlpfecHeaderSize,
     FinalizeFecHeader = Ulpfec_FinalizeFecHeader\<rparr>"

subsection \<open>FlexFEC\<close>

definition kFlexfecPacketMaskSizes :: "nat list" where
  "kFlexfecPacketMaskSizes = [2, 6, 14]"

definition kBaseHeaderSize :: nat where
  "kBaseHeaderSize = 12"

definition kStreamSpecificHeaderSize :: nat where
  "kStreamSpecificHeaderSize = 6"

definition kHeaderSizes :: "nat list" where
  "kHeaderSizes = map (\<lambda>n. kBaseHeaderSize + kStreamSpecificHeaderSize + n) kFlexfecPacketMaskSizes"

definition kFlexfecPacketMaskOffset :: nat where
  "kFlexfecPacketMaskOffset = kBaseHeaderSize + kStreamSpecificHeaderSize"

definition FlexfecHeaderSize :: "nat \<Rightarrow> nat option" where
  "FlexfecHeaderSize mask_size = do {
     dcheck (mask_size \<le> kFlexfecPacketMaskSizes ! 2);
     Some (if mask_size \<le> kFlexfecPacketMaskSizes ! 0 then kHeaderSizes ! 0
           else if mask_size \<le> kFlexfecPacketMaskSizes ! 1 then kHeaderSizes ! 1
           else kHeaderSizes ! 2)
   }"

text \<open>The part of the reader that removes the K-bits; \<open>None\<close> inside is the return value false.\<close>

definition remove_k_bits :: "u8 list \<Rightarrow> (nat \<times> u8 list) option option" where
  "remove_k_bits data = do {
     let m = kFlexfecPacketMaskOffset;
     b \<leftarrow> load data m;
     let k_bit0 = b AND 0x80 \<noteq> 0;
     mask_part0 \<leftarrow> ReadBE16 data m;
     data \<leftarrow> WriteBE16 data m (push_bit 1 mask_part0);
     if k_bit0 then Some (Some (kFlexfecPacketMaskSizes ! 0, data))
     else if length data < kHeaderSizes ! 1 then Some None
     else do {
       b2 \<leftarrow> load data (m + 2);
       let k_bit1 = b2 AND 0x80 \<noteq> 0;
       let bit15 = drop_bit 6 b2 AND 0x01;
       b1 \<leftarrow> load data (m + 1);
       data \<leftarrow> store data (m + 1) (b1 OR bit15);
       mask_part1 \<leftarrow> ReadBE32 data (m + 2);
       data \<leftarrow> WriteBE32 data (m + 2) (push_bit 2 mask_part1);
       if k_bit1 then Some (Some (kFlexfecPacketMaskSizes ! 1, data))
       else if length data < kHeaderSizes ! 2 then Some None
       else do {
         b6 \<leftarrow> load data (m + 6);
         let k_bit2 = b6 AND 0x80 \<noteq> 0;
         if \<not> k_bit2 then Some None
         else do {
           let tail_bits = drop_bit 5 b6 AND 0x03;
           b5 \<leftarrow> load data (m + 5);
           data \<leftarrow> store data (m + 5) (b5 OR tail_bits);
           mask_part2 \<leftarrow> ReadBE64 data (m + 6);
           data \<leftarrow> WriteBE64 data (m + 6) (push_bit 3 mask_part2);
           Some (Some (kFlexfecPacketMaskSizes ! 2, data))
         }
       }
     }
   }"

definition Flexfec_ReadFecHeader :: "received_fec_packet \<Rightarrow> (bool \<times> received_fec_packet) option" where
  "Flexfec_ReadFecHeader p =
     (let data = fec_pkt p in
      if length data \<le> kBaseHeaderSize + kStreamSpecificHeaderSize then Some (False, p)
      else do {
        b0 \<leftarrow> load data 0;
        if b0 AND 0x80 \<noteq> 0 then Some (False, p)
        else if b0 AND 0x40 \<noteq> 0 then Some (False, p)
        else do {
          ssrc_count \<leftarrow> ReadBE8 data 8;
          if ssrc_count \<noteq> 1 then Some (False, p)
          else do {
            ssrc \<leftarrow> ReadBE32 data 12;
            base \<leftarrow> ReadBE16 data 16;
            if length data < kHeaderSizes ! 0 then Some (False, p)
            else do {
              r \<leftarrow> remove_k_bits data;
              case r of
                None \<Rightarrow> Some (False, p)
              | Some (mask_size, data) \<Rightarrow> do {
                  header_size \<leftarrow> FlexfecHeaderSize mask_size;
                  Some (True, p\<lparr>fec_header_size := header_size, protected_ssrc := ssrc, seq_num_base := base,
                    packet_mask_offset := kFlexfecPacketMaskOffset, packet_mask_size := mask_size,
                    protection_length := size_sub (length data) header_size, fec_pkt := data\<rparr>)
                }
            }
          }
        }
      })"

definition Flexfec_MinPacketMaskSize :: "u8 list \<Rightarrow> nat \<Rightarrow> nat option" where
  "Flexfec_MinPacketMaskSize pm pm_size =
     (if pm_size = kUlpfecPacketMaskSizeLBitClear then do {
        b \<leftarrow> load pm 1;
        Some (if b AND 0x01 = 0 then kFlexfecPacketMaskSizes ! 0 else kFlexfecPacketMaskSizes ! 1)
      }
      else if pm_size = kUlpfecPacketMaskSizeLBitSet then do {
        b \<leftarrow> load pm 5;
        Some (if b AND 0x03 = 0 then kFlexfecPacketMaskSizes ! 1 else kFlexfecPacketMaskSizes ! 2)
      }
      else None)"

definition write_long_mask :: "u8 list \<Rightarrow> u8 list \<Rightarrow> u8 list option" where
  "write_long_mask pm data = do {
     let m = kFlexfecPacketMaskOffset;
     part0 \<leftarrow> ReadBE16 pm 0;
     part1 \<leftarrow> ReadBE32 pm 2;
     data \<leftarrow> WriteBE16 data m (drop_bit 1 part0);
     data \<leftarrow> WriteBE32 data (m + 2) (drop_bit 2 part1);
     b1 \<leftarrow> load pm 1;
     data \<leftarrow> (if b1 AND 0x01 \<noteq> 0 then do { b \<leftarrow> load data (m + 2); store data (m + 2) (b OR 0x40) } else Some data);
     b5 \<leftarrow> load pm 5;
     let bit46 = b5 AND 0x02 \<noteq> 0;
     let bit47 = b5 AND 0x01 \<noteq> 0;
     if \<not> bit46 \<and> \<not> bit47 then do { b \<leftarrow> load data (m + 2); store data (m + 2) (b OR 0x80) }
     else do {
       data \<leftarrow> copy_to data (m + 6) (replicate 8 0);
       b \<leftarrow> load data (m + 6);
       data \<leftarrow> store data (m + 6) (b OR 0x80);
       data \<leftarrow> (if bit46 then do { b \<leftarrow> load data (m + 6); store data (m + 6) (b OR 0x40) } else Some data);
       if bit47 then do { b \<leftarrow> load data (m + 6); store data (m + 6) (b OR 0x20) } else Some data
     }
   }"

definition write_short_mask :: "u8 list \<Rightarrow> u8 list \<Rightarrow> u8 list option" where
  "write_short_mask pm data = do {
     let m = kFlexfecPacketMaskOffset;
     part0 \<leftarrow> ReadBE16 pm 0;
     data \<leftarrow> WriteBE16 data m (drop_bit 1 part0);
     b1 \<leftarrow> load pm 1;
     let bit15 = b1 AND 0x01 \<noteq> 0;
     if \<not> bit15 then do { b \<leftarrow> load data m; store data m (b OR 0x80) }
     else do {
       data \<leftarrow> copy_to data (m + 2) (replicate 4 0);
       b \<leftarrow> load data (m + 2);
       data \<leftarrow> store data (m + 2) (b OR 0x80);
       b \<leftarrow> load data (m + 2);
       store data (m + 2) (b OR 0x40)
     }
   }"

definition Flexfec_FinalizeFecHeader :: "u32 \<Rightarrow> u16 \<Rightarrow> u8 list \<Rightarrow> nat \<Rightarrow> packet_data \<Rightarrow> packet_data option" where
  "Flexfec_FinalizeFecHeader media_ssrc base pm pm_size d = do {
     let data = data_mem d;
     b0 \<leftarrow> load data 0;
     data \<leftarrow> store data 0 (b0 AND 0x7f);
     b0 \<leftarrow> load data 0;
     data \<leftarrow> store data 0 (b0 AND 0xbf);
     data \<leftarrow> WriteBE8 data 8 1;
     data \<leftarrow> WriteBE24 data 9 0;
     data \<leftarrow> WriteBE32 data 12 media_ssrc;
     data \<leftarrow> WriteBE16 data 16 base;
     data \<leftarrow> (if pm_size = kUlpfecPacketMaskSizeLBitSet then write_long_mask pm data
       else if pm_size = kUlpfecPacketMaskSizeLBitClear then write_short_mask pm data
       else None);
     Some (d\<lparr>data_mem := data\<rparr>)
   }"

definition flexfec_reader :: fec_header_reader where
  "flexfec_reader = \<lparr>reader_MaxMediaPackets = kMaxTrackedMediaPackets, reader_MaxFecPackets = kMaxFecPackets,
     ReadFecHeader = Flexfec_ReadFecHeader\<rparr>"

definition flexfec_writer :: fec_header_writer where
  "flexfec_writer = \<lparr>writer_MaxMediaPackets = kMaxMediaPackets, writer_MaxFecPackets = kMaxFecPackets,
     writer_MaxPacketOverhead = kHeaderSizes ! 2,
     MinPacketMaskSize = Flexfec_MinPacketMaskSize, FecHeaderSize = FlexfecHeaderSize,
     FinalizeFecHeader = Flexfec_FinalizeFecHeader\<rparr>"

end
