(* ===== verification/Fec_Header_Codec.thy ===== *)
theory Fec_Header_Codec
  imports Fec_Header
begin

text \<open>
  The two FEC header formats as codecs.  The contract \<open>fec_header_codec\<close> says what the receiver gets back
  from a header that the sender has finalized: sizes, base sequence number, protected source, the packet
  mask, and the recovery fields and payload unchanged.  It is proved of ULPFEC and of FlexFEC, whose
  reader and writer spread the mask over up to three parts with K-bits in between.
\<close>

lemma u8_eq_iff:
  "(a :: u8) = b \<longleftrightarrow> (bit a 0 \<longleftrightarrow> bit b 0) \<and> (bit a 1 \<longleftrightarrow> bit b 1) \<and> (bit a 2 \<longleftrightarrow> bit b 2) \<and> (bit a 3 \<longleftrightarrow> bit b 3) \<and>
     (bit a 4 \<longleftrightarrow> bit b 4) \<and> (bit a 5 \<longleftrightarrow> bit b 5) \<and> (bit a 6 \<longleftrightarrow> bit b 6) \<and> (bit a 7 \<longleftrightarrow> bit b 7)" (is "_ \<longleftrightarrow> ?r")
proof
  assume r: ?r
  show "a = b"
  proof (rule bit_word_eqI)
    fix n assume "n < LENGTH(8)"
    then have "n = 0 \<or> n = 1 \<or> n = 2 \<or> n = 3 \<or> n = 4 \<or> n = 5 \<or> n = 6 \<or> n = 7" by auto
    with r show "bit a n \<longleftrightarrow> bit b n" by (elim disjE) (simp_all only:)
  qed
qed simp

lemma u8_bit_high [simp]: "8 \<le> n \<Longrightarrow> \<not> bit (b :: u8) n"
  using bit_imp_le_length [of b n] by auto

lemma put_append [write_simps]:
  "length pre \<le> i \<Longrightarrow> put (pre @ xs) i bs = map_option (\<lambda>ys. pre @ ys) (put xs (i - length pre) bs)"
  by (auto simp: put_def overwrite_def)

lemma be_shift:
  "be_bytes 2 (drop_bit 1 (be_val [a, b] :: u16)) = [drop_bit 1 a, push_bit 7 a OR drop_bit 1 b]"
  "be_bytes 2 (push_bit 1 (be_val [a, b] :: u16)) = [push_bit 1 a OR drop_bit 7 b, push_bit 1 b]"
  "be_bytes 4 (drop_bit 2 (be_val [a, b, c, d] :: u32)) =
    [drop_bit 2 a, push_bit 6 a OR drop_bit 2 b, push_bit 6 b OR drop_bit 2 c, push_bit 6 c OR drop_bit 2 d]"
  "be_bytes 4 (push_bit 2 (be_val [a, b, c, d] :: u32)) =
    [push_bit 2 a OR drop_bit 6 b, push_bit 2 b OR drop_bit 6 c, push_bit 2 c OR drop_bit 6 d, push_bit 2 d]"
  "be_bytes 8 (push_bit 3 (be_val [a, 0, 0, 0, 0, 0, 0, 0] :: u64)) = [push_bit 3 a, 0, 0, 0, 0, 0, 0, 0]"
  unfolding be_bytes_2 be_bytes_4 be_bytes_8 list.inject u8_eq_iff
  by (simp_all add: bit_simps bit_be_val del: push_bit_Suc) (simp add: numeral_2_eq_2 numeral_3_eq_3)

lemmas flexfec_sizes = kFlexfecPacketMaskOffset_def kBaseHeaderSize_def kStreamSpecificHeaderSize_def kFlexfecPacketMaskSizes_def
  kHeaderSizes_def

lemma and_1_eq_0: "(w :: u8) AND 1 = 0 \<longleftrightarrow> \<not> bit w 0"
  using and_1_iff [of w] by blast

lemma and_2_eq_0: "(w :: u8) AND 2 = 0 \<longleftrightarrow> \<not> bit w 1"
  by (simp add: u8_eq_iff bit_simps bit_byte_pow)

lemma and_0x80_eq_0: "(w :: u8) AND 0x80 = 0 \<longleftrightarrow> \<not> bit w 7"
  using and_0x80 [of w] by blast

lemma and_3_eq_0: "(w :: u8) AND 3 = 0 \<longleftrightarrow> \<not> bit w 0 \<and> \<not> bit w 1"
  by (simp add: u8_eq_iff bit_simps)

lemmas byte_tests = and_3_eq_0 and_1_eq_0 and_2_eq_0 and_0x80_eq_0

text \<open>What the writer leaves of a mask of two and of six bytes.\<close>

lemma replicate_48:
  "replicate 4 x = [x, x, x, x]" "replicate 8 x = [x, x, x, x, x, x, x, x]"
  by (simp_all add: numeral_eq_Suc)

lemma put_0: "length bs \<le> length data \<Longrightarrow> put data 0 bs = Some (bs @ drop (length bs) data)"
  by (simp add: put_def overwrite_def)

lemma put_Cons: "0 < i \<Longrightarrow> put (x # xs) i bs = map_option ((#) x) (put xs (i - 1) bs)"
  by (cases i) (auto simp: put_def overwrite_def)

lemmas mask_eval = flexfec_sizes Let_def byte_tests read_simps write_simps slice_def be_shift
   replicate_48 copy_to_put put_0 put_Cons bit_simps bit_byte_pow

lemma write_short_mask_1:
  assumes "length pre = 18" "\<not> bit p1 0"
  shows "write_short_mask (p0 # p1 # ps) (pre @ x0 # x1 # rest) =
    Some (pre @ (drop_bit 1 p0 OR 0x80) # (push_bit 7 p0 OR drop_bit 1 p1) # rest)"
  using assms by (simp add: write_short_mask_def mask_eval del: push_bit_Suc One_nat_def)

lemma write_short_mask_2:
  assumes "length pre = 18" "bit p1 0"
  shows "write_short_mask (p0 # p1 # ps) (pre @ x0 # x1 # x2 # x3 # x4 # x5 # rest) =
    Some (pre @ drop_bit 1 p0 # (push_bit 7 p0 OR drop_bit 1 p1) # 0xC0 # 0 # 0 # 0 # rest)"
  using assms by (simp add: write_short_mask_def mask_eval del: push_bit_Suc One_nat_def)

lemma write_long_mask_1:
  assumes "length pre = 18" "\<not> bit p5 0" "\<not> bit p5 1"
  shows "write_long_mask (p0 # p1 # p2 # p3 # p4 # p5 # ps) (pre @ x0 # x1 # x2 # x3 # x4 # x5 # rest) =
    Some (pre @ drop_bit 1 p0 # (push_bit 7 p0 OR drop_bit 1 p1) # ((drop_bit 2 p2 OR (if bit p1 0 then 0x40 else 0)) OR 0x80) #
      (push_bit 6 p2 OR drop_bit 2 p3) # (push_bit 6 p3 OR drop_bit 2 p4) # (push_bit 6 p4 OR drop_bit 2 p5) # rest)"
  using assms by (simp add: write_long_mask_def mask_eval del: push_bit_Suc One_nat_def)

lemma write_long_mask_2:
  assumes "length pre = 18" "bit p5 0 \<or> bit p5 1"
  shows "write_long_mask (p0 # p1 # p2 # p3 # p4 # p5 # ps)
      (pre @ x0 # x1 # x2 # x3 # x4 # x5 # x6 # x7 # x8 # x9 # x10 # x11 # x12 # x13 # rest) =
    Some (pre @ drop_bit 1 p0 # (push_bit 7 p0 OR drop_bit 1 p1) # (drop_bit 2 p2 OR (if bit p1 0 then 0x40 else 0)) #
      (push_bit 6 p2 OR drop_bit 2 p3) # (push_bit 6 p3 OR drop_bit 2 p4) # (push_bit 6 p4 OR drop_bit 2 p5) #
      (0x80 OR (if bit p5 1 then 0x40 else 0) OR (if bit p5 0 then 0x20 else 0)) # 0 # 0 # 0 # 0 # 0 # 0 # 0 # rest)"
  using assms by (auto simp add: write_long_mask_def mask_eval simp del: push_bit_Suc One_nat_def)

text \<open>What the reader makes of it.\<close>

lemma remove_k_bits_1:
  assumes "length pre = 18" "bit y0 7"
  shows "remove_k_bits (pre @ y0 # y1 # rest) = Some (Some (2, pre @ (push_bit 1 y0 OR drop_bit 7 y1) # push_bit 1 y1 # rest))"
  using assms by (simp add: remove_k_bits_def mask_eval del: push_bit_Suc One_nat_def)

lemma remove_k_bits_2:
  assumes "length pre = 18" "\<not> bit y0 7" "bit y2 7"
  shows "remove_k_bits (pre @ y0 # y1 # y2 # y3 # y4 # y5 # rest) = Some (Some (6, pre @ (push_bit 1 y0 OR drop_bit 7 y1) #
    (push_bit 1 y1 OR drop_bit 6 y2 AND 1) # (push_bit 2 y2 OR drop_bit 6 y3) # (push_bit 2 y3 OR drop_bit 6 y4) #
    (push_bit 2 y4 OR drop_bit 6 y5) # push_bit 2 y5 # rest))"
  using assms by (simp add: remove_k_bits_def mask_eval del: push_bit_Suc One_nat_def drop_bit_and)

lemma remove_k_bits_3:
  assumes "length pre = 18" "\<not> bit y0 7" "\<not> bit y2 7" "bit y6 7"
  shows "remove_k_bits (pre @ y0 # y1 # y2 # y3 # y4 # y5 # y6 # 0 # 0 # 0 # 0 # 0 # 0 # 0 # rest) =
    Some (Some (14, pre @ (push_bit 1 y0 OR drop_bit 7 y1) #
    (push_bit 1 y1 OR drop_bit 6 y2 AND 1) # (push_bit 2 y2 OR drop_bit 6 y3) # (push_bit 2 y3 OR drop_bit 6 y4) #
    (push_bit 2 y4 OR drop_bit 6 y5) # (push_bit 2 y5 OR drop_bit 5 y6 AND 3) # push_bit 3 y6 # 0 # 0 # 0 # 0 # 0 # 0 # 0 # rest))"
  using assms by (simp add: remove_k_bits_def mask_eval del: push_bit_Suc One_nat_def drop_bit_and)

lemma bits_back:
  "\<not> bit p1 0 \<Longrightarrow> push_bit 1 (drop_bit 1 p0 OR 0x80) OR drop_bit 7 (push_bit 7 p0 OR drop_bit 1 p1) = (p0 :: u8)"
  "push_bit 1 (drop_bit 1 p0) OR drop_bit 7 (push_bit 7 p0 OR drop_bit 1 p1) = (p0 :: u8)"
  "\<not> bit p1 0 \<Longrightarrow> push_bit 1 (push_bit 7 p0 OR drop_bit 1 p1) = (p1 :: u8)"
  "bit p1 0 \<Longrightarrow> push_bit 1 (push_bit 7 p0 OR drop_bit 1 p1) OR 1 = (p1 :: u8)"
  "push_bit 1 (push_bit 7 p0 OR drop_bit 1 p1) OR drop_bit 6 (drop_bit 2 p2 OR (if bit p1 0 then 0x40 else 0)) AND 1 = p1"
  "push_bit 1 (push_bit 7 p0 OR drop_bit 1 p1) OR drop_bit 6 ((drop_bit 2 p2 OR (if bit p1 0 then 0x40 else 0)) OR 0x80) AND 1 = p1"
  "push_bit 2 (drop_bit 2 p2 OR (if b then 0x40 else 0)) OR drop_bit 6 (push_bit 6 p2 OR drop_bit 2 p3) = (p2 :: u8)"
  "push_bit 2 ((drop_bit 2 p2 OR (if b then 0x40 else 0)) OR 0x80) OR drop_bit 6 (push_bit 6 p2 OR drop_bit 2 p3) = (p2 :: u8)"
  "push_bit 2 (push_bit 6 p2 OR drop_bit 2 p3) OR drop_bit 6 (push_bit 6 p3 OR drop_bit 2 p4) = (p3 :: u8)"
  "\<not> bit p5 0 \<Longrightarrow> \<not> bit p5 1 \<Longrightarrow> push_bit 2 (push_bit 6 p4 OR drop_bit 2 p5) = (p5 :: u8)"
  "push_bit 2 (push_bit 6 p4 OR drop_bit 2 p5) OR drop_bit 5 (0x80 OR (if bit p5 1 then 0x40 else 0) OR (if bit p5 0 then 0x20 else 0)) AND 3 = (p5 :: u8)"
  "push_bit 3 (0x80 OR (if b then 0x40 else 0) OR (if b' then 0x20 else 0)) = (0 :: u8)"
  "replicate 4 (0 :: u8) = [0, 0, 0, 0]" "bit (0xC0 :: u8) 7"
  unfolding u8_eq_iff replicate_48
  by (auto simp add: bit_simps bit_byte_pow simp del: push_bit_Suc) (simp_all add: numeral_2_eq_2 numeral_3_eq_3)

lemmas mask_sizes = kUlpfecPacketMaskSizeLBitClear_def kUlpfecPacketMaskSizeLBitSet_def

lemma flexfec_mask_codec_short:
  assumes "length pre = 18" "Flexfec_MinPacketMaskSize (p0 # p1 # ps) 2 = Some ms" "ms \<le> length xs"
  shows "\<exists>ys. length ys = ms \<and> write_short_mask (p0 # p1 # ps) (pre @ xs) = Some (pre @ ys @ drop ms xs) \<and>
    (\<forall>pre rest. length pre = 18 \<longrightarrow>
      remove_k_bits (pre @ ys @ rest) = Some (Some (ms, pre @ ([p0, p1] @ replicate (ms - 2) 0) @ rest)))"
proof (cases "bit p1 0")
  case False
  then have ms: "ms = 2" using assms(2) by (simp add: Flexfec_MinPacketMaskSize_def mask_sizes byte_tests flexfec_sizes load_def)
  then obtain x0 x1 rest where xs: "xs = x0 # x1 # rest" using assms(3) by (auto simp: numeral_2_eq_2 Suc_le_length_iff)
  show ?thesis using False assms(1)
    by (intro exI [of _ "[drop_bit 1 p0 OR 0x80, push_bit 7 p0 OR drop_bit 1 p1]"])
      (simp_all add: ms xs write_short_mask_1 remove_k_bits_1 bits_back bit_simps bit_byte_pow del: One_nat_def push_bit_Suc push_bit_or drop_bit_or)
next
  case True
  then have ms: "ms = 6" using assms(2) by (simp add: Flexfec_MinPacketMaskSize_def mask_sizes byte_tests flexfec_sizes load_def)
  then obtain x0 x1 x2 x3 x4 x5 rest where xs: "xs = x0 # x1 # x2 # x3 # x4 # x5 # rest"
    using assms(3) by (auto simp: numeral_eq_Suc Suc_le_length_iff)
  have b: "\<not> bit (drop_bit 1 p0) 7" "bit (0xC0 :: u8) 7" by (simp_all add: bit_simps)
  have c: "drop_bit 6 (0xC0 :: u8) AND 1 = 1" "push_bit 2 (0xC0 :: u8) OR drop_bit 6 0 = 0" by simp_all
  note unpack = remove_k_bits_2 [OF _ b, where ?y3.0 = 0, unfolded c]
  show ?thesis using True assms(1)
    by (intro exI [of _ "[drop_bit 1 p0, push_bit 7 p0 OR drop_bit 1 p1, 0xC0, 0, 0, 0]"])
      (simp_all add: ms xs write_short_mask_2 unpack bits_back del: One_nat_def push_bit_Suc push_bit_or drop_bit_or)
qed

lemma flexfec_mask_codec_long:
  assumes "length pre = 18" "Flexfec_MinPacketMaskSize (p0 # p1 # p2 # p3 # p4 # p5 # ps) 6 = Some ms" "ms \<le> length xs"
  shows "\<exists>ys. length ys = ms \<and> write_long_mask (p0 # p1 # p2 # p3 # p4 # p5 # ps) (pre @ xs) = Some (pre @ ys @ drop ms xs) \<and>
    (\<forall>pre rest. length pre = 18 \<longrightarrow>
      remove_k_bits (pre @ ys @ rest) = Some (Some (ms, pre @ ([p0, p1, p2, p3, p4, p5] @ replicate (ms - 6) 0) @ rest)))"
proof (cases "bit p5 0 \<or> bit p5 1")
  case False
  then have ms: "ms = 6" using assms(2)
    by (simp add: Flexfec_MinPacketMaskSize_def mask_sizes byte_tests flexfec_sizes load_def)
  then obtain x0 x1 x2 x3 x4 x5 rest where xs: "xs = x0 # x1 # x2 # x3 # x4 # x5 # rest"
    using assms(3) by (auto simp: numeral_eq_Suc Suc_le_length_iff)
  show ?thesis using False assms(1)
    by (intro exI [of _ "[drop_bit 1 p0, push_bit 7 p0 OR drop_bit 1 p1, ((drop_bit 2 p2 OR (if bit p1 0 then 0x40 else 0)) OR 0x80),
      (push_bit 6 p2 OR drop_bit 2 p3), (push_bit 6 p3 OR drop_bit 2 p4), (push_bit 6 p4 OR drop_bit 2 p5)]"])
      (simp_all add: ms xs write_long_mask_1 remove_k_bits_2 bits_back bit_simps bit_byte_pow del: One_nat_def push_bit_Suc push_bit_or drop_bit_or drop_bit_and)
next
  case True
  then have ms: "ms = 14" using assms(2)
    by (auto simp: Flexfec_MinPacketMaskSize_def mask_sizes byte_tests flexfec_sizes load_def)
  then obtain x0 x1 x2 x3 x4 x5 x6 x7 x8 x9 x10 x11 x12 x13 rest
    where xs: "xs = x0 # x1 # x2 # x3 # x4 # x5 # x6 # x7 # x8 # x9 # x10 # x11 # x12 # x13 # rest"
    using assms(3) by (auto simp: numeral_eq_Suc Suc_le_length_iff)
  show ?thesis using True assms(1)
    by (intro exI [of _ "[drop_bit 1 p0, push_bit 7 p0 OR drop_bit 1 p1, ((drop_bit 2 p2 OR (if bit p1 0 then 0x40 else 0))),
      (push_bit 6 p2 OR drop_bit 2 p3), (push_bit 6 p3 OR drop_bit 2 p4), (push_bit 6 p4 OR drop_bit 2 p5),
      (0x80 OR (if bit p5 1 then 0x40 else 0) OR (if bit p5 0 then 0x20 else 0)), 0, 0, 0, 0, 0, 0, 0]"])
      (simp_all add: ms xs write_long_mask_2 remove_k_bits_3 bits_back bit_simps bit_byte_pow replicate_48 del: One_nat_def push_bit_Suc push_bit_or drop_bit_or drop_bit_and)
qed


subsection \<open>The contract\<close>

definition header_read ::
    "nat \<Rightarrow> u32 \<Rightarrow> u16 \<Rightarrow> u8 list \<Rightarrow> packet_data \<Rightarrow> received_fec_packet \<Rightarrow> received_fec_packet \<Rightarrow> bool" where
  "header_read hs ssrc base m d p p' \<longleftrightarrow> (\<exists>off ms data.
     p' = p\<lparr>fec_header_size := hs, protected_ssrc := ssrc, seq_num_base := base, packet_mask_offset := off,
       packet_mask_size := ms, protection_length := data_size d - hs, fec_pkt := data\<rparr> \<and>
     length data = data_size d \<and> length m \<le> ms \<and> slice data off ms = Some (m @ replicate (ms - length m) 0) \<and>
     data ! 0 AND 0x3f = data_mem d ! 0 AND 0x3f \<and>
     (\<forall>k. 1 \<le> k \<and> k < 8 \<longrightarrow> data ! k = data_mem d ! k) \<and>
     (\<forall>k. hs \<le> k \<and> k < data_size d \<longrightarrow> data ! k = data_mem d ! k))"

locale fec_header_codec =
  fixes writer :: fec_header_writer and reader :: fec_header_reader and owner :: "u32 \<Rightarrow> u32 \<Rightarrow> u32"
  assumes header_size: "n \<in> {2, 6} \<Longrightarrow> n \<le> length pm \<Longrightarrow>
      \<exists>ms hs. MinPacketMaskSize writer pm n = Some ms \<and> FecHeaderSize writer ms = Some hs \<and> kRtpHeaderSize \<le> hs \<and> hs \<le> 32"
    and finalize: "n \<in> {2, 6} \<Longrightarrow> n \<le> length pm \<Longrightarrow> MinPacketMaskSize writer pm n = Some ms \<Longrightarrow>
      FecHeaderSize writer ms = Some hs \<Longrightarrow> hs \<le> data_size d \<Longrightarrow> data_size d \<le> length (data_mem d) \<Longrightarrow>
      data_size d - hs < 65536 \<Longrightarrow>
      \<exists>d'. FinalizeFecHeader writer media_ssrc base pm n d = Some d' \<and> data_size d' = data_size d \<and>
        length (data_mem d') = length (data_mem d) \<and>
        (\<forall>p. fec_pkt p = packet_bytes d' \<longrightarrow>
          (\<exists>p'. ReadFecHeader reader p = Some (True, p') \<and>
            header_read hs (owner media_ssrc (fec_ssrc p)) base (take n pm) d p p'))"

lemma slice_mid: "length xs = i \<Longrightarrow> length ys = n \<Longrightarrow> slice (xs @ ys @ zs) i n = Some ys"
  by (simp add: slice_def)

lemma header_readI:
  assumes "data_mem d = [b0, b1, b2, b3, b4, b5, b6, b7] @ zs" "c0 AND 0x3f = b0 AND 0x3f"
    and "data = [c0, b1, b2, b3, b4, b5, b6, b7] @ hdr @ (m @ replicate (ms - length m) 0) @ take (data_size d - hs) (drop (hs - 8) zs)"
    and "off = 8 + length hdr" "hs = off + ms" "length m \<le> ms" "hs \<le> data_size d" "data_size d \<le> length (data_mem d)"
  shows "header_read hs ssrc base m d p (p\<lparr>fec_header_size := hs, protected_ssrc := ssrc, seq_num_base := base, packet_mask_offset := off,
       packet_mask_size := ms, protection_length := data_size d - hs, fec_pkt := data\<rparr>)"
proof -
  have l: "length data = data_size d" using assms by auto
  have "data = ([c0, b1, b2, b3, b4, b5, b6, b7] @ hdr) @ (m @ replicate (ms - length m) 0) @ take (data_size d - hs) (drop (hs - 8) zs)"
    using assms(3) by simp
  then have "slice data off ms = Some (m @ replicate (ms - length m) 0)" 
    by (rule ssubst) (rule slice_mid, use assms(4,6) in simp_all)
  moreover have "data ! k = data_mem d ! k" if "1 \<le> k" "k < 8" for k
  proof -
    have "k = 1 \<or> k = 2 \<or> k = 3 \<or> k = 4 \<or> k = 5 \<or> k = 6 \<or> k = 7" using that by linarith
    then show ?thesis unfolding assms(1,3) by (elim disjE) simp_all
  qed
  moreover have "data ! k = data_mem d ! k" if k: "hs \<le> k" "k < data_size d" for k
  proof -
    let ?h = "[c0, b1, b2, b3, b4, b5, b6, b7] @ hdr @ (m @ replicate (ms - length m) 0)"
    have h: "length ?h = hs" "length [b0, b1, b2, b3, b4, b5, b6, b7] = 8" using assms(4-6) by simp_all
    have "data = ?h @ take (data_size d - hs) (drop (hs - 8) zs)" using assms(3) by simp
    then have "data ! k = take (data_size d - hs) (drop (hs - 8) zs) ! (k - hs)" using h(1) k(1) by (metis nth_append not_le)
    also have "\<dots> = zs ! (k - 8)" using k assms h by simp
    also have "\<dots> = data_mem d ! k"
    proof -
      have "\<not> k < 8" using k(1) assms(4,5) by simp
      then show ?thesis unfolding assms(1) nth_append h(2) by simp
    qed
    finally show ?thesis .
  qed
  moreover have "data ! 0 AND 0x3f = data_mem d ! 0 AND 0x3f" unfolding assms(1,3) using assms(2) by simp
  ultimately show ?thesis using l assms(6) unfolding header_read_def by blast
qed

lemma ulpfec_bits:
  "((b AND 0x7f) OR 0x40) AND 0x40 \<noteq> (0 :: u8)" "((b AND 0x7f) AND 0xbf) AND 0x40 = (0 :: u8)"
  "((b AND 0x7f) OR 0x40) AND 0x3f = (b AND 0x3f :: u8)" "((b AND 0x7f) AND 0xbf) AND 0x3f = (b AND 0x3f :: u8)"
  by (simp_all add: u8_eq_iff bit_simps)

lemma ulpfec_data_cases:
  assumes "12 \<le> length (xs :: u8 list)"
  obtains b0 b1 b2 b3 b4 b5 b6 b7 b8 b9 b10 b11 ys where "xs = [b0, b1, b2, b3, b4, b5, b6, b7, b8, b9, b10, b11] @ ys"
  using assms by (auto simp: numeral_eq_Suc Suc_le_length_iff)

lemma ulpfec_finalize:
  assumes "n \<in> {2, 6}" "n \<le> length pm" "UlpfecHeaderSize n = Some hs" "hs \<le> data_size d" "data_size d \<le> length (data_mem d)"
    "data_mem d = [b0, b1, b2, b3, b4, b5, b6, b7, b8, b9, b10, b11] @ ys"
  shows "Ulpfec_FinalizeFecHeader media_ssrc base pm n d = Some (d\<lparr>data_mem :=
     [if n = 6 then (b0 AND 0x7f) OR 0x40 else (b0 AND 0x7f) AND 0xbf, b1] @ be_bytes 2 base @ [b4, b5, b6, b7, b2, b3] @
      be_bytes 2 (of_nat (data_size d - hs) :: u16) @ take n pm @ drop n ys\<rparr>)"
proof -
  have hs: "hs = 12 + n" using assms(1,3) by (auto simp: UlpfecHeaderSize_def kFecLevel0HeaderSize_def mask_sizes)
  then have "n \<le> length ys" using assms(4,5,6) by simp
  then show ?thesis using assms 
    by (auto simp: Ulpfec_FinalizeFecHeader_def Let_def mask_sizes load_def write_simps put_0 put_Cons slice_def copy_to_put be_bytes_2)
qed

lemma take_header:
  "length xs = h \<Longrightarrow> h \<le> n \<Longrightarrow> take n (xs @ ys) = xs @ take (n - h) ys"
  by simp

lemma be_val_of_nat_u16: "k < 65536 \<Longrightarrow> unat (be_val (be_bytes 2 (of_nat k :: u16)) :: u16) = k"
  by (simp add: unat_of_nat)

lemma ulpfec_read:
  assumes "n \<in> {2, 6}" "UlpfecHeaderSize n = Some hs" "length m = n" "k < 65536"
    "fec_pkt p = [if n = 6 then (b0 AND 0x7f) OR 0x40 else (b0 AND 0x7f) AND 0xbf, b1] @ be_bytes 2 base @ [b4, b5, b6, b7, b2, b3] @
      be_bytes 2 (of_nat k :: u16) @ m @ ys"
  shows "Ulpfec_ReadFecHeader p = Some (True, p\<lparr>fec_header_size := hs, protected_ssrc := fec_ssrc p, seq_num_base := base,
    packet_mask_offset := 12, packet_mask_size := n, protection_length := k,
    fec_pkt := [if n = 6 then (b0 AND 0x7f) OR 0x40 else (b0 AND 0x7f) AND 0xbf, b1, b2, b3, b4, b5, b6, b7, b2, b3] @
      be_bytes 2 (of_nat k :: u16) @ m @ ys\<rparr>)"
proof -
  have "(if n = 6 then (b0 AND 0x7f) OR 0x40 else (b0 AND 0x7f) AND 0xbf) AND 0x40 \<noteq> 0 \<longleftrightarrow> n = 6"
    using ulpfec_bits [of b0] by simp
  with assms show ?thesis
    by (auto simp: Ulpfec_ReadFecHeader_def Let_def mask_sizes kFecLevel0HeaderSize_def read_simps write_simps put_0 put_Cons slice_def
        copy_to_put be_val_of_nat_u16)
qed

interpretation ulpfec: fec_header_codec ulpfec_writer ulpfec_reader "\<lambda>media_ssrc fec_ssrc. fec_ssrc"
proof
  fix n and pm :: "u8 list"
  assume "n \<in> {2 :: nat, 6}" "n \<le> length pm"
  then show "\<exists>ms hs. MinPacketMaskSize ulpfec_writer pm n = Some ms \<and> FecHeaderSize ulpfec_writer ms = Some hs \<and> kRtpHeaderSize \<le> hs \<and> hs \<le> 32"
    by (auto simp: ulpfec_writer_def UlpfecHeaderSize_def kFecLevel0HeaderSize_def mask_sizes kRtpHeaderSize_def)
next
  fix n ms hs and pm :: "u8 list" and d :: packet_data and media_ssrc :: u32 and base :: u16
  assume a: "n \<in> {2 :: nat, 6}" "n \<le> length pm" "MinPacketMaskSize ulpfec_writer pm n = Some ms" "FecHeaderSize ulpfec_writer ms = Some hs"
    "hs \<le> data_size d" "data_size d \<le> length (data_mem d)" "data_size d - hs < 65536"
  then have hs: "UlpfecHeaderSize n = Some hs" "hs = 12 + n"
    by (auto simp: ulpfec_writer_def UlpfecHeaderSize_def kFecLevel0HeaderSize_def mask_sizes)
  then have "12 \<le> length (data_mem d)" using a(5,6) by simp
  then obtain b0 b1 b2 b3 b4 b5 b6 b7 b8 b9 b10 b11 ys where
    mem: "data_mem d = [b0, b1, b2, b3, b4, b5, b6, b7, b8, b9, b10, b11] @ ys" by (rule ulpfec_data_cases)
  let ?b = "if n = 6 then (b0 AND 0x7f) OR 0x40 else (b0 AND 0x7f) AND 0xbf"
  let ?k = "data_size d - hs"
  let ?rest = "take ?k (drop n ys)"
  let ?d = "d\<lparr>data_mem := [?b, b1] @ be_bytes 2 base @ [b4, b5, b6, b7, b2, b3] @ be_bytes 2 (of_nat ?k :: u16) @ take n pm @ drop n ys\<rparr>"
  have fin: "Ulpfec_FinalizeFecHeader media_ssrc base pm n d = Some ?d"
    using a hs mem by (intro ulpfec_finalize) auto
  have l: "length (take n pm) = n" "length (data_mem ?d) = length (data_mem d)" using a hs mem by auto
  have bytes: "packet_bytes ?d = [?b, b1] @ be_bytes 2 base @ [b4, b5, b6, b7, b2, b3] @ be_bytes 2 (of_nat ?k :: u16) @ take n pm @ ?rest"
  proof -
    let ?h = "[?b, b1] @ be_bytes 2 base @ [b4, b5, b6, b7, b2, b3] @ be_bytes 2 (of_nat ?k :: u16) @ take n pm"
    have "packet_bytes ?d = take (data_size d) (?h @ drop n ys)" by (simp add: packet_bytes_def)
    also have "\<dots> = ?h @ ?rest" using l(1) hs(2) a(5) by (intro take_header) simp_all
    finally show ?thesis by simp
  qed
  show "\<exists>d'. FinalizeFecHeader ulpfec_writer media_ssrc base pm n d = Some d' \<and> data_size d' = data_size d \<and>
        length (data_mem d') = length (data_mem d) \<and>
        (\<forall>p. fec_pkt p = packet_bytes d' \<longrightarrow>
          (\<exists>p'. ReadFecHeader ulpfec_reader p = Some (True, p') \<and> header_read hs (fec_ssrc p) base (take n pm) d p p'))"
  proof (intro exI conjI allI impI)
    show "FinalizeFecHeader ulpfec_writer media_ssrc base pm n d = Some ?d" using fin by (simp add: ulpfec_writer_def)
    fix p :: received_fec_packet assume p: "fec_pkt p = packet_bytes ?d"
    show "ReadFecHeader ulpfec_reader p = Some (True, p\<lparr>fec_header_size := hs, protected_ssrc := fec_ssrc p, seq_num_base := base,
      packet_mask_offset := 12, packet_mask_size := n, protection_length := ?k,
      fec_pkt := [?b, b1, b2, b3, b4, b5, b6, b7, b2, b3] @ be_bytes 2 (of_nat ?k :: u16) @ take n pm @ ?rest\<rparr>)" (is "_ = Some (True, ?p)")
      using p [unfolded bytes] a hs l by (simp only: ulpfec_reader_def fec_header_reader.select_convs) (intro ulpfec_read, auto)
    show "header_read hs (fec_ssrc p) base (take n pm) d p ?p"
      using ulpfec_bits [of b0] a hs l mem
      by (intro header_readI [where hdr = "[b2, b3] @ be_bytes 2 (of_nat ?k :: u16)" and zs = "[b8, b9, b10, b11] @ ys" and ?b0.0 = b0 and ?c0.0 = ?b]) auto
  qed (use l in simp_all)
qed

lemma flexfec_bits:
  "((b AND 0x7f) AND 0xbf) AND 0x80 = (0 :: u8)" "((b AND 0x7f) AND 0xbf) AND 0x40 = (0 :: u8)"
  "((b AND 0x7f) AND 0xbf) AND 0x3f = (b AND 0x3f :: u8)"
  by (simp_all add: u8_eq_iff bit_simps)

lemma flexfec_data_cases:
  assumes "18 \<le> length (xs :: u8 list)"
  obtains b0 b1 b2 b3 b4 b5 b6 b7 b8 b9 b10 b11 b12 b13 b14 b15 b16 b17 ys where
    "xs = [b0, b1, b2, b3, b4, b5, b6, b7, b8, b9, b10, b11, b12, b13, b14, b15, b16, b17] @ ys"
  using assms by (auto simp: numeral_eq_Suc Suc_le_length_iff)

lemma flexfec_mask_codec:
  assumes "n \<in> {2, 6}" "n \<le> length pm" "Flexfec_MinPacketMaskSize pm n = Some ms" "ms \<le> length xs" "length pre = 18"
  obtains ys where "length ys = ms"
    "(if n = 6 then write_long_mask pm (pre @ xs) else write_short_mask pm (pre @ xs)) = Some (pre @ ys @ drop ms xs)"
    "\<And>pre rest. length pre = 18 \<Longrightarrow> remove_k_bits (pre @ ys @ rest) = Some (Some (ms, pre @ (take n pm @ replicate (ms - n) 0) @ rest))"
proof (cases "n = 6")
  case True
  then obtain p0 p1 p2 p3 p4 p5 ps where pm: "pm = p0 # p1 # p2 # p3 # p4 # p5 # ps"
    using assms(2) by (auto simp: numeral_eq_Suc Suc_le_length_iff)
  show thesis using flexfec_mask_codec_long [OF assms(5) assms(3) [unfolded pm True] assms(4)] that True pm by auto
next
  case False
  with assms(1) have n: "n = 2" by simp
  then obtain p0 p1 ps where pm: "pm = p0 # p1 # ps" using assms(2) by (auto simp: numeral_eq_Suc Suc_le_length_iff)
  show thesis using flexfec_mask_codec_short [OF assms(5) assms(3) [unfolded pm n] assms(4)] that n pm by auto
qed

lemma flexfec_finalize:
  assumes "n \<in> {2, 6}"
    "data_mem d = [b0, b1, b2, b3, b4, b5, b6, b7, b8, b9, b10, b11, b12, b13, b14, b15, b16, b17] @ ys"
    "(if n = 6 then write_long_mask pm else write_short_mask pm)
       (([(b0 AND 0x7f) AND 0xbf, b1, b2, b3, b4, b5, b6, b7, 1] @ be_bytes 3 (0 :: u32) @ be_bytes 4 ssrc @ be_bytes 2 base) @ ys) = Some data"
  shows "Flexfec_FinalizeFecHeader ssrc base pm n d = Some (d\<lparr>data_mem := data\<rparr>)"
  using assms by (auto simp: Flexfec_FinalizeFecHeader_def Let_def mask_sizes load_def write_simps put_0 put_Cons)

lemma flexfec_read:
  assumes "ms \<in> {2, 6, 14}" "length m = ms" "FlexfecHeaderSize ms = Some hs"
    "fec_pkt p = ([(b0 AND 0x7f) AND 0xbf, b1, b2, b3, b4, b5, b6, b7, 1] @ be_bytes 3 (0 :: u32) @ be_bytes 4 ssrc @ be_bytes 2 base) @ ys @ rest"
    "length ys = ms"
    "\<And>pre rest. length pre = 18 \<Longrightarrow> remove_k_bits (pre @ ys @ rest) = Some (Some (ms, pre @ m @ rest))"
  shows "Flexfec_ReadFecHeader p = Some (True, p\<lparr>fec_header_size := hs, protected_ssrc := ssrc, seq_num_base := base,
    packet_mask_offset := 18, packet_mask_size := ms, protection_length := length rest,
    fec_pkt := ([(b0 AND 0x7f) AND 0xbf, b1, b2, b3, b4, b5, b6, b7, 1] @ be_bytes 3 (0 :: u32) @ be_bytes 4 ssrc @ be_bytes 2 base) @ m @ rest\<rparr>)"
proof -
  let ?pre = "[(b0 AND 0x7f) AND 0xbf, b1, b2, b3, b4, b5, b6, b7, 1] @ be_bytes 3 (0 :: u32) @ be_bytes 4 ssrc @ be_bytes 2 base"
  have pre: "length ?pre = 18" by simp
  have hs: "hs = 18 + ms" using assms(1,3) by (auto simp: FlexfecHeaderSize_def flexfec_sizes)
  have u: "remove_k_bits (fec_pkt p) = Some (Some (ms, ?pre @ m @ rest))" unfolding assms(4) by (rule assms(6) [OF pre])
  have l: "length (fec_pkt p) = hs + length rest" unfolding assms(4) using pre assms(5) hs by simp
  have r: "load (fec_pkt p) 0 = Some ((b0 AND 0x7f) AND 0xbf)" "ReadBE8 (fec_pkt p) 8 = Some 1" "ReadBE32 (fec_pkt p) 12 = Some ssrc"
    "ReadBE16 (fec_pkt p) 16 = Some base"
    unfolding assms(4) by (simp_all add: read_simps)
  show ?thesis using u l r assms hs flexfec_bits [of b0]
    by (auto simp: Flexfec_ReadFecHeader_def Let_def flexfec_sizes)
qed


interpretation flexfec: fec_header_codec flexfec_writer flexfec_reader "\<lambda>media_ssrc fec_ssrc. media_ssrc"
proof
  fix n and pm :: "u8 list"
  assume "n \<in> {2 :: nat, 6}" "n \<le> length pm"
  then show "\<exists>ms hs. MinPacketMaskSize flexfec_writer pm n = Some ms \<and> FecHeaderSize flexfec_writer ms = Some hs \<and> kRtpHeaderSize \<le> hs \<and> hs \<le> 32"
    by (auto simp: flexfec_writer_def Flexfec_MinPacketMaskSize_def FlexfecHeaderSize_def flexfec_sizes mask_sizes load_def kRtpHeaderSize_def)
next
  fix n ms hs and pm :: "u8 list" and d :: packet_data and media_ssrc :: u32 and base :: u16
  assume a: "n \<in> {2 :: nat, 6}" "n \<le> length pm" "MinPacketMaskSize flexfec_writer pm n = Some ms" "FecHeaderSize flexfec_writer ms = Some hs"
    "hs \<le> data_size d" "data_size d \<le> length (data_mem d)" "data_size d - hs < 65536"
  have ms: "Flexfec_MinPacketMaskSize pm n = Some ms" "FlexfecHeaderSize ms = Some hs" using a(3,4) by (simp_all add: flexfec_writer_def)
  then have ms3: "ms \<in> {2, 6, 14}" "n \<le> ms"
    using a(1,2) by (auto simp: Flexfec_MinPacketMaskSize_def mask_sizes flexfec_sizes load_def split: if_splits)
  then have hs: "hs = 18 + ms" using ms(2) by (auto simp: FlexfecHeaderSize_def flexfec_sizes)
  then have "18 \<le> length (data_mem d)" using a(5,6) by simp
  then obtain b0 b1 b2 b3 b4 b5 b6 b7 b8 b9 b10 b11 b12 b13 b14 b15 b16 b17 ys where
    mem: "data_mem d = [b0, b1, b2, b3, b4, b5, b6, b7, b8, b9, b10, b11, b12, b13, b14, b15, b16, b17] @ ys" by (rule flexfec_data_cases)
  let ?hdr = "[1] @ be_bytes 3 (0 :: u32) @ be_bytes 4 media_ssrc @ be_bytes 2 base"
  let ?pre = "[(b0 AND 0x7f) AND 0xbf, b1, b2, b3, b4, b5, b6, b7, 1] @ be_bytes 3 (0 :: u32) @ be_bytes 4 media_ssrc @ be_bytes 2 base"
  let ?k = "data_size d - hs" and ?m = "take n pm @ replicate (ms - n) 0"
  let ?rest = "take ?k (drop ms ys)"
  have pre: "length ?pre = 18" by simp
  have l: "ms \<le> length ys" "length (take n pm) = n" using a mem hs by auto
  obtain zs where zs: "length zs = ms"
      "(if n = 6 then write_long_mask pm (?pre @ ys) else write_short_mask pm (?pre @ ys)) = Some (?pre @ zs @ drop ms ys)"
      "\<And>pre rest. length pre = 18 \<Longrightarrow> remove_k_bits (pre @ zs @ rest) = Some (Some (ms, pre @ ?m @ rest))"
    using flexfec_mask_codec [OF a(1,2) ms(1) l(1) pre] by blast
  let ?d = "d\<lparr>data_mem := ?pre @ zs @ drop ms ys\<rparr>"
  have fin: "Flexfec_FinalizeFecHeader media_ssrc base pm n d = Some ?d"
    using zs(2) by (intro flexfec_finalize [OF a(1) mem]) (cases "n = 6", simp_all)
  have len: "length (data_mem ?d) = length (data_mem d)" using mem l zs(1) pre by simp
  have bytes: "packet_bytes ?d = ?pre @ zs @ ?rest"
  proof -
    have "packet_bytes ?d = take (data_size d) ((?pre @ zs) @ drop ms ys)" by (simp add: packet_bytes_def)
    also have "\<dots> = (?pre @ zs) @ ?rest" using zs(1) hs a(5) by (intro take_header) simp_all
    finally show ?thesis by simp
  qed
  have rest: "length ?rest = ?k" using a hs mem zs(1) by auto
  show "\<exists>d'. FinalizeFecHeader flexfec_writer media_ssrc base pm n d = Some d' \<and> data_size d' = data_size d \<and>
        length (data_mem d') = length (data_mem d) \<and>
        (\<forall>p. fec_pkt p = packet_bytes d' \<longrightarrow>
          (\<exists>p'. ReadFecHeader flexfec_reader p = Some (True, p') \<and> header_read hs media_ssrc base (take n pm) d p p'))"
  proof (intro exI conjI allI impI)
    show "FinalizeFecHeader flexfec_writer media_ssrc base pm n d = Some ?d" using fin by (simp add: flexfec_writer_def)
    fix p :: received_fec_packet assume p: "fec_pkt p = packet_bytes ?d"
    have m: "length ?m = ms" using l ms3 by simp
    show "ReadFecHeader flexfec_reader p = Some (True, p\<lparr>fec_header_size := hs, protected_ssrc := media_ssrc, seq_num_base := base,
      packet_mask_offset := 18, packet_mask_size := ms, protection_length := ?k, fec_pkt := ?pre @ ?m @ ?rest\<rparr>)" (is "_ = Some (True, ?p)")
      using flexfec_read [OF ms3(1) m ms(2) p [unfolded bytes] zs(1) zs(3)] unfolding rest by (simp add: flexfec_reader_def)
    show "header_read hs media_ssrc base (take n pm) d p ?p"
      using flexfec_bits [of b0] a hs l mem ms3
      by (intro header_readI [where hdr = ?hdr and ?b0.0 = b0 and ?c0.0 = "(b0 AND 0x7f) AND 0xbf"
          and zs = "[b8, b9, b10, b11, b12, b13, b14, b15, b16, b17] @ ys"]) auto
  qed (use len in simp_all)
qed
end
