(* ===== verification/Fec_Parity.thy ===== *)
theory Fec_Parity
  imports Fec_Encoder
begin

text \<open>
  What exclusive-or of packets computes.  A media packet contributes to every byte of a FEC packet
  (\<open>contrib\<close>): its first two bytes, its length, its timestamp and its payload.  The lemmas show that
  \<^verbatim>\<open>XorHeaders\<close> with \<^verbatim>\<open>XorPayloads\<close>, and the loop of \<^verbatim>\<open>GenerateFecPayloads\<close>, add these contributions up.
\<close>

subsection \<open>What a packet contributes\<close>

definition contrib :: "nat \<Rightarrow> u8 list \<Rightarrow> nat \<Rightarrow> u8" where
  "contrib off p k =
     (if k = 2 then ucast (drop_bit 8 (of_nat (length p - kRtpHeaderSize) :: u16))
      else if k = 3 then ucast (of_nat (length p - kRtpHeaderSize) :: u16)
      else if k < 8 then p ! k
      else if off \<le> k \<and> k - off < length p - kRtpHeaderSize then p ! (kRtpHeaderSize + (k - off))
      else 0)"

definition xor_into :: "nat \<Rightarrow> u8 list \<Rightarrow> packet_data \<Rightarrow> packet_data" where
  "xor_into off p d =
     \<lparr>data_mem = map (\<lambda>k. data_mem d ! k XOR contrib off p k) [0..<length (data_mem d)],
      data_size = max (data_size d) (off + (length p - kRtpHeaderSize))\<rparr>"

lemma xor_into_simps [simp]:
  "length (data_mem (xor_into off p d)) = length (data_mem d)"
  "data_size (xor_into off p d) = max (data_size d) (off + (length p - kRtpHeaderSize))"
  "k < length (data_mem d) \<Longrightarrow> data_mem (xor_into off p d) ! k = data_mem d ! k XOR contrib off p k"
  by (simp_all add: xor_into_def)

lemma xor_byte_fits: "i < length data \<Longrightarrow> xor_byte data i v = Some (data[i := data ! i XOR v])"
  by (simp add: xor_byte_def load_def store_def)

lemma XorHeaders_spec:
  assumes "kRtpHeaderSize \<le> length src" "8 \<le> length (data_mem d)"
  shows "XorHeaders src d = Some (d\<lparr>data_mem :=
    map (\<lambda>k. data_mem d ! k XOR (if k < 8 then contrib off src k else 0)) [0..<length (data_mem d)]\<rparr>)"
proof -
  let ?m = "data_mem d"
  let ?m' = "?m[0 := ?m ! 0 XOR contrib off src 0, 1 := ?m ! 1 XOR contrib off src 1, 2 := ?m ! 2 XOR contrib off src 2,
    3 := ?m ! 3 XOR contrib off src 3, 4 := ?m ! 4 XOR contrib off src 4, 5 := ?m ! 5 XOR contrib off src 5,
    6 := ?m ! 6 XOR contrib off src 6, 7 := ?m ! 7 XOR contrib off src 7]"
  have c: "contrib off src 0 = src ! 0" "contrib off src 1 = src ! 1" "contrib off src 4 = src ! 4" "contrib off src 5 = src ! 5"
    "contrib off src 6 = src ! 6" "contrib off src 7 = src ! 7" by (simp_all add: contrib_def)
  have len: "WriteBE16 [0, 0] 0 (of_nat (size_sub (length src) kRtpHeaderSize)) = Some [contrib off src 2, contrib off src 3]"
    using assms(1) by (simp add: WriteBE16_def store_def contrib_def)
  have "src \<noteq> []" "?m \<noteq> []" using assms by (auto simp: kRtpHeaderSize_def)
  then have "XorHeaders src d = Some (d\<lparr>data_mem := ?m'\<rparr>)"
    unfolding XorHeaders_def Let_def len c using assms by (simp add: load_def xor_byte_fits kRtpHeaderSize_def)
  moreover have "?m' = map (\<lambda>k. ?m ! k XOR (if k < 8 then contrib off src k else 0)) [0..<length ?m]"
  proof (rule nth_equalityI)
    fix k assume "k < length ?m'"
    then have k: "k < length ?m" by simp
    show "?m' ! k = map (\<lambda>k. ?m ! k XOR (if k < 8 then contrib off src k else 0)) [0..<length ?m] ! k"
    proof (cases "k < 8")
      case True
      then have "k = 0 \<or> k = 1 \<or> k = 2 \<or> k = 3 \<or> k = 4 \<or> k = 5 \<or> k = 6 \<or> k = 7" by linarith
      then show ?thesis using k assms(2) by (elim disjE) (simp_all, simp add: numeral_2_eq_2)
    next
      case False
      then show ?thesis using k by simp
    qed
  qed simp
  ultimately show ?thesis by simp
qed

lemma XorPayloads_spec:
  assumes "kRtpHeaderSize \<le> length src" "off + (length src - kRtpHeaderSize) \<le> length (data_mem d)"
    "length src < 2 ^ 64" "length (data_mem d) < 2 ^ 64"
  shows "XorPayloads fill src (length src - kRtpHeaderSize) off d =
    Some \<lparr>data_mem = map (\<lambda>k. data_mem d ! k XOR (if off \<le> k \<and> k - off < length src - kRtpHeaderSize
        then src ! (kRtpHeaderSize + (k - off)) else 0)) [0..<length (data_mem d)],
      data_size = max (data_size d) (off + (length src - kRtpHeaderSize))\<rparr>"
proof -
  let ?n = "length src - kRtpHeaderSize" and ?m = "data_mem d"
  let ?f = "\<lambda>q k. ?m ! k XOR (if off \<le> k \<and> k - off < q then src ! (kRtpHeaderSize + (k - off)) else 0)"
  let ?P = "\<lambda>q m. m = map (?f q) [0..<length ?m]"
  let ?d = "if off + ?n > data_size d then SetSize fill (off + ?n) d else d"
  have d: "data_mem ?d = ?m" "?d\<lparr>data_mem := x\<rparr> = \<lparr>data_mem = x, data_size = max (data_size d) (off + ?n)\<rparr>" for x
    using assms(2) by (auto simp: SetSize_def EnsureCapacity_def max_def)
  have "\<exists>m. each_row ?n (\<lambda>i m. do { b \<leftarrow> load src (kRtpHeaderSize + i); xor_byte m (off + i) b }) ?m = Some m \<and> ?P ?n m"
  proof (rule each_row_inv [where P = ?P])
    show "?P 0 ?m" by (simp add: map_nth)
    fix q m assume q: "q < ?n" and P: "?P q m"
    have "(map (?f q) [0..<length ?m])[off + q := map (?f q) [0..<length ?m] ! (off + q) XOR src ! (kRtpHeaderSize + q)] = map (?f (Suc q)) [0..<length ?m]"
      using q assms(2) by (intro nth_equalityI) (auto simp: nth_list_update less_Suc_eq)
    then show "\<exists>s'. do { b \<leftarrow> load src (kRtpHeaderSize + q); xor_byte m (off + q) b } = Some s' \<and> ?P (Suc q) s'"
      using q assms(1,2) P by (simp add: load_def xor_byte_fits)
  qed
  moreover have "(kRtpHeaderSize + ?n) mod 2 ^ 64 = length src" "(off + ?n) mod 2 ^ 64 = off + ?n" using assms by simp_all
  ultimately show ?thesis using assms(2) d
    unfolding XorPayloads_def by (auto simp: Let_def)
qed

lemma xor_packet:
  assumes "kRtpHeaderSize \<le> length src" "8 \<le> off" "off + (length src - kRtpHeaderSize) \<le> length (data_mem d)"
    "length src < 2 ^ 64" "length (data_mem d) < 2 ^ 64"
  shows "do { d \<leftarrow> XorHeaders src d; XorPayloads fill src (size_sub (length src) kRtpHeaderSize) off d } = Some (xor_into off src d)"
proof -
  let ?m = "data_mem d"
  let ?m1 = "map (\<lambda>k. ?m ! k XOR (if k < 8 then contrib off src k else 0)) [0..<length ?m]"
  have "8 \<le> length ?m" using assms(2,3) by simp
  then have h: "XorHeaders src d = Some (d\<lparr>data_mem := ?m1\<rparr>)" by (rule XorHeaders_spec [OF assms(1)])
  have "map (\<lambda>k. ?m1 ! k XOR (if off \<le> k \<and> k - off < length src - kRtpHeaderSize then src ! (kRtpHeaderSize + (k - off)) else 0))
      [0..<length ?m] = map (\<lambda>k. ?m ! k XOR contrib off src k) [0..<length ?m]"
    using assms(2) by (auto simp: contrib_def)
  then show ?thesis using h XorPayloads_spec [of src off "d\<lparr>data_mem := ?m1\<rparr>" fill] assms
    by (simp add: xor_into_def)
qed

lemma copy_to_overwrite: "i + length bs \<le> length data \<Longrightarrow> copy_to data i bs = Some (overwrite data i bs)"
  by (simp add: copy_to_put put_def)

lemma add_media_packet_spec:
  assumes "kRtpHeaderSize \<le> length p" "8 \<le> hs" "hs + (length p - kRtpHeaderSize) \<le> length (data_mem d)"
    "length p < 2 ^ 64" "length (data_mem d) < 2 ^ 64"
    and zero: "data_size d = 0 \<Longrightarrow> \<forall>k < length (data_mem d). data_mem d ! k = 0"
  shows "add_media_packet fill hs p d = Some (xor_into hs p d)"
proof -
  let ?n = "length p - kRtpHeaderSize" and ?m = "data_mem d"
  let ?d = "if hs + ?n > data_size d then SetSize fill (hs + ?n) d else d"
  have n: "size_sub (length p) kRtpHeaderSize = ?n" "(hs + ?n) mod 2 ^ 64 = hs + ?n" using assms by simp_all
  have d: "data_mem ?d = ?m" "?d\<lparr>data_mem := x\<rparr> = \<lparr>data_mem = x, data_size = max (data_size d) (hs + ?n)\<rparr>"
      "data_size ?d = max (data_size d) (hs + ?n)" for x
    using assms(3) by (auto simp: SetSize_def EnsureCapacity_def max_def)
  show ?thesis
  proof (cases "data_size d = 0")
    case False
    have "xor_into hs p ?d = xor_into hs p d" unfolding xor_into_def d(1,3) by simp
    moreover have "do { d \<leftarrow> XorHeaders p ?d; XorPayloads fill p (size_sub (length p) kRtpHeaderSize) hs d } = Some (xor_into hs p ?d)"
      using assms d by (intro xor_packet) simp_all
    ultimately show ?thesis using False unfolding add_media_packet_def Let_def n by simp
  next
    case True
    let ?b = "be_bytes 2 (of_nat ?n :: u16)" and ?pay = "take ?n (drop kRtpHeaderSize p)"
    define m1 where "m1 = overwrite ?m 0 (take 2 p)"
    define m2 where "m2 = overwrite m1 2 ?b"
    define m3 where "m3 = overwrite m2 4 (take 4 (drop 4 p))"
    define m4 where "m4 = overwrite m3 hs ?pay"
    have len: "length (take 2 p) = 2" "length (take 4 (drop 4 p)) = 4" "length ?pay = ?n" "length ?b = 2" "8 \<le> length ?m"
      using assms(1-3) by (simp_all add: kRtpHeaderSize_def)
    have l: "length m1 = length ?m" "length m2 = length ?m" "length m3 = length ?m" "length m4 = length ?m"
      using len assms(3) by (simp_all add: m1_def m2_def m3_def m4_def)
    have "copy_to ?m 0 (take 2 p) = Some m1" using len unfolding m1_def by (intro copy_to_overwrite) simp
    moreover have "WriteBE16 m1 2 (of_nat ?n) = Some m2" using len l unfolding m2_def by (simp add: WriteBE16_put put_def)
    moreover have "copy_to m2 4 (take 4 (drop 4 p)) = Some m3" using len l unfolding m3_def by (intro copy_to_overwrite) simp
    moreover have "(if ?n > 0 then do { bytes \<leftarrow> slice p kRtpHeaderSize ?n; copy_to m3 hs bytes } else Some m3) = Some m4"
    proof (cases "?n > 0")
      case True
      have "slice p kRtpHeaderSize ?n = Some ?pay" using assms(1) by (simp add: slice_def)
      moreover have "copy_to m3 hs ?pay = Some m4" using len(3) l assms(3) unfolding m4_def by (intro copy_to_overwrite) simp
      ultimately show ?thesis using True by simp
    next
      case False
      then show ?thesis by (simp add: m4_def overwrite_def)
    qed
    moreover have "slice p 0 2 = Some (take 2 p)" "slice p 4 4 = Some (take 4 (drop 4 p))"
      using assms(1) by (simp_all add: slice_def kRtpHeaderSize_def)
    ultimately have "add_media_packet fill hs p d = Some (?d\<lparr>data_mem := m4\<rparr>)"
      using True unfolding add_media_packet_def Let_def n d by simp
    moreover have "m4 = map (\<lambda>k. ?m ! k XOR contrib hs p k) [0..<length ?m]"
    proof (rule nth_equalityI)
      fix k assume "k < length m4"
      then have k: "k < length ?m" using l by simp
      have m4: "m4 ! k = (if hs \<le> k \<and> k < hs + ?n then ?pay ! (k - hs) else m3 ! k)"
        using k l len assms(3) unfolding m4_def by (subst nth_overwrite) simp_all
      have m3: "m3 ! k = (if 4 \<le> k \<and> k < 8 then p ! k else m2 ! k)"
        using k l len unfolding m3_def by (subst nth_overwrite) auto
      have m2: "m2 ! k = (if k = 2 then contrib hs p 2 else if k = 3 then contrib hs p 3 else m1 ! k)"
        using k l len unfolding m2_def by (subst nth_overwrite) (auto simp: be_bytes_2 contrib_def)
      have m1: "m1 ! k = (if k < 2 then p ! k else 0)"
        using k l len zero [OF True] unfolding m1_def by (subst nth_overwrite) auto
      show "m4 ! k = map (\<lambda>k. ?m ! k XOR contrib hs p k) [0..<length ?m] ! k"
        using k assms(1,2) zero [OF True] unfolding m4 m3 m2 m1 by (auto simp: contrib_def)
    qed (use l in simp)
    ultimately show ?thesis unfolding d(2) xor_into_def by (simp only:)
  qed
qed

text \<open>Exclusive or over a list.\<close>

definition xsum :: "('a \<Rightarrow> u8) \<Rightarrow> 'a list \<Rightarrow> u8" where
  "xsum f xs = foldr (\<lambda>x v. f x XOR v) xs 0"

lemma xsum_Nil [simp]: "xsum f [] = 0"
  by (simp add: xsum_def)

lemma xsum_Cons [simp]: "xsum f (x # xs) = f x XOR xsum f xs"
  by (simp add: xsum_def)

lemma xsum_append [simp]: "xsum f (xs @ ys) = xsum f xs XOR xsum f ys"
  by (induction xs) (simp_all add: ac_simps)

lemma xsum_cong: "(\<And>x. x \<in> set xs \<Longrightarrow> f x = g x) \<Longrightarrow> xsum f xs = xsum g xs"
  by (induction xs) simp_all

lemma xsum_zero: "(\<And>x. x \<in> set xs \<Longrightarrow> f x = 0) \<Longrightarrow> xsum f xs = 0"
  by (induction xs) simp_all

lemma fold_xor_into:
  shows "length (data_mem (fold (xor_into off) ps d)) = length (data_mem d)"
    and "k < length (data_mem d) \<Longrightarrow> data_mem (fold (xor_into off) ps d) ! k = data_mem d ! k XOR xsum (\<lambda>p. contrib off p k) ps"
    and "data_size d \<le> data_size (fold (xor_into off) ps d)"
    and "p \<in> set ps \<Longrightarrow> off + (length p - kRtpHeaderSize) \<le> data_size (fold (xor_into off) ps d)"
    and "data_size (fold (xor_into off) ps d) = data_size d \<or>
      (\<exists>p \<in> set ps. data_size (fold (xor_into off) ps d) = off + (length p - kRtpHeaderSize))"
proof -
  show "length (data_mem (fold (xor_into off) ps d)) = length (data_mem d)"
    by (induction ps arbitrary: d) simp_all
  show "k < length (data_mem d) \<Longrightarrow> data_mem (fold (xor_into off) ps d) ! k = data_mem d ! k XOR xsum (\<lambda>p. contrib off p k) ps"
    by (induction ps arbitrary: d) (simp_all add: ac_simps)
  show size: "data_size d \<le> data_size (fold (xor_into off) ps d)" for ps d
  proof (induction ps arbitrary: d)
    case (Cons q ps)
    have "data_size d \<le> data_size (xor_into off q d)" by simp
    also have "\<dots> \<le> data_size (fold (xor_into off) ps (xor_into off q d))" by (rule Cons)
    finally show ?case by simp
  qed simp
  show "p \<in> set ps \<Longrightarrow> off + (length p - kRtpHeaderSize) \<le> data_size (fold (xor_into off) ps d)"
  proof (induction ps arbitrary: d)
    case (Cons q ps)
    then show ?case using size [of "xor_into off q d" ps] by auto
  qed simp
  show "data_size (fold (xor_into off) ps d) = data_size d \<or>
      (\<exists>p \<in> set ps. data_size (fold (xor_into off) ps d) = off + (length p - kRtpHeaderSize))"
  proof (induction ps arbitrary: d)
    case (Cons q ps)
    show ?case using Cons [of "xor_into off q d"] by (auto simp: max_def split: if_splits)
  qed simp
qed

definition fits_fec :: "nat \<Rightarrow> packet_data \<Rightarrow> u8 list \<Rightarrow> bool" where
  "fits_fec hs d p \<longleftrightarrow> kRtpHeaderSize \<le> length p \<and> hs + (length p - kRtpHeaderSize) \<le> length (data_mem d) \<and> length p < 2 ^ 64"

lemma div_mod_step:
  fixes a x :: nat
  shows "a div 8 + (a mod 8 + x) div 8 = (a + x) div 8" "(a mod 8 + x) mod 8 = (a + x) mod 8"
proof -
  have "a + x = (a mod 8 + x) + a div 8 * 8" by simp
  then have "(a + x) div 8 = ((a mod 8 + x) + a div 8 * 8) div 8" by (simp only:)
  then show "a div 8 + (a mod 8 + x) div 8 = (a + x) div 8" by (subst (asm) div_mult_self1) simp_all
  show "(a mod 8 + x) mod 8 = (a + x) mod 8" by (simp add: mod_add_left_eq)
qed

lemma media_loop_spec:
  assumes seqs: "map ParseSequenceNumber ps = map Some seqs" "media_seqs seqs"
    and fits: "\<forall>p \<in> set ps. fits_fec hs d p" "8 \<le> hs" "length (data_mem d) < 2 ^ 64"
    and masks: "\<forall>i < length ps. r * nb + seq_offset seqs i div 8 < length masks"
    and zero: "data_size d = 0 \<longrightarrow> (\<forall>k < length (data_mem d). data_mem d ! k = 0)"
    and i: "i < length ps"
  shows "media_loop fill masks hs (drop i ps) (r * nb + seq_offset seqs i div 8) (seq_offset seqs i mod 8) (seqs ! i) d =
    Some (fold (xor_into hs) (map ((!) ps) (filter (\<lambda>j. mask_bit masks nb r (seq_offset seqs j)) [i..<length ps])) d)"
  using i fits zero
proof (induction "length ps - i" arbitrary: i d)
  case (Suc n)
  let ?o = "seq_offset seqs" and ?n = "length ps"
  have l: "length seqs = ?n" using seqs(1) by (metis length_map)
  let ?d = "if mask_bit masks nb r (?o i) then xor_into hs (ps ! i) d else d"
  have d: "length (data_mem ?d) = length (data_mem d)" "data_size ?d = 0 \<longrightarrow> (\<forall>k < length (data_mem ?d). data_mem ?d ! k = 0)"
    using Suc.prems(3,5) by auto
  have ld: "load masks (r * nb + ?o i div 8) = Some (masks ! (r * nb + ?o i div 8))" using masks Suc.prems(1) by (simp add: load_def)
  have test: "masks ! (r * nb + ?o i div 8) AND push_bit (7 - ?o i mod 8) 1 \<noteq> 0 \<longleftrightarrow> mask_bit masks nb r (?o i)"
    by (simp add: mask_bit_def and_exp_eq_0_iff_not_bit push_bit_eq_mult)
  have "fits_fec hs d (ps ! i)" using Suc.prems by simp
  then have "add_media_packet fill hs (ps ! i) d = Some (xor_into hs (ps ! i) d)"
    using Suc.prems by (intro add_media_packet_spec) (simp_all add: fits_fec_def)
  then have step: "(if masks ! (r * nb + ?o i div 8) AND push_bit (7 - ?o i mod 8) 1 \<noteq> 0
      then add_media_packet fill hs (ps ! i) d else Some d) = Some ?d"
    unfolding test by simp
  have drop: "drop i ps = ps ! i # drop (Suc i) ps" "[i..<?n] = i # [Suc i..<?n]"
    using Suc.prems(1) by (simp_all add: Cons_nth_drop_Suc upt_conv_Cons)
  show ?case
  proof (cases "Suc i < ?n")
    case False
    then have "drop (Suc i) ps = []" "[Suc i..<?n] = []" by simp_all
    then show ?thesis unfolding drop using ld step by simp
  next
    case True
    have next_o: "?o (Suc i) = ?o i + unat (seqs ! Suc i - seqs ! i)"
    proof -
      have lt: "?o i < ?o (Suc i)" using seq_offset_mono [OF seqs(2), of i "Suc i"] True l by simp
      have "seqs ! Suc i - seqs ! i = (seqs ! Suc i - hd seqs) - (seqs ! i - hd seqs)" by simp
      moreover have "unat \<dots> = ?o (Suc i) - ?o i" using lt by (subst unat_sub) (simp_all add: seq_offset_def word_le_nat_alt)
      ultimately show ?thesis using lt by simp
    qed
    have "ParseSequenceNumber (ps ! Suc i) = Some (seqs ! Suc i)" using seqs(1) True l by (metis nth_map)
    then have cs: "(case drop (Suc i) ps of [] \<Rightarrow> Some (?o i mod 8, seqs ! i) | q # _ \<Rightarrow> do {
           seq_num \<leftarrow> ParseSequenceNumber q; Some (?o i mod 8 + unat (seq_num - seqs ! i), seq_num) }) =
        Some (?o i mod 8 + unat (seqs ! Suc i - seqs ! i), seqs ! Suc i)"
      using True by (simp add: Cons_nth_drop_Suc [symmetric])
    have idx: "r * nb + ?o i div 8 + (?o i mod 8 + unat (seqs ! Suc i - seqs ! i)) div 8 = r * nb + ?o (Suc i) div 8"
      "(?o i mod 8 + unat (seqs ! Suc i - seqs ! i)) mod 8 = ?o (Suc i) mod 8"
      unfolding next_o using div_mod_step [of "?o i" "unat (seqs ! Suc i - seqs ! i)"] by linarith+
    have "media_loop fill masks hs (drop i ps) (r * nb + ?o i div 8) (?o i mod 8) (seqs ! i) d =
        media_loop fill masks hs (drop (Suc i) ps) (r * nb + ?o (Suc i) div 8) (?o (Suc i) mod 8) (seqs ! Suc i) ?d"
      unfolding drop by (simp only: media_loop.simps ld step cs bind.bind_lunit prod.case idx)
    also have "\<dots> = Some (fold (xor_into hs) (map ((!) ps) (filter (\<lambda>j. mask_bit masks nb r (?o j)) [Suc i..<?n])) ?d)"
      using Suc.hyps(2) True Suc.prems d by (intro Suc.hyps(1)) (auto simp: fits_fec_def)
    finally show ?thesis unfolding drop(2) by simp
  qed
qed simp
end
