(* ===== verification/Fec_Decoder.thy ===== *)
theory Fec_Decoder
  imports Fec_Encoder Sequence_Numbers
begin

text \<open>
  The receiving half of \<^verbatim>\<open>forward_error_correction.cc\<close>: \<^verbatim>\<open>DecodeFec\<close> and what it calls.  The function
  \<^verbatim>\<open>MinDiff\<close> (\<^verbatim>\<open>rtc_base/numerics/mod_ops.h\<close>, not part of the repository) is the parameter \<open>min_diff\<close>.
  \<^verbatim>\<open>list::sort\<close> is a stable sort with the comparison the code passes.
\<close>

record fec_received_packet =
  rcv_ssrc :: u32
  rcv_seq_num :: u16
  is_fec :: bool
  is_recovered :: bool
  rcv_pkt :: "u8 list"

record recovered_packet =
  rec_ssrc :: u32
  rec_seq_num :: u16
  was_recovered :: bool
  returned :: bool
  rec_pkt :: "u8 list"

definition kOldSequenceThreshold :: u16 where
  "kOldSequenceThreshold = 0x3fff"

subsection \<open>Comparing, sorting and searching\<close>

definition LessThan :: "u32 \<times> u16 \<Rightarrow> u32 \<times> u16 \<Rightarrow> bool option" where
  "LessThan a b = do {
     dcheck (fst a = fst b);
     Some (IsNewerSequenceNumber (snd b) (snd a))
   }"

definition prot_key :: "protected_packet \<Rightarrow> u32 \<times> u16" where
  "prot_key p = (prot_ssrc p, prot_seq_num p)"

definition rec_key :: "recovered_packet \<Rightarrow> u32 \<times> u16" where
  "rec_key p = (rec_ssrc p, rec_seq_num p)"

definition fec_key :: "received_fec_packet \<Rightarrow> u32 \<times> u16" where
  "fec_key p = (fec_ssrc p, fec_seq_num p)"

text \<open>A sort of two or more elements compares each of them with another, so all sources must be equal.\<close>

fun insert_by :: "('a \<Rightarrow> u32 \<times> u16) \<Rightarrow> 'a \<Rightarrow> 'a list \<Rightarrow> 'a list" where
  "insert_by key x [] = [x]"
| "insert_by key x (y # ys) =
     (if IsNewerSequenceNumber (snd (key y)) (snd (key x)) then x # y # ys else y # insert_by key x ys)"

definition sort_packets :: "('a \<Rightarrow> u32 \<times> u16) \<Rightarrow> 'a list \<Rightarrow> 'a list option" where
  "sort_packets key xs = do {
     dcheck (list_all (\<lambda>x. fst (key x) = fst (key (hd xs))) xs);
     Some (foldl (\<lambda>ys x. insert_by key x ys) [] xs)
   }"

text \<open>\<^verbatim>\<open>absl::c_lower_bound\<close>: bisection.\<close>

function lower_bound :: "protected_packet list \<Rightarrow> u32 \<times> u16 \<Rightarrow> nat \<Rightarrow> nat \<Rightarrow> nat option" where
  "lower_bound ps key first count =
     (if count = 0 then Some first
      else do {
        let step = count div 2;
        dcheck (first + step < length ps);
        lt \<leftarrow> LessThan (prot_key (ps ! (first + step))) key;
        if lt then lower_bound ps key (first + step + 1) (count - (step + 1))
        else lower_bound ps key first step
      })"
  by pat_completeness auto
termination
  by (relation "measure (\<lambda>(_, _, _, count). count)") auto

declare lower_bound.simps [simp del]

fun map_all :: "('a \<Rightarrow> 'b option) \<Rightarrow> 'a list \<Rightarrow> 'b list option" where
  "map_all f [] = Some []"
| "map_all f (x # xs) = do { y \<leftarrow> f x; ys \<leftarrow> map_all f xs; Some (y # ys) }"

subsection \<open>Inserting packets\<close>

definition update_covering :: "recovered_packet \<Rightarrow> received_fec_packet \<Rightarrow> received_fec_packet option" where
  "update_covering recovered fec_packet = do {
     let ps = protected_packets fec_packet;
     i \<leftarrow> lower_bound ps (rec_key recovered) 0 (length ps);
     if i < length ps \<and> prot_seq_num (ps ! i) = rec_seq_num recovered
     then Some (fec_packet\<lparr>protected_packets := ps[i := (ps ! i)\<lparr>prot_pkt := Some (rec_pkt recovered)\<rparr>]\<rparr>)
     else Some fec_packet
   }"

definition UpdateCoveringFecPackets :: "recovered_packet \<Rightarrow> received_fec_packet list \<Rightarrow> received_fec_packet list option" where
  "UpdateCoveringFecPackets recovered fec_packets = map_all (update_covering recovered) fec_packets"

text \<open>The loops that look for a duplicate.\<close>

fun has_duplicate :: "('a \<Rightarrow> u32 \<times> u16) \<Rightarrow> u32 \<times> u16 \<Rightarrow> 'a list \<Rightarrow> bool option" where
  "has_duplicate key k [] = Some False"
| "has_duplicate key k (x # xs) = do {
     dcheck (fst (key x) = fst k);
     if snd (key x) = snd k then Some True else has_duplicate key k xs
   }"

definition InsertMediaPacket ::
    "recovered_packet list \<Rightarrow> fec_received_packet \<Rightarrow> forward_error_correction \<Rightarrow>
      (recovered_packet list \<times> forward_error_correction) option" where
  "InsertMediaPacket recovered_packets received_packet fec = do {
     dcheck (rcv_ssrc received_packet = protected_media_ssrc fec);
     duplicate \<leftarrow> has_duplicate rec_key (rcv_ssrc received_packet, rcv_seq_num received_packet) recovered_packets;
     if duplicate then Some (recovered_packets, fec)
     else do {
       let recovered_packet = \<lparr>rec_ssrc = rcv_ssrc received_packet, rec_seq_num = rcv_seq_num received_packet,
         was_recovered = False, returned = True, rec_pkt = rcv_pkt received_packet\<rparr>;
       recovered_packets \<leftarrow> sort_packets rec_key (recovered_packets @ [recovered_packet]);
       fec_packets \<leftarrow> UpdateCoveringFecPackets recovered_packet (received_fec_packets fec);
       Some (recovered_packets, fec\<lparr>received_fec_packets := fec_packets\<rparr>)
     }
   }"

fun AssignRecoveredPackets :: "protected_packet list \<Rightarrow> recovered_packet list \<Rightarrow> protected_packet list option" where
  "AssignRecoveredPackets [] rs = Some []"
| "AssignRecoveredPackets (p # ps) [] = Some (p # ps)"
| "AssignRecoveredPackets (p # ps) (r # rs) = do {
     lt \<leftarrow> LessThan (prot_key p) (rec_key r);
     if lt then do { ps \<leftarrow> AssignRecoveredPackets ps (r # rs); Some (p # ps) }
     else do {
       gt \<leftarrow> LessThan (rec_key r) (prot_key p);
       if gt then AssignRecoveredPackets (p # ps) rs
       else do { ps \<leftarrow> AssignRecoveredPackets ps rs; Some (p\<lparr>prot_pkt := Some (rec_pkt r)\<rparr> # ps) }
     }
   }"

text \<open>The loops that turn the packet mask into the list of protected packets.\<close>

definition mask_packets :: "u32 \<Rightarrow> u16 \<Rightarrow> u8 list \<Rightarrow> protected_packet list" where
  "mask_packets ssrc base bytes = concat (map (\<lambda>byte_idx. concat (map (\<lambda>bit_idx.
     if bytes ! byte_idx AND push_bit (7 - bit_idx) 1 \<noteq> 0
     then [\<lparr>prot_ssrc = ssrc, prot_seq_num = base + of_nat (8 * byte_idx + bit_idx), prot_pkt = None\<rparr>]
     else []) [0..<8])) [0..<length bytes])"

definition InsertFecPacket ::
    "recovered_packet list \<Rightarrow> fec_received_packet \<Rightarrow> forward_error_correction \<Rightarrow> forward_error_correction option" where
  "InsertFecPacket recovered_packets received_packet fec = do {
     dcheck (rcv_ssrc received_packet = own_ssrc fec);
     duplicate \<leftarrow> has_duplicate fec_key (rcv_ssrc received_packet, rcv_seq_num received_packet) (received_fec_packets fec);
     if duplicate then Some fec
     else do {
       let fec_packet = \<lparr>fec_seq_num = rcv_seq_num received_packet, fec_ssrc = rcv_ssrc received_packet, protected_packets = [],
         fec_header_size = 0, protected_ssrc = 0, seq_num_base = 0, packet_mask_offset = 0, packet_mask_size = 0,
         protection_length = 0, fec_pkt = rcv_pkt received_packet\<rparr>;
       (ret, fec_packet) \<leftarrow> ReadFecHeader (header_reader fec) fec_packet;
       if \<not> ret then Some fec
       else if protected_ssrc fec_packet \<noteq> protected_media_ssrc fec then Some fec
       else if packet_mask_offset fec_packet + packet_mask_size fec_packet > length (fec_pkt fec_packet) then Some fec
       else do {
         bytes \<leftarrow> slice (fec_pkt fec_packet) (packet_mask_offset fec_packet) (packet_mask_size fec_packet);
         let ps = mask_packets (protected_media_ssrc fec) (seq_num_base fec_packet) bytes;
         if ps = [] then Some fec
         else do {
           ps \<leftarrow> AssignRecoveredPackets ps recovered_packets;
           fec_packets \<leftarrow> sort_packets fec_key (received_fec_packets fec @ [fec_packet\<lparr>protected_packets := ps\<rparr>]);
           let max_fec_packets = reader_MaxFecPackets (header_reader fec);
           let fec_packets = (if length fec_packets > max_fec_packets then tl fec_packets else fec_packets);
           dcheck (length fec_packets \<le> max_fec_packets);
           Some (fec\<lparr>received_fec_packets := fec_packets\<rparr>)
         }
       }
     }
   }"

function pop_front_while_larger :: "nat \<Rightarrow> 'a list \<Rightarrow> 'a list" where
  "pop_front_while_larger n xs = (if length xs > n then pop_front_while_larger n (tl xs) else xs)"
  by pat_completeness auto
termination
  by (relation "measure (\<lambda>(_, xs). length xs)") auto

declare pop_front_while_larger.simps [simp del]

definition DiscardOldRecoveredPackets :: "forward_error_correction \<Rightarrow> recovered_packet list \<Rightarrow> recovered_packet list option" where
  "DiscardOldRecoveredPackets fec recovered_packets = do {
     let max_media_packets = reader_MaxMediaPackets (header_reader fec);
     let recovered_packets = pop_front_while_larger max_media_packets recovered_packets;
     dcheck (length recovered_packets \<le> max_media_packets);
     Some recovered_packets
   }"

definition InsertPacket ::
    "(u16 \<Rightarrow> u16 \<Rightarrow> u16) \<Rightarrow> fec_received_packet \<Rightarrow> recovered_packet list \<Rightarrow> forward_error_correction \<Rightarrow>
      (recovered_packet list \<times> forward_error_correction) option" where
  "InsertPacket min_diff received_packet recovered_packets fec = do {
     let fec =
       (if received_fec_packets fec \<noteq> [] \<and> rcv_ssrc received_packet = fec_ssrc (hd (received_fec_packets fec))
        then fec\<lparr>received_fec_packets := dropWhile (\<lambda>p. min_diff (rcv_seq_num received_packet) (fec_seq_num p) > kOldSequenceThreshold)
                (received_fec_packets fec)\<rparr>
        else fec);
     (recovered_packets, fec) \<leftarrow>
       (if is_fec received_packet
        then do { fec \<leftarrow> InsertFecPacket recovered_packets received_packet fec; Some (recovered_packets, fec) }
        else InsertMediaPacket recovered_packets received_packet fec);
     recovered_packets \<leftarrow> DiscardOldRecoveredPackets fec recovered_packets;
     Some (recovered_packets, fec)
   }"

subsection \<open>Recovering packets\<close>

text \<open>\<open>None\<close> inside is the return value false.\<close>

definition StartPacketRecovery :: "(nat \<Rightarrow> u8) \<Rightarrow> received_fec_packet \<Rightarrow> packet_data option option" where
  "StartPacketRecovery fill fec_packet =
     (let data = fec_pkt fec_packet; n = protection_length fec_packet in
      if length data < (fec_header_size fec_packet + n) mod 2 ^ 64 then Some None
      else if n > min (IP_PACKET_SIZE - kRtpHeaderSize) (size_sub IP_PACKET_SIZE (fec_header_size fec_packet)) then Some None
      else do {
        let d = EnsureCapacity fill IP_PACKET_SIZE \<lparr>data_mem = [], data_size = 0\<rparr>;
        let d = SetSize fill (n + kRtpHeaderSize) d;
        bytes \<leftarrow> slice data 0 kRtpHeaderSize;
        mem \<leftarrow> copy_to (data_mem d) 0 bytes;
        mem \<leftarrow> (if n > 0 then do {
            bytes \<leftarrow> slice data (fec_header_size fec_packet) n;
            copy_to mem kRtpHeaderSize bytes
          } else Some mem);
        Some (Some (d\<lparr>data_mem := mem\<rparr>))
      })"

definition FinishPacketRecovery ::
    "(nat \<Rightarrow> u8) \<Rightarrow> received_fec_packet \<Rightarrow> u16 \<Rightarrow> packet_data \<Rightarrow> packet_data option option" where
  "FinishPacketRecovery fill fec_packet seq_num d = do {
     let data = data_mem d;
     b \<leftarrow> load data 0; data \<leftarrow> store data 0 (b OR 0x80);
     b \<leftarrow> load data 0; data \<leftarrow> store data 0 (b AND 0xbf);
     len \<leftarrow> ReadBE16 data 2;
     let new_size = unat len + kRtpHeaderSize;
     if new_size > IP_PACKET_SIZE - kRtpHeaderSize then Some None
     else do {
       let d = SetSize fill new_size (d\<lparr>data_mem := data\<rparr>);
       data \<leftarrow> WriteBE16 (data_mem d) 2 seq_num;
       data \<leftarrow> WriteBE32 data 8 (protected_ssrc fec_packet);
       Some (Some (d\<lparr>data_mem := data\<rparr>))
     }
   }"

text \<open>The loop of \<^verbatim>\<open>RecoverPacket\<close>.  The sequence number is \<open>None\<close> as long as it is not initialised.\<close>

fun recover_loop :: "(nat \<Rightarrow> u8) \<Rightarrow> protected_packet list \<Rightarrow> u16 option \<Rightarrow> packet_data \<Rightarrow> (u16 option \<times> packet_data) option" where
  "recover_loop fill [] seq_num d = Some (seq_num, d)"
| "recover_loop fill (p # ps) seq_num d =
     (case prot_pkt p of
        None \<Rightarrow> recover_loop fill ps (Some (prot_seq_num p)) d
      | Some pkt \<Rightarrow> do {
          d \<leftarrow> XorHeaders pkt d;
          d \<leftarrow> XorPayloads fill pkt (size_sub (length pkt) kRtpHeaderSize) kRtpHeaderSize d;
          recover_loop fill ps seq_num d
        })"

definition RecoverPacket :: "(nat \<Rightarrow> u8) \<Rightarrow> received_fec_packet \<Rightarrow> recovered_packet option option" where
  "RecoverPacket fill fec_packet = do {
     start \<leftarrow> StartPacketRecovery fill fec_packet;
     case start of None \<Rightarrow> Some None
     | Some d \<Rightarrow> do {
         (seq_num, d) \<leftarrow> recover_loop fill (protected_packets fec_packet) None d;
         seq_num \<leftarrow> seq_num;
         finish \<leftarrow> FinishPacketRecovery fill fec_packet seq_num d;
         case finish of None \<Rightarrow> Some None
         | Some d \<Rightarrow> Some (Some \<lparr>rec_ssrc = protected_ssrc fec_packet, rec_seq_num = seq_num, was_recovered = True,
             returned = False, rec_pkt = packet_bytes d\<rparr>)
       }
   }"

fun missing_upto_2 :: "protected_packet list \<Rightarrow> nat \<Rightarrow> nat" where
  "missing_upto_2 [] packets_missing = packets_missing"
| "missing_upto_2 (p # ps) packets_missing =
     (if prot_pkt p = None then
        let packets_missing = packets_missing + 1 in
        if packets_missing > 1 then packets_missing else missing_upto_2 ps packets_missing
      else missing_upto_2 ps packets_missing)"

definition NumCoveredPacketsMissing :: "received_fec_packet \<Rightarrow> nat" where
  "NumCoveredPacketsMissing fec_packet = missing_upto_2 (protected_packets fec_packet) 0"

definition IsOldFecPacket :: "(u16 \<Rightarrow> u16 \<Rightarrow> u16) \<Rightarrow> received_fec_packet \<Rightarrow> recovered_packet list \<Rightarrow> bool option" where
  "IsOldFecPacket min_diff fec_packet recovered_packets =
     (if recovered_packets = [] then Some False
      else do {
        dcheck (protected_packets fec_packet \<noteq> []);
        Some (min_diff (rec_seq_num (last recovered_packets)) (prot_seq_num (last (protected_packets fec_packet))) > kOldSequenceThreshold)
      })"

lemma map_all_length: "map_all f xs = Some ys \<Longrightarrow> length ys = length xs"
  by (induction xs arbitrary: ys) (auto simp: bind_eq_Some_conv)

text \<open>
  The loop of \<^verbatim>\<open>AttemptRecovery\<close>.  The list of FEC packets is split at the iterator: \<open>before\<close> it and \<open>rest\<close>,
  which starts with the packet it points to.
\<close>

function attempt_loop ::
    "(u16 \<Rightarrow> u16 \<Rightarrow> u16) \<Rightarrow> (nat \<Rightarrow> u8) \<Rightarrow> forward_error_correction \<Rightarrow> recovered_packet list \<Rightarrow> received_fec_packet list \<Rightarrow>
      received_fec_packet list \<Rightarrow> (recovered_packet list \<times> received_fec_packet list) option" where
  "attempt_loop min_diff fill fec recovered_packets before [] = Some (recovered_packets, before)"
| "attempt_loop min_diff fill fec recovered_packets before (f # rest) =
     (let packets_missing = NumCoveredPacketsMissing f in
      if packets_missing = 1 then do {
        r \<leftarrow> RecoverPacket fill f;
        case r of None \<Rightarrow> attempt_loop min_diff fill fec recovered_packets before rest
        | Some recovered_packet \<Rightarrow> do {
            recovered_packets \<leftarrow> sort_packets rec_key (recovered_packets @ [recovered_packet]);
            fec_packets \<leftarrow> UpdateCoveringFecPackets recovered_packet (before @ f # rest);
            recovered_packets \<leftarrow> DiscardOldRecoveredPackets fec recovered_packets;
            attempt_loop min_diff fill fec recovered_packets []
              (take (length before) fec_packets @ drop (Suc (length before)) fec_packets)
          }
      }
      else do {
        discard \<leftarrow> (if packets_missing = 0 then Some True else IsOldFecPacket min_diff f recovered_packets);
        if discard then attempt_loop min_diff fill fec recovered_packets before rest
        else attempt_loop min_diff fill fec recovered_packets (before @ [f]) rest
      })"
  by pat_completeness auto
termination
  by (relation "measures [\<lambda>(_, _, _, _, before, rest). length before + length rest, \<lambda>(_, _, _, _, _, rest). length rest]")
    (auto simp: UpdateCoveringFecPackets_def dest!: map_all_length)

definition AttemptRecovery ::
    "(u16 \<Rightarrow> u16 \<Rightarrow> u16) \<Rightarrow> (nat \<Rightarrow> u8) \<Rightarrow> recovered_packet list \<Rightarrow> forward_error_correction \<Rightarrow>
      (recovered_packet list \<times> forward_error_correction) option" where
  "AttemptRecovery min_diff fill recovered_packets fec = do {
     (recovered_packets, fec_packets) \<leftarrow> attempt_loop min_diff fill fec recovered_packets [] (received_fec_packets fec);
     Some (recovered_packets, fec\<lparr>received_fec_packets := fec_packets\<rparr>)
   }"

subsection \<open>Decoding\<close>

definition ResetState ::
    "recovered_packet list \<Rightarrow> forward_error_correction \<Rightarrow> recovered_packet list \<times> forward_error_correction" where
  "ResetState recovered_packets fec = ([], fec\<lparr>received_fec_packets := []\<rparr>)"

definition DecodeFec ::
    "(u16 \<Rightarrow> u16 \<Rightarrow> u16) \<Rightarrow> (nat \<Rightarrow> u8) \<Rightarrow> fec_received_packet \<Rightarrow> recovered_packet list \<Rightarrow> forward_error_correction \<Rightarrow>
      (recovered_packet list \<times> forward_error_correction) option" where
  "DecodeFec min_diff fill received_packet recovered_packets fec = do {
     let max_media_packets = reader_MaxMediaPackets (header_reader fec);
     (recovered_packets, fec) \<leftarrow>
       (if length recovered_packets = max_media_packets then do {
          dcheck (recovered_packets \<noteq> []);
          let back_recovered_packet = last recovered_packets;
          if rcv_ssrc received_packet = rec_ssrc back_recovered_packet \<and>
             unat (min_diff (rcv_seq_num received_packet) (rec_seq_num back_recovered_packet)) > max_media_packets
          then Some (ResetState recovered_packets fec)
          else Some (recovered_packets, fec)
        }
        else Some (recovered_packets, fec));
     (recovered_packets, fec) \<leftarrow> InsertPacket min_diff received_packet recovered_packets fec;
     AttemptRecovery min_diff fill recovered_packets fec
   }"

end
