(* ===== verification/Fec_Encode_Spec.thy ===== *)
theory Fec_Encode_Spec
  imports Fec_Parity Fec_Decoder
begin

text \<open>
  What \<^verbatim>\<open>EncodeFec\<close> achieves, for every header format that meets the contract \<open>fec_header_codec\<close>.  Each
  generated packet \<open>fec_carries\<close> the media packets of one row of the mask: its reader finds their sequence
  numbers in the mask and their exclusive or (\<open>parity_of\<close>) in the recovery fields and the payload.
\<close>

subsection \<open>What the receiver sees\<close>

definition parity_of :: "u8 list list \<Rightarrow> received_fec_packet \<Rightarrow> bool" where
  "parity_of pkts f \<longleftrightarrow>
     (let data = fec_pkt f; hs = fec_header_size f; n = protection_length f in
      kRtpHeaderSize \<le> hs \<and> hs + n = length data \<and> length data \<le> IP_PACKET_SIZE \<and>
      (\<forall>p \<in> set pkts. length p - kRtpHeaderSize \<le> n) \<and>
      data ! 0 AND 0x3f = xsum (\<lambda>p. p ! 0) pkts AND 0x3f \<and>
      (\<forall>k. 1 \<le> k \<and> k < 8 \<longrightarrow> data ! k = xsum (\<lambda>p. contrib kRtpHeaderSize p k) pkts) \<and>
      (\<forall>j < n. data ! (hs + j) = xsum (\<lambda>p. contrib kRtpHeaderSize p (kRtpHeaderSize + j)) pkts))"

definition fec_carries :: "fec_header_reader \<Rightarrow> u32 \<Rightarrow> u32 \<Rightarrow> (u16 \<times> u8 list) list \<Rightarrow> u8 list \<Rightarrow> bool" where
  "fec_carries reader fec_source media_source pkts data \<longleftrightarrow>
     (\<forall>f. fec_pkt f = data \<and> fec_ssrc f = fec_source \<longrightarrow> (\<exists>f' bytes.
       ReadFecHeader reader f = Some (True, f') \<and> fec_ssrc f' = fec_ssrc f \<and> fec_seq_num f' = fec_seq_num f \<and>
       protected_ssrc f' = media_source \<and>
       slice (fec_pkt f') (packet_mask_offset f') (packet_mask_size f') = Some bytes \<and>
       mask_packets media_source (seq_num_base f') bytes =
         map (\<lambda>(s, p). \<lparr>prot_ssrc = media_source, prot_seq_num = s, prot_pkt = None\<rparr>) pkts \<and>
       parity_of (map snd pkts) f'))"

lemma concat_map_filter: "concat (map (\<lambda>x. if P x then [f x] else []) xs) = map f (filter P xs)"
  by (induction xs) simp_all

lemma filter_upt_blocks:
  "concat (map (\<lambda>q. map (\<lambda>s. f (8 * q + s)) (filter (\<lambda>s. P (8 * q + s)) [0..<8])) [0..<n]) = map f (filter P [0..<8 * n])"
proof (induction n)
  case (Suc n)
  have "[0..<8 * n + 8] = [0..<8 * n] @ [8 * n..<8 * n + 8]" by (rule upt_add_eq_append) simp
  then have "[0..<8 * Suc n] = [0..<8 * n] @ map (\<lambda>s. 8 * n + s) [0..<8]"
    using map_add_upt [of "8 * n" 8] by (simp add: add.commute)
  then show ?case using Suc by (simp add: filter_map o_def)
qed simp

lemma mask_packets_eq:
  "mask_packets ssrc base bytes =
    map (\<lambda>c. \<lparr>prot_ssrc = ssrc, prot_seq_num = base + of_nat c, prot_pkt = None\<rparr>)
      (filter (mask_bit bytes 0 0) [0..<8 * length bytes])"
proof -
  have "bytes ! q AND push_bit (7 - s) 1 \<noteq> 0 \<longleftrightarrow> mask_bit bytes 0 0 (8 * q + s)" if "s < 8" for q s
    using that by (simp add: mask_bit_def and_exp_eq_0_iff_not_bit push_bit_eq_mult)
  then have "filter (\<lambda>s. bytes ! q AND push_bit (7 - s) 1 \<noteq> 0) [0..<8] = filter (\<lambda>s. mask_bit bytes 0 0 (8 * q + s)) [0..<8]" for q
    by (intro filter_cong) auto
  then show ?thesis unfolding mask_packets_def concat_map_filter filter_upt_blocks [symmetric] by (simp only:)
qed

lemma seq_offset_back: "media_seqs seqs \<Longrightarrow> hd seqs + of_nat (seq_offset seqs i) = seqs ! i"
  by (simp add: seq_offset_def)

lemma mask_columns:
  assumes "media_seqs seqs" "\<And>c. c < 8 * N \<Longrightarrow> mask_bit bytes 0 0 c \<longleftrightarrow> (\<exists>i < length seqs. c = seq_offset seqs i \<and> sel i)"
    "length bytes = N" "\<forall>i < length seqs. seq_offset seqs i < 8 * N"
  shows "filter (mask_bit bytes 0 0) [0..<8 * length bytes] = map (seq_offset seqs) (filter sel [0..<length seqs])"
proof (rule sorted_distinct_set_unique)
  have "sorted_wrt (\<lambda>i j. seq_offset seqs i < seq_offset seqs j) [0..<length seqs]"
    using seq_offset_mono [OF assms(1)] by (simp add: sorted_wrt_iff_nth_less)
  then have "sorted_wrt (<) (map (seq_offset seqs) (filter sel [0..<length seqs]))"
    by (simp add: sorted_wrt_map sorted_wrt_filter)
  then show "sorted (map (seq_offset seqs) (filter sel [0..<length seqs]))" "distinct (map (seq_offset seqs) (filter sel [0..<length seqs]))"
    by (simp_all add: strict_sorted_iff)
qed (use assms in \<open>auto simp: sorted_wrt_filter\<close>)

lemma each_generated:
  assumes "n \<le> length (generated_fec_packets fec)"
    and "\<And>i gs. i < n \<Longrightarrow> i < length gs \<Longrightarrow> gs ! i = generated_fec_packets fec ! i \<Longrightarrow>
      step i (fec\<lparr>generated_fec_packets := gs\<rparr>) = Some (fec\<lparr>generated_fec_packets := gs[i := h i]\<rparr>)"
  shows "each_row n step fec = Some (fec\<lparr>generated_fec_packets := map h [0..<n] @ drop n (generated_fec_packets fec)\<rparr>)"
proof -
  let ?g = "generated_fec_packets fec"
  let ?P = "\<lambda>q s. s = fec\<lparr>generated_fec_packets := map h [0..<q] @ drop q ?g\<rparr>"
  have "\<exists>s. each_row n step fec = Some s \<and> ?P n s"
  proof (rule each_row_inv [where P = ?P])
    fix q s assume q: "q < n" and P: "?P q s"
    let ?gs = "map h [0..<q] @ drop q ?g"
    have "?gs ! q = ?g ! q" "q < length ?gs" using q assms(1) by (auto simp: nth_append)
    moreover have "?gs[q := h q] = map h [0..<Suc q] @ drop (Suc q) ?g"
      using q assms(1) by (simp add: list_update_append Cons_nth_drop_Suc [symmetric])
    ultimately show "\<exists>s'. step q s = Some s' \<and> ?P (Suc q) s'" using assms(2) [OF q, of ?gs] P by simp
  qed simp
  then show ?thesis by simp
qed

lemma packet_data_update: "(d :: packet_data)\<lparr>data_mem := m, data_size := s\<rparr> = \<lparr>data_mem = m, data_size = s\<rparr>"
  by (cases d) simp

definition zero_packet :: packet_data where
  "zero_packet = \<lparr>data_mem = replicate IP_PACKET_SIZE 0, data_size = 0\<rparr>"

definition encoder_inv :: "forward_error_correction \<Rightarrow> bool" where
  "encoder_inv fec \<longleftrightarrow> length (packet_masks fec) = 288 \<and> length (tmp_packet_masks fec) = 288 \<and>
     kMaxFecPackets \<le> length (generated_fec_packets fec) \<and>
     (\<forall>d \<in> set (generated_fec_packets fec). data_size d \<le> length (data_mem d) \<and> length (data_mem d) \<le> IP_PACKET_SIZE)"

lemma prepare_packets_spec:
  assumes "encoder_inv fec" "n \<le> kMaxFecPackets"
  shows "prepare_packets fill n fec = Some (fec\<lparr>generated_fec_packets := replicate n zero_packet @ drop n (generated_fec_packets fec)\<rparr>)"
proof -
  have "prepare_packets fill n fec =
      Some (fec\<lparr>generated_fec_packets := map (\<lambda>_. zero_packet) [0..<n] @ drop n (generated_fec_packets fec)\<rparr>)"
    unfolding prepare_packets_def
  proof (rule each_generated)
    show "n \<le> length (generated_fec_packets fec)" using assms by (simp add: encoder_inv_def)
    fix i gs assume i: "i < n" "i < length gs" "gs ! i = generated_fec_packets fec ! i"
    let ?d = "EnsureCapacity fill IP_PACKET_SIZE (gs ! i)"
    have "generated_fec_packets fec ! i \<in> set (generated_fec_packets fec)" using i assms by (auto simp: encoder_inv_def)
    then have l: "length (data_mem ?d) = IP_PACKET_SIZE" using assms(1) i(3) by (auto simp: encoder_inv_def EnsureCapacity_def)
    then have "copy_to (data_mem ?d) 0 (replicate IP_PACKET_SIZE 0) = Some (replicate IP_PACKET_SIZE 0)"
      by (subst copy_to_overwrite) (simp_all add: overwrite_def)
    then show "do {
        dcheck (i < length (generated_fec_packets (fec\<lparr>generated_fec_packets := gs\<rparr>)));
        let d = EnsureCapacity fill IP_PACKET_SIZE (generated_fec_packets (fec\<lparr>generated_fec_packets := gs\<rparr>) ! i);
        mem \<leftarrow> copy_to (data_mem d) 0 (replicate IP_PACKET_SIZE 0);
        Some (fec\<lparr>generated_fec_packets := gs, generated_fec_packets :=
          (generated_fec_packets (fec\<lparr>generated_fec_packets := gs\<rparr>))[i := SetSize fill 0 (d\<lparr>data_mem := mem\<rparr>)]\<rparr>)
      } = Some (fec\<lparr>generated_fec_packets := gs[i := zero_packet]\<rparr>)"
      using i by (simp add: Let_def SetSize_def EnsureCapacity_def zero_packet_def packet_data_update)
  qed
  then show ?thesis by (simp add: map_replicate_const)
qed

subsection \<open>Encoding\<close>

text \<open>The media packets a FEC packet protects.\<close>

definition row_packets :: "u16 list \<Rightarrow> u8 list \<Rightarrow> nat \<Rightarrow> nat \<Rightarrow> nat list" where
  "row_packets seqs masks nb r = filter (\<lambda>i. mask_bit masks nb r (seq_offset seqs i)) [0..<length seqs]"

definition media_ok :: "u32 \<Rightarrow> u16 \<Rightarrow> u8 list \<Rightarrow> bool" where
  "media_ok ssrc s p \<longleftrightarrow> kRtpHeaderSize \<le> length p \<and> length p \<le> IP_PACKET_SIZE - 20 \<and> bit (p ! 0) 7 \<and> \<not> bit (p ! 0) 6 \<and>
     ParseSequenceNumber p = Some s \<and> ParseSsrc p = Some ssrc"

lemma contrib_low: "k < 8 \<Longrightarrow> contrib off p k = contrib off' p k"
  by (simp add: contrib_def)

lemma contrib_high: "8 \<le> off \<Longrightarrow> contrib off p (off + j) = (if j < length p - kRtpHeaderSize then p ! (kRtpHeaderSize + j) else 0)"
  by (auto simp: contrib_def)

lemma row_packet_size:
  assumes "pkts \<noteq> []" "\<forall>p \<in> set pkts. kRtpHeaderSize \<le> length p \<and> length p \<le> IP_PACKET_SIZE - 20" "hs \<le> 32"
  shows "length (data_mem (fold (xor_into hs) pkts zero_packet)) = IP_PACKET_SIZE"
    "data_size (fold (xor_into hs) pkts zero_packet) \<le> IP_PACKET_SIZE" "hs \<le> data_size (fold (xor_into hs) pkts zero_packet)"
proof -
  let ?d = "fold (xor_into hs) pkts zero_packet"
  show "length (data_mem ?d) = IP_PACKET_SIZE" by (simp add: fold_xor_into(1) zero_packet_def)
  have ge: "hd pkts \<in> set pkts" using assms(1) by simp
  show "hs \<le> data_size ?d" using fold_xor_into(4) [OF ge, of hs zero_packet] by simp
  have "hs + (length p - kRtpHeaderSize) \<le> IP_PACKET_SIZE" if "p \<in> set pkts" for p
  proof -
    have "kRtpHeaderSize \<le> length p" "length p \<le> IP_PACKET_SIZE - 20" using assms(2) that by simp_all
    with assms(3) show ?thesis by (simp add: kRtpHeaderSize_def IP_PACKET_SIZE_def)
  qed
  then show "data_size ?d \<le> IP_PACKET_SIZE" using fold_xor_into(5) [of hs pkts zero_packet] by (auto simp: zero_packet_def)
qed

lemma row_parity:
  assumes d: "d = fold (xor_into hs) pkts zero_packet" and pkts: "pkts \<noteq> []" "\<forall>p \<in> set pkts. kRtpHeaderSize \<le> length p \<and> length p \<le> IP_PACKET_SIZE - 20"
    and hs: "kRtpHeaderSize \<le> hs" "hs \<le> 32" and r: "header_read hs ssrc base m d p p'"
  shows "parity_of pkts p'"
proof -
  obtain off ms data where p': "p' = p\<lparr>fec_header_size := hs, protected_ssrc := ssrc, seq_num_base := base, packet_mask_offset := off,
       packet_mask_size := ms, protection_length := data_size d - hs, fec_pkt := data\<rparr>" and data: "length data = data_size d"
     "data ! 0 AND 0x3f = data_mem d ! 0 AND 0x3f" "\<forall>k. 1 \<le> k \<and> k < 8 \<longrightarrow> data ! k = data_mem d ! k"
     "\<forall>k. hs \<le> k \<and> k < data_size d \<longrightarrow> data ! k = data_mem d ! k"
    using r unfolding header_read_def by blast
  have mem: "data_mem d ! k = xsum (\<lambda>p. contrib hs p k) pkts" if "k < IP_PACKET_SIZE" for k
    using that fold_xor_into(2) [of k zero_packet hs pkts] unfolding d by (simp add: zero_packet_def)
  have size: "data_size d \<le> IP_PACKET_SIZE" "hs \<le> data_size d" using row_packet_size [OF pkts hs(2)] d by simp_all
  have le: "length p - kRtpHeaderSize \<le> data_size d - hs" if "p \<in> set pkts" for p
    using fold_xor_into(4) [OF that, of hs zero_packet] unfolding d by simp
  have low: "data_mem d ! k = xsum (\<lambda>p. contrib kRtpHeaderSize p k) pkts" if "k < 8" for k
    using mem [of k] contrib_low [OF that, of hs _ kRtpHeaderSize] that by (simp add: IP_PACKET_SIZE_def)
  have "data ! 0 AND 0x3f = xsum (\<lambda>p. p ! 0) pkts AND 0x3f" using data(2) low [of 0] by (simp add: contrib_def)
  moreover have "data ! k = xsum (\<lambda>p. contrib kRtpHeaderSize p k) pkts" if "1 \<le> k \<and> k < 8" for k
    using data(3) low that by simp
  moreover have "data ! (hs + j) = xsum (\<lambda>p. contrib kRtpHeaderSize p (kRtpHeaderSize + j)) pkts" if "j < data_size d - hs" for j
  proof -
    have "8 \<le> hs" "8 \<le> kRtpHeaderSize" using hs(1) by (simp_all add: kRtpHeaderSize_def)
    then show ?thesis using data(4) mem [of "hs + j"] that size(1) by (simp add: contrib_high)
  qed
  ultimately show ?thesis unfolding parity_of_def p' Let_def using size hs(1) le data(1) by simp
qed

context fec_header_codec
begin

definition row_header_size :: "u8 list \<Rightarrow> nat \<Rightarrow> nat \<Rightarrow> nat" where
  "row_header_size masks nb r = the (FecHeaderSize writer (the (MinPacketMaskSize writer (drop (r * nb) masks) nb)))"

lemma row_header_size:
  assumes "nb \<in> {2, 6}" "Suc r * nb \<le> length masks"
  obtains ms where "MinPacketMaskSize writer (drop (r * nb) masks) nb = Some ms" "FecHeaderSize writer ms = Some (row_header_size masks nb r)"
    "kRtpHeaderSize \<le> row_header_size masks nb r" "row_header_size masks nb r \<le> 32"
proof -
  have "nb \<le> length (drop (r * nb) masks)" using assms(2) by simp
  then show thesis using header_size [OF assms(1)] that by (fastforce simp: row_header_size_def)
qed

definition row_packet :: "u16 list \<Rightarrow> u8 list list \<Rightarrow> u8 list \<Rightarrow> nat \<Rightarrow> nat \<Rightarrow> packet_data" where
  "row_packet seqs ps masks nb r = fold (xor_into (row_header_size masks nb r)) (map ((!) ps) (row_packets seqs masks nb r)) zero_packet"

lemma GenerateFecPayloads_spec:
  assumes fec: "header_writer fec = writer" "packet_masks fec = masks" "current_mask_size fec = nb"
      "generated_fec_packets fec = replicate f zero_packet @ gs"
    and nb: "nb \<in> {2, 6}" "f * nb \<le> length masks"
    and seqs: "map ParseSequenceNumber ps = map Some seqs" "media_seqs seqs" "\<forall>i < length seqs. seq_offset seqs i < 8 * nb"
    and ps: "\<forall>p \<in> set ps. kRtpHeaderSize \<le> length p \<and> length p \<le> IP_PACKET_SIZE - 20"
    and rows: "\<forall>r < f. row_packets seqs masks nb r \<noteq> []"
  shows "GenerateFecPayloads fill ps f fec = Some (fec\<lparr>generated_fec_packets := map (row_packet seqs ps masks nb) [0..<f] @ gs\<rparr>)"
proof -
  have l: "length seqs = length ps" using seqs(1) by (metis length_map)
  have ne: "ps \<noteq> []" using seqs(2) l by (auto simp: media_seqs_def)
  have "each_row f (\<lambda>i fec. do {
       dcheck (i < length (generated_fec_packets fec));
       let fec_packet = generated_fec_packets fec ! i;
       let pkt_mask_idx = i * current_mask_size fec;
       min_packet_mask_size \<leftarrow> MinPacketMaskSize (header_writer fec) (drop pkt_mask_idx (packet_masks fec)) (current_mask_size fec);
       header_size \<leftarrow> FecHeaderSize (header_writer fec) min_packet_mask_size;
       prev_seq_num \<leftarrow> ParseSequenceNumber (hd ps);
       fec_packet \<leftarrow> media_loop fill (packet_masks fec) header_size ps pkt_mask_idx 0 prev_seq_num fec_packet;
       dcheck (data_size fec_packet > 0);
       Some (fec\<lparr>generated_fec_packets := (generated_fec_packets fec)[i := fec_packet]\<rparr>)
     }) fec = Some (fec\<lparr>generated_fec_packets := map (row_packet seqs ps masks nb) [0..<f] @ drop f (generated_fec_packets fec)\<rparr>)"
  proof (rule each_generated)
    show "f \<le> length (generated_fec_packets fec)" using fec(4) by simp
    fix r xs assume r: "r < f" "r < length xs" "xs ! r = generated_fec_packets fec ! r"
    let ?hs = "row_header_size masks nb r" and ?pkts = "map ((!) ps) (row_packets seqs masks nb r)"
    let ?d = "row_packet seqs ps masks nb r"
    have row: "Suc r * nb \<le> length masks" using r(1) nb(2) mult_le_mono1 [of "Suc r" f nb] by simp
    obtain ms where ms: "MinPacketMaskSize writer (drop (r * nb) masks) nb = Some ms" "FecHeaderSize writer ms = Some ?hs"
      "kRtpHeaderSize \<le> ?hs" "?hs \<le> 32" using row_header_size [OF nb(1) row] by blast
    have z: "xs ! r = zero_packet" using r fec(4) by (simp add: nth_append)
    have hd: "ParseSequenceNumber (hd ps) = Some (seqs ! 0)" using seqs(1) ne l by (cases ps; cases seqs) auto
    have len: "kRtpHeaderSize \<le> length p" "length p \<le> IP_PACKET_SIZE - 20" if "p \<in> set ps" for p using ps that by simp_all
    have fits: "fits_fec ?hs zero_packet p" if "p \<in> set ps" for p
      using len [OF that] ms(4) by (simp add: fits_fec_def zero_packet_def IP_PACKET_SIZE_def kRtpHeaderSize_def)
    have "media_loop fill masks ?hs (drop 0 ps) (r * nb + seq_offset seqs 0 div 8) (seq_offset seqs 0 mod 8) (seqs ! 0) zero_packet =
        Some (fold (xor_into ?hs) (map ((!) ps) (filter (\<lambda>j. mask_bit masks nb r (seq_offset seqs j)) [0..<length ps])) zero_packet)"
    proof (rule media_loop_spec [OF seqs(1,2)])
      show "\<forall>i < length ps. r * nb + seq_offset seqs i div 8 < length masks"
        using seqs(3) l row by (auto simp: less_mult_imp_div_less mult.commute intro: less_le_trans [of _ "r * nb + nb"])
    qed (use fits ms(3) ne in \<open>auto simp: kRtpHeaderSize_def zero_packet_def IP_PACKET_SIZE_def\<close>)
    then have loop: "media_loop fill masks ?hs ps (r * nb) 0 (seqs ! 0) zero_packet = Some ?d"
      using seqs(2) by (simp add: row_packet_def row_packets_def l media_seqs_def)
    have "set ?pkts \<subseteq> set ps" using l by (auto simp: row_packets_def)
    then have "?hs \<le> data_size ?d" unfolding row_packet_def using rows r(1) ps ms(4) by (intro row_packet_size(3)) auto
    then have "0 < data_size ?d" using ms(3) by (simp add: kRtpHeaderSize_def)
    with z loop ms hd r(2) fec
    show "do {
       dcheck (r < length (generated_fec_packets (fec\<lparr>generated_fec_packets := xs\<rparr>)));
       let fec_packet = generated_fec_packets (fec\<lparr>generated_fec_packets := xs\<rparr>) ! r;
       let pkt_mask_idx = r * current_mask_size (fec\<lparr>generated_fec_packets := xs\<rparr>);
       min_packet_mask_size \<leftarrow> MinPacketMaskSize (header_writer (fec\<lparr>generated_fec_packets := xs\<rparr>))
         (drop pkt_mask_idx (packet_masks (fec\<lparr>generated_fec_packets := xs\<rparr>))) (current_mask_size (fec\<lparr>generated_fec_packets := xs\<rparr>));
       header_size \<leftarrow> FecHeaderSize (header_writer (fec\<lparr>generated_fec_packets := xs\<rparr>)) min_packet_mask_size;
       prev_seq_num \<leftarrow> ParseSequenceNumber (hd ps);
       fec_packet \<leftarrow> media_loop fill (packet_masks (fec\<lparr>generated_fec_packets := xs\<rparr>)) header_size ps pkt_mask_idx 0 prev_seq_num fec_packet;
       dcheck (data_size fec_packet > 0);
       Some (fec\<lparr>generated_fec_packets := xs, generated_fec_packets := (generated_fec_packets (fec\<lparr>generated_fec_packets := xs\<rparr>))[r := fec_packet]\<rparr>)
     } = Some (fec\<lparr>generated_fec_packets := xs[r := ?d]\<rparr>)" by (simp add: Let_def)
  qed
  then show ?thesis using ne fec(4) by (simp add: GenerateFecPayloads_def)
qed

lemma FinalizeFecHeaders_spec:
  assumes fec: "header_writer fec = writer" "packet_masks fec = masks" "current_mask_size fec = nb"
      "generated_fec_packets fec = map (row_packet seqs ps masks nb) [0..<f] @ gs"
    and nb: "nb \<in> {2, 6}" "f * nb \<le> length masks"
    and ps: "length seqs = length ps" "\<forall>p \<in> set ps. kRtpHeaderSize \<le> length p \<and> length p \<le> IP_PACKET_SIZE - 20"
    and rows: "\<forall>r < f. row_packets seqs masks nb r \<noteq> []"
  shows "\<exists>fin. FinalizeFecHeaders f ssrc base fec = Some (fec\<lparr>generated_fec_packets := map fin [0..<f] @ gs\<rparr>) \<and>
    (\<forall>r < f. data_size (fin r) \<le> IP_PACKET_SIZE \<and> length (data_mem (fin r)) = IP_PACKET_SIZE \<and>
      (\<forall>p. fec_pkt p = packet_bytes (fin r) \<longrightarrow> (\<exists>p'. ReadFecHeader reader p = Some (True, p') \<and>
        header_read (row_header_size masks nb r) (owner ssrc (fec_ssrc p)) base (take nb (drop (r * nb) masks))
          (row_packet seqs ps masks nb r) p p')))"
proof -
  let ?F = "\<lambda>r. FinalizeFecHeader writer ssrc base (drop (r * nb) masks) nb (row_packet seqs ps masks nb r)"
  let ?R = "\<lambda>r d. data_size d \<le> IP_PACKET_SIZE \<and> length (data_mem d) = IP_PACKET_SIZE \<and>
      (\<forall>p. fec_pkt p = packet_bytes d \<longrightarrow> (\<exists>p'. ReadFecHeader reader p = Some (True, p') \<and>
        header_read (row_header_size masks nb r) (owner ssrc (fec_ssrc p)) base (take nb (drop (r * nb) masks))
          (row_packet seqs ps masks nb r) p p'))"
  have fin: "\<exists>d. ?F r = Some d \<and> ?R r d" if r: "r < f" for r
  proof -
    let ?hs = "row_header_size masks nb r" and ?pkts = "map ((!) ps) (row_packets seqs masks nb r)"
    have row: "Suc r * nb \<le> length masks" using r nb(2) mult_le_mono1 [of "Suc r" f nb] by simp
    obtain ms where ms: "MinPacketMaskSize writer (drop (r * nb) masks) nb = Some ms" "FecHeaderSize writer ms = Some ?hs"
      "kRtpHeaderSize \<le> ?hs" "?hs \<le> 32" using row_header_size [OF nb(1) row] by blast
    have "?pkts \<noteq> []" "\<forall>p \<in> set ?pkts. kRtpHeaderSize \<le> length p \<and> length p \<le> IP_PACKET_SIZE - 20"
      using rows r ps by (auto simp: row_packets_def)
    note size = row_packet_size [OF this ms(4), folded row_packet_def]
    have nbl: "nb \<le> length (drop (r * nb) masks)" using row by simp
    have small: "data_size (row_packet seqs ps masks nb r) - ?hs < 65536" using size(2) by (simp add: IP_PACKET_SIZE_def)
    have cap: "data_size (row_packet seqs ps masks nb r) \<le> length (data_mem (row_packet seqs ps masks nb r))" using size(1,2) by simp
    obtain d where d: "?F r = Some d" "data_size d = data_size (row_packet seqs ps masks nb r)"
        "length (data_mem d) = length (data_mem (row_packet seqs ps masks nb r))"
        "\<forall>p. fec_pkt p = packet_bytes d \<longrightarrow> (\<exists>p'. ReadFecHeader reader p = Some (True, p') \<and>
          header_read ?hs (owner ssrc (fec_ssrc p)) base (take nb (drop (r * nb) masks)) (row_packet seqs ps masks nb r) p p')"
      using finalize [OF nb(1) nbl ms(1,2) size(3) cap small, of ssrc base] by blast
    then show ?thesis using size by auto
  qed
  define fin where "fin r = the (?F r)" for r
  have f: "?F r = Some (fin r)" "?R r (fin r)" if "r < f" for r using fin [OF that] by (auto simp: fin_def)
  have "FinalizeFecHeaders f ssrc base fec = Some (fec\<lparr>generated_fec_packets := map fin [0..<f] @ drop f (generated_fec_packets fec)\<rparr>)"
    unfolding FinalizeFecHeaders_def
  proof (rule each_generated)
    show "f \<le> length (generated_fec_packets fec)" using fec(4) by simp
    fix r xs assume r: "r < f" "r < length xs" "xs ! r = generated_fec_packets fec ! r"
    then have "xs ! r = row_packet seqs ps masks nb r" using fec(4) by (simp add: nth_append)
    with r f(1) [OF r(1)] fec show "do {
       dcheck (r < length (generated_fec_packets (fec\<lparr>generated_fec_packets := xs\<rparr>)));
       fec_packet \<leftarrow> FinalizeFecHeader (header_writer (fec\<lparr>generated_fec_packets := xs\<rparr>)) ssrc base
         (drop (r * current_mask_size (fec\<lparr>generated_fec_packets := xs\<rparr>)) (packet_masks (fec\<lparr>generated_fec_packets := xs\<rparr>)))
         (current_mask_size (fec\<lparr>generated_fec_packets := xs\<rparr>)) (generated_fec_packets (fec\<lparr>generated_fec_packets := xs\<rparr>) ! r);
       Some (fec\<lparr>generated_fec_packets := xs, generated_fec_packets := (generated_fec_packets (fec\<lparr>generated_fec_packets := xs\<rparr>))[r := fec_packet]\<rparr>)
     } = Some (fec\<lparr>generated_fec_packets := xs[r := fin r]\<rparr>)" by simp
  qed
  then show ?thesis using f(2) fec(4) by (intro exI [of _ fin]) simp
qed

lemma row_carried:
  assumes nb: "nb \<in> {2, 6}" "Suc r * nb \<le> length masks"
    and seqs: "media_seqs seqs" "length seqs = length ps" "\<forall>i < length seqs. seq_offset seqs i < 8 * nb"
    and ps: "\<forall>p \<in> set ps. kRtpHeaderSize \<le> length p \<and> length p \<le> IP_PACKET_SIZE - 20"
    and row: "row_packets seqs masks nb r \<noteq> []" "\<forall>c < 8 * nb. mask_bit masks nb r c \<longrightarrow> (\<exists>i < length seqs. c = seq_offset seqs i)"
    and read: "\<forall>p. fec_pkt p = data \<longrightarrow> (\<exists>p'. ReadFecHeader reader p = Some (True, p') \<and>
        header_read (row_header_size masks nb r) (owner ssrc (fec_ssrc p)) (hd seqs) (take nb (drop (r * nb) masks))
          (row_packet seqs ps masks nb r) p p')"
  shows "fec_carries reader fec_source (owner ssrc fec_source) (map (\<lambda>i. (seqs ! i, ps ! i)) (row_packets seqs masks nb r)) data"
  unfolding fec_carries_def
proof (intro allI impI)
  fix f :: received_fec_packet assume f: "fec_pkt f = data \<and> fec_ssrc f = fec_source"
  let ?src = "owner ssrc fec_source" and ?m = "take nb (drop (r * nb) masks)"
  let ?hs = "row_header_size masks nb r" and ?d = "row_packet seqs ps masks nb r"
  obtain f' where f': "ReadFecHeader reader f = Some (True, f')" "header_read ?hs ?src (hd seqs) ?m ?d f f'"
    using read f by blast
  have lm: "length ?m = nb" using nb(2) by simp
  obtain off ms dat where d: "f' = f\<lparr>fec_header_size := ?hs, protected_ssrc := ?src, seq_num_base := hd seqs, packet_mask_offset := off,
       packet_mask_size := ms, protection_length := data_size ?d - ?hs, fec_pkt := dat\<rparr>"
      "slice dat off ms = Some (?m @ replicate (ms - nb) 0)" "nb \<le> ms"
    using f'(2) unfolding header_read_def lm by blast
  let ?b = "?m @ replicate (ms - nb) 0"
  obtain mm where ms: "kRtpHeaderSize \<le> ?hs" "?hs \<le> 32" using row_header_size [OF nb] by blast
  have "parity_of (map ((!) ps) (row_packets seqs masks nb r)) f'"
    using row ps seqs(2) ms f'(2) by (intro row_parity [of ?d ?hs]) (auto simp: row_packet_def row_packets_def)
  then have par: "parity_of (map snd (map (\<lambda>i. (seqs ! i, ps ! i)) (row_packets seqs masks nb r))) f'" by (simp add: o_def)
  have bits: "mask_bit ?b 0 0 c \<longleftrightarrow> c < 8 * nb \<and> mask_bit masks nb r c" if "c < 8 * ms" for c
  proof (cases "c < 8 * nb")
    case True
    then have "c div 8 < nb" by auto
    then show ?thesis using True nb(2) lm by (simp add: mask_bit_def nth_append)
  next
    case False
    then have "nb \<le> c div 8" "c div 8 < ms" using that by auto
    then show ?thesis using False lm by (simp add: mask_bit_def nth_append)
  qed
  have cols: "filter (mask_bit ?b 0 0) [0..<8 * length ?b] = map (seq_offset seqs) (row_packets seqs masks nb r)"
    unfolding row_packets_def
  proof (rule mask_columns [OF seqs(1)])
    show "\<forall>i < length seqs. seq_offset seqs i < 8 * ms" using seqs(3) d(3) by fastforce
    fix c assume "c < 8 * ms"
    then show "mask_bit ?b 0 0 c \<longleftrightarrow> (\<exists>i < length seqs. c = seq_offset seqs i \<and> mask_bit masks nb r (seq_offset seqs i))"
      using bits [of c] row(2) seqs(3) by auto
  qed (use lm d(3) in simp)
  have "mask_packets ?src (hd seqs) ?b = map (\<lambda>i. \<lparr>prot_ssrc = ?src, prot_seq_num = seqs ! i, prot_pkt = None\<rparr>) (row_packets seqs masks nb r)"
    unfolding mask_packets_eq cols by (simp add: seq_offset_back [OF seqs(1)])
  with f'(1) d par show "\<exists>f' bytes. ReadFecHeader reader f = Some (True, f') \<and> fec_ssrc f' = fec_ssrc f \<and> fec_seq_num f' = fec_seq_num f \<and>
       protected_ssrc f' = ?src \<and> slice (fec_pkt f') (packet_mask_offset f') (packet_mask_size f') = Some bytes \<and>
       mask_packets ?src (seq_num_base f') bytes =
         map (\<lambda>(s, p). \<lparr>prot_ssrc = ?src, prot_seq_num = s, prot_pkt = None\<rparr>) (map (\<lambda>i. (seqs ! i, ps ! i)) (row_packets seqs masks nb r)) \<and>
       parity_of (map snd (map (\<lambda>i. (seqs ! i, ps ! i)) (row_packets seqs masks nb r))) f'"
    by (intro exI [of _ f'] exI [of _ ?b]) (simp add: o_def)
qed

lemma EncodeFec_spec:
  assumes fec: "encoder_inv fec" "header_writer fec = writer" "writer_MaxMediaPackets writer = kMaxMediaPackets"
    and seqs: "map ParseSequenceNumber ps = map Some seqs" "media_seqs seqs" "seq_offset seqs (length seqs - 1) < kMaxMediaPackets"
    and ps: "\<forall>p \<in> set ps. kRtpHeaderSize \<le> length p \<and> length p \<le> IP_PACKET_SIZE - 20" "ParseSsrc (hd ps) = Some ssrc"
    and f: "NumFecPackets (length ps) (unat pf) = Some f" "0 < f" "imp \<le> length ps"
  shows "\<exists>rows out fec'. EncodeFec fill ps pf imp uep mask_type fec = Some (0, out, fec') \<and> encoder_inv fec' \<and>
    header_writer fec' = writer \<and> length rows = f \<and> length out = f \<and>
    (\<forall>r < f. rows ! r \<noteq> [] \<and> sorted_wrt (<) (rows ! r) \<and> set (rows ! r) \<subseteq> {..<length ps}) \<and> (\<forall>i < length ps. \<exists>r < f. i \<in> set (rows ! r)) \<and>
    (\<forall>r < f. \<forall>fec_source. fec_carries reader fec_source (owner ssrc fec_source) (map (\<lambda>i. (seqs ! i, ps ! i)) (rows ! r)) (packet_bytes (out ! r)))"
proof -
  let ?n = "length ps" and ?o = "seq_offset seqs (length seqs - 1)"
  let ?ob = "mask_bytes ?n" and ?nb = "mask_bytes (Suc ?o)"
  have l: "length seqs = ?n" using seqs(1) by (metis length_map)
  have ne: "ps \<noteq> []" "0 < ?n" using seqs(2) l by (auto simp: media_seqs_def)
  have n48: "?n \<le> 48" "Suc ?o \<le> 48" using seq_offset_ge [OF seqs(2), of "?n - 1"] l ne seqs(3) by (simp_all add: kMaxMediaPackets_def)
  have fn: "f \<le> ?n" using f(1) by (auto simp: NumFecPackets_def Let_def bind_eq_Some_conv split: if_splits)
  have b: "f * ?ob \<le> 288" "f * ?nb \<le> 288" using fn n48 mult_le_mono [of f 48 ?ob 6] mult_le_mono [of f 48 ?nb 6]
    by (auto simp: mask_bytes_def)
  let ?fec1 = "fec\<lparr>generated_fec_packets := replicate f zero_packet @ drop f (generated_fec_packets fec)\<rparr>"
  have prep: "prepare_packets fill f fec = Some ?fec1"
    using fec(1) fn n48 by (intro prepare_packets_spec) (simp_all add: kMaxFecPackets_def kMaxMediaPackets_def)
  obtain table where table: "PickTable mask_type ?n = Some table" "table \<in> {kPacketMaskRandomTbl, kPacketMaskBurstyTbl}"
    using n48 by (auto simp: PickTable_def kUlpfecMaxMediaPackets_def)
  have len: "length (packet_masks fec) = 288" "length (tmp_packet_masks fec) = 288" using fec(1) by (simp_all add: encoder_inv_def)
  let ?m0 = "overwrite (packet_masks fec) 0 (replicate (f * ?ob) 0)"
  have m0: "copy_to (packet_masks fec) 0 (replicate (f * ?ob) 0) = Some ?m0" using len b by (intro copy_to_overwrite) simp
  have "\<forall>j < f * ?ob. ?m0 ! j = 0" using len b by (auto simp: nth_overwrite)
  then obtain m1 where m1: "GeneratePacketMasks ?n f imp uep table ?m0 = Some m1" "length m1 = 288" "mask_ok ?n f ?ob m1"
    using GeneratePacketMasks_ok [OF table(2) f(2) fn n48(1) f(3), of ?m0 uep] len b by auto
  have "\<forall>r < f. \<forall>c < 8 * ?ob. mask_bit m1 ?ob r c \<longrightarrow> c < ?n" using m1(3) by (simp add: mask_ok_def)
  then obtain m2 tmp where m2: "InsertZerosInPacketMasks 48 ps f ?ob m1 (tmp_packet_masks fec) = Some (Some (Suc ?o), m2, tmp)"
      "length m2 = 288" "length tmp = 288" "spread_ok f seqs ?ob (Suc ?o) m1 m2"
    using InsertZerosInPacketMasks_spec [OF seqs(1,2) n48(1) fn _ m1(2) len(2)] n48(2) by auto
  have nb: "?nb \<in> {2, 6}" by (simp add: mask_bytes_def)
  have off: "seq_offset seqs i < 8 * ?nb" if "i < length seqs" for i
    using seq_offset_le_last [OF seqs(2) that] mask_bytes_fits [OF n48(2)] by simp
  have sel: "mask_bit m2 ?nb r (seq_offset seqs i) \<longleftrightarrow> mask_bit m1 ?ob r i" if "r < f" "i < length seqs" for r i
    using m2(4) that off [OF that(2)] seq_offset_inj [OF seqs(2)] unfolding spread_ok_def by (metis (no_types, lifting))
  have rows: "row_packets seqs m2 ?nb r = filter (mask_bit m1 ?ob r) [0..<?n]" if "r < f" for r
    unfolding row_packets_def l using sel [OF that] l by (intro filter_cong) auto
  have ne_row: "\<forall>r < f. row_packets seqs m2 ?nb r \<noteq> []"
    using m1(3) rows by (fastforce simp: mask_ok_def filter_empty_conv)
  let ?gs = "drop f (generated_fec_packets fec)"
  let ?fec2 = "fec\<lparr>generated_fec_packets := replicate f zero_packet @ ?gs, packet_masks := m2, tmp_packet_masks := tmp, current_mask_size := ?nb\<rparr>"
  let ?fec3 = "?fec2\<lparr>generated_fec_packets := map (row_packet seqs ps m2 ?nb) [0..<f] @ ?gs\<rparr>"
  have gen: "GenerateFecPayloads fill ps f ?fec2 = Some ?fec3"
    using fec(2) nb b m2(2) seqs off ps(1) ne_row by (intro GenerateFecPayloads_spec) auto
  obtain fin where fin: "FinalizeFecHeaders f ssrc (hd seqs) ?fec3 = Some (?fec3\<lparr>generated_fec_packets := map fin [0..<f] @ ?gs\<rparr>)"
    "\<forall>r < f. data_size (fin r) \<le> IP_PACKET_SIZE \<and> length (data_mem (fin r)) = IP_PACKET_SIZE \<and>
      (\<forall>p. fec_pkt p = packet_bytes (fin r) \<longrightarrow> (\<exists>p'. ReadFecHeader reader p = Some (True, p') \<and>
        header_read (row_header_size m2 ?nb r) (owner ssrc (fec_ssrc p)) (hd seqs) (take ?nb (drop (r * ?nb) m2))
          (row_packet seqs ps m2 ?nb r) p p'))"
    using FinalizeFecHeaders_spec [of ?fec3 m2 ?nb seqs ps f ?gs ssrc "hd seqs"] fec(2) nb b m2(2) l ps(1) ne_row by auto
  let ?fec4 = "?fec3\<lparr>generated_fec_packets := map fin [0..<f] @ ?gs\<rparr>"
  have hd: "ParseSequenceNumber (hd ps) = Some (hd seqs)" using seqs(1) ne by (cases ps; cases seqs) auto
  have short: "\<not> list_ex (\<lambda>p. length p < kRtpHeaderSize) ps" using ps(1) by (auto simp: list_ex_iff)
  have sizes: "PacketMaskSize ?n = Some ?ob" "PacketMaskSize (Suc ?o) = Some ?nb" using n48 by (simp_all add: PacketMaskSize_eq)
  have "EncodeFec fill ps pf imp uep mask_type fec = Some (0, map fin [0..<f], ?fec4)"
    unfolding EncodeFec_def Let_def
    using ne n48 f fec(2,3) short prep table(1) sizes m0 m1(1) m2(1) gen hd ps(2) fin(1)
    by (simp add: kMaxMediaPackets_def)
  moreover have "encoder_inv ?fec4"
  proof -
    have "d \<in> set ?gs \<Longrightarrow> data_size d \<le> length (data_mem d) \<and> length (data_mem d) \<le> IP_PACKET_SIZE" for d
      using fec(1) by (auto simp: encoder_inv_def dest: in_set_dropD)
    then show ?thesis using fin(2) m2(2,3) fec(1) by (auto simp: encoder_inv_def)
  qed
  moreover have "fec_carries reader fec_source (owner ssrc fec_source) (map (\<lambda>i. (seqs ! i, ps ! i)) (row_packets seqs m2 ?nb r)) (packet_bytes (fin r))"
    if r: "r < f" for r fec_source
  proof (rule row_carried [OF nb])
    show "Suc r * ?nb \<le> length m2" using r b(2) m2(2) mult_le_mono1 [of "Suc r" f ?nb] by simp
    show "\<forall>c < 8 * ?nb. mask_bit m2 ?nb r c \<longrightarrow> (\<exists>i < length seqs. c = seq_offset seqs i)"
      using m2(4) r unfolding spread_ok_def by blast
  qed (use seqs(2) l off ps(1) ne_row r fin(2) in auto)
  moreover have "\<exists>r < f. i \<in> set (map (row_packets seqs m2 ?nb) [0..<f] ! r)" if i: "i < ?n" for i
  proof -
    obtain r where "r < f" "mask_bit m1 ?ob r i" using m1(3) i unfolding mask_ok_def by blast
    with rows [of r] i show ?thesis by (intro exI [of _ r]) simp
  qed
  moreover have "set (row_packets seqs m2 ?nb r) \<subseteq> {..<?n}" "sorted_wrt (<) (row_packets seqs m2 ?nb r)" for r
    by (auto simp: row_packets_def l intro: sorted_wrt_filter)
  ultimately show ?thesis using ne_row fec(2)
    by (intro exI [of _ "map (row_packets seqs m2 ?nb) [0..<f]"] exI [of _ "map fin [0..<f]"] exI [of _ ?fec4]) auto
qed

end
end
