(* ===== verification/Fec_Recovery.thy ===== *)
theory Fec_Recovery
  imports Fec_Encode_Spec
begin

text \<open>
  Recovery of one packet.  When the FEC packet is the parity of the packets it protects and exactly one of
  them is missing, \<^verbatim>\<open>RecoverPacket\<close> returns this packet, byte for byte; whatever the FEC packet holds, it
  does not fault.
\<close>

subsection \<open>Recovering one packet\<close>

definition present :: "protected_packet list \<Rightarrow> u8 list list" where
  "present ps = List.map_filter prot_pkt ps"

fun missing_seq :: "protected_packet list \<Rightarrow> u16 option \<Rightarrow> u16 option" where
  "missing_seq [] s = s"
| "missing_seq (p # ps) s = missing_seq ps (if prot_pkt p = None then Some (prot_seq_num p) else s)"

lemma present_simps [simp]:
  "present [] = []" "present (p # ps) = (case prot_pkt p of None \<Rightarrow> present ps | Some q \<Rightarrow> q # present ps)"
  "present (ps @ ps') = present ps @ present ps'"
  by (simp_all add: present_def map_filter_def split: option.split)

lemma recover_loop_spec:
  assumes "\<forall>p \<in> set ps. \<forall>q. prot_pkt p = Some q \<longrightarrow> kRtpHeaderSize \<le> length q \<and> length q \<le> IP_PACKET_SIZE"
    "length (data_mem d) = IP_PACKET_SIZE"
  shows "recover_loop fill ps s d = Some (missing_seq ps s, fold (xor_into kRtpHeaderSize) (present ps) d)"
  using assms
proof (induction ps arbitrary: s d)
  case (Cons p ps)
  show ?case
  proof (cases "prot_pkt p")
    case None
    with Cons show ?thesis by simp
  next
    case (Some q)
    then have q: "kRtpHeaderSize \<le> length q" "length q \<le> IP_PACKET_SIZE" using Cons.prems(1) by auto
    then have "do { d \<leftarrow> XorHeaders q d; XorPayloads fill q (size_sub (length q) kRtpHeaderSize) kRtpHeaderSize d } =
        Some (xor_into kRtpHeaderSize q d)"
      using Cons.prems(2) by (intro xor_packet) (simp_all add: kRtpHeaderSize_def IP_PACKET_SIZE_def)
    then have "recover_loop fill (p # ps) s d = recover_loop fill ps s (xor_into kRtpHeaderSize q d)"
      using Some by (auto simp: bind_eq_Some_conv)
    also have "\<dots> = Some (missing_seq ps s, fold (xor_into kRtpHeaderSize) (present ps) (xor_into kRtpHeaderSize q d))"
      using Cons.prems by (intro Cons.IH) auto
    finally show ?thesis using Some by simp
  qed
qed simp

lemma StartPacketRecovery_spec:
  assumes "fec_header_size f + protection_length f \<le> length (fec_pkt f)" "kRtpHeaderSize \<le> length (fec_pkt f)"
    "protection_length f \<le> IP_PACKET_SIZE - kRtpHeaderSize" "protection_length f + fec_header_size f \<le> IP_PACKET_SIZE"
  obtains d where "StartPacketRecovery fill f = Some (Some d)" "length (data_mem d) = IP_PACKET_SIZE"
    "data_size d = protection_length f + kRtpHeaderSize"
    "\<And>k. k < kRtpHeaderSize \<Longrightarrow> data_mem d ! k = fec_pkt f ! k"
    "\<And>j. j < protection_length f \<Longrightarrow> data_mem d ! (kRtpHeaderSize + j) = fec_pkt f ! (fec_header_size f + j)"
proof -
  let ?data = "fec_pkt f" and ?n = "protection_length f" and ?hs = "fec_header_size f"
  define d0 where "d0 = SetSize fill (?n + kRtpHeaderSize) (EnsureCapacity fill IP_PACKET_SIZE \<lparr>data_mem = [], data_size = 0\<rparr>)"
  have d0: "length (data_mem d0) = IP_PACKET_SIZE" "data_size d0 = ?n + kRtpHeaderSize"
    using assms(3) by (auto simp: d0_def SetSize_def EnsureCapacity_def IP_PACKET_SIZE_def kRtpHeaderSize_def)
  define m1 where "m1 = overwrite (data_mem d0) 0 (take kRtpHeaderSize ?data)"
  define m2 where "m2 = overwrite m1 kRtpHeaderSize (take ?n (drop ?hs ?data))"
  have l: "length (take kRtpHeaderSize ?data) = kRtpHeaderSize" "length (take ?n (drop ?hs ?data)) = ?n" using assms by simp_all
  have fits: "kRtpHeaderSize + ?n \<le> IP_PACKET_SIZE" using assms(3) by (simp add: IP_PACKET_SIZE_def kRtpHeaderSize_def)
  have m1: "length m1 = IP_PACKET_SIZE" using d0(1) l(1) fits by (simp add: m1_def)
  have m2: "length m2 = IP_PACKET_SIZE" using m1 l(2) fits by (simp add: m2_def)
  have "copy_to (data_mem d0) 0 (take kRtpHeaderSize ?data) = Some m1"
    unfolding m1_def using d0 l fits by (intro copy_to_overwrite) simp
  moreover have "(if ?n > 0 then do { bytes \<leftarrow> slice ?data ?hs ?n; copy_to m1 kRtpHeaderSize bytes } else Some m1) = Some m2"
  proof (cases "?n > 0")
    case True
    have "copy_to m1 kRtpHeaderSize (take ?n (drop ?hs ?data)) = Some m2"
      unfolding m2_def using m1 l fits by (intro copy_to_overwrite) simp
    then show ?thesis using True assms(1) by (simp add: slice_def)
  qed (simp add: m2_def overwrite_def)
  moreover have "slice ?data 0 kRtpHeaderSize = Some (take kRtpHeaderSize ?data)" using assms(2) by (simp add: slice_def)
  moreover have "\<not> ?n > min (IP_PACKET_SIZE - kRtpHeaderSize) (size_sub IP_PACKET_SIZE ?hs)" using assms(3,4) by simp
  moreover have "(?hs + ?n) mod 2 ^ 64 = ?hs + ?n" using assms(4) by (simp add: IP_PACKET_SIZE_def)
  ultimately have "StartPacketRecovery fill f = Some (Some (d0\<lparr>data_mem := m2\<rparr>))"
    unfolding StartPacketRecovery_def Let_def d0_def [symmetric] using assms(1) by simp
  moreover have "m2 ! k = ?data ! k" if "k < kRtpHeaderSize" for k
    using that m1 l fits assms(2) d0(1) unfolding m2_def m1_def by (simp add: nth_overwrite)
  moreover have "m2 ! (kRtpHeaderSize + j) = ?data ! (?hs + j)" if "j < ?n" for j
    using that m1 l fits assms(1) unfolding m2_def by (simp add: nth_overwrite)
  ultimately show thesis using that m2 d0(2) by simp
qed


lemma StartPacketRecovery_cases:
  assumes "kRtpHeaderSize \<le> length (fec_pkt f)" "fec_header_size f \<le> IP_PACKET_SIZE" "protection_length f \<le> 65535 \<or> protection_length f \<le> length (fec_pkt f)"
    "length (fec_pkt f) < 2 ^ 32"
  shows "StartPacketRecovery fill f = Some None \<or>
    fec_header_size f + protection_length f \<le> length (fec_pkt f) \<and> protection_length f \<le> IP_PACKET_SIZE - kRtpHeaderSize \<and>
    protection_length f + fec_header_size f \<le> IP_PACKET_SIZE"
proof -
  have "fec_header_size f + protection_length f < 2 ^ 64" using assms(2-4) by (auto simp: IP_PACKET_SIZE_def)
  then have "(fec_header_size f + protection_length f) mod 2 ^ 64 = fec_header_size f + protection_length f" by simp
  then show ?thesis using assms(2) by (auto simp: StartPacketRecovery_def Let_def)
qed

lemma FinishPacketRecovery_spec:
  assumes "length (data_mem d) = IP_PACKET_SIZE"
  defines "n \<equiv> unat (be_val [data_mem d ! 2, data_mem d ! 3] :: u16) + kRtpHeaderSize"
  shows "n > IP_PACKET_SIZE - kRtpHeaderSize \<Longrightarrow> FinishPacketRecovery fill f s d = Some None"
    and "n \<le> IP_PACKET_SIZE - kRtpHeaderSize \<Longrightarrow> \<exists>d'. FinishPacketRecovery fill f s d = Some (Some d') \<and>
      packet_bytes d' = take n (overwrite (overwrite ((data_mem d)[0 := (data_mem d ! 0 OR 0x80) AND 0xbf]) 2 (be_bytes 2 s)) 8
        (be_bytes 4 (protected_ssrc f)))"
proof -
  let ?m = "data_mem d"
  let ?z = "?m[0 := (?m ! 0 OR 0x80) AND 0xbf]"
  have l: "length ?z = IP_PACKET_SIZE" "1500 \<le> length ?m" "0 < length ?m" using assms(1) by (simp_all add: IP_PACKET_SIZE_def)
  have len: "ReadBE16 ?z 2 = Some (be_val [?m ! 2, ?m ! 3])"
    using l(2) by (simp add: ReadBE16_def load_def be_val_def)
  have b0: "load ?m 0 = Some (?m ! 0)" "store ?m 0 (?m ! 0 OR 0x80) = Some (?m[0 := ?m ! 0 OR 0x80])"
    "load (?m[0 := ?m ! 0 OR 0x80]) 0 = Some (?m ! 0 OR 0x80)"
    "store (?m[0 := ?m ! 0 OR 0x80]) 0 ((?m ! 0 OR 0x80) AND 0xbf) = Some ?z"
    by (simp_all only: load_def store_def length_list_update nth_list_update_eq list_update_overwrite l(3) if_True)
  show "n > IP_PACKET_SIZE - kRtpHeaderSize \<Longrightarrow> FinishPacketRecovery fill f s d = Some None"
    unfolding FinishPacketRecovery_def Let_def b0 bind.bind_lunit len n_def by simp
  assume n: "n \<le> IP_PACKET_SIZE - kRtpHeaderSize"
  let ?d = "SetSize fill n (d\<lparr>data_mem := ?z\<rparr>)"
  have d: "data_mem ?d = ?z" "data_size ?d = n" using n l(1) by (simp_all add: SetSize_def EnsureCapacity_def)
  let ?za = "overwrite ?z 2 (be_bytes 2 s)"
  let ?zb = "overwrite ?za 8 (be_bytes 4 (protected_ssrc f))"
  have w: "WriteBE16 (data_mem ?d) 2 s = Some ?za" "WriteBE32 ?za 8 (protected_ssrc f) = Some ?zb"
    unfolding d using l by (simp_all add: write_simps put_def IP_PACKET_SIZE_def)
  have "FinishPacketRecovery fill f s d = Some (Some (?d\<lparr>data_mem := ?zb\<rparr>))"
    unfolding FinishPacketRecovery_def Let_def b0 bind.bind_lunit len n_def [symmetric] w using n by simp
  moreover have "packet_bytes (?d\<lparr>data_mem := ?zb\<rparr>) = take n ?zb" using d(2) by (simp add: packet_bytes_def)
  ultimately show "\<exists>d'. FinishPacketRecovery fill f s d = Some (Some d') \<and> packet_bytes d' = take n ?zb" by blast
qed

lemma RecoverPacket_safe:
  assumes "kRtpHeaderSize \<le> length (fec_pkt f)" "fec_header_size f \<le> IP_PACKET_SIZE"
    "protection_length f \<le> 65535 \<or> protection_length f \<le> length (fec_pkt f)" "length (fec_pkt f) < 2 ^ 32"
    "\<forall>p \<in> set (protected_packets f). \<forall>q. prot_pkt p = Some q \<longrightarrow> kRtpHeaderSize \<le> length q \<and> length q \<le> IP_PACKET_SIZE"
    "missing_seq (protected_packets f) None = Some s"
  shows "\<exists>r. RecoverPacket fill f = Some r \<and> (\<forall>p. r = Some p \<longrightarrow> rec_ssrc p = protected_ssrc f \<and> rec_seq_num p = s \<and>
    kRtpHeaderSize \<le> length (rec_pkt p) \<and> length (rec_pkt p) \<le> IP_PACKET_SIZE)"
proof (cases "StartPacketRecovery fill f = Some None")
  case True
  then show ?thesis by (simp add: RecoverPacket_def)
next
  case False
  then obtain d where d: "StartPacketRecovery fill f = Some (Some d)" "length (data_mem d) = IP_PACKET_SIZE"
    using StartPacketRecovery_cases [OF assms(1-4), of fill] StartPacketRecovery_spec [of f fill] assms(1) by metis
  let ?d = "fold (xor_into kRtpHeaderSize) (present (protected_packets f)) d"
  have loop: "recover_loop fill (protected_packets f) None d = Some (Some s, ?d)"
    using recover_loop_spec [OF assms(5) d(2), of fill None] assms(6) by simp
  have l: "length (data_mem ?d) = IP_PACKET_SIZE" using d(2) by (simp add: fold_xor_into(1))
  show ?thesis
  proof (cases "unat (be_val [data_mem ?d ! 2, data_mem ?d ! 3] :: u16) + kRtpHeaderSize > IP_PACKET_SIZE - kRtpHeaderSize")
    case True
    then show ?thesis using d(1) loop FinishPacketRecovery_spec(1) [OF l] by (simp add: RecoverPacket_def)
  next
    case False
    let ?n = "unat (be_val [data_mem ?d ! 2, data_mem ?d ! 3] :: u16) + kRtpHeaderSize"
    obtain d' where d': "FinishPacketRecovery fill f s ?d = Some (Some d')"
      "packet_bytes d' = take ?n (overwrite (overwrite ((data_mem ?d)[0 := (data_mem ?d ! 0 OR 0x80) AND 0xbf]) 2 (be_bytes 2 s)) 8
        (be_bytes 4 (protected_ssrc f)))" using FinishPacketRecovery_spec(2) [OF l, of fill f s] False by auto
    have "length (packet_bytes d') = ?n" unfolding d'(2) using l False by (simp add: IP_PACKET_SIZE_def)
    then show ?thesis using d(1) loop d'(1) False by (simp add: RecoverPacket_def)
  qed
qed


lemma ParseSequenceNumber_bytes:
  assumes "ParseSequenceNumber p = Some s"
  shows "be_bytes 2 s = [p ! 2, p ! 3]"
proof -
  have s: "s = push_bit 8 (ucast (p ! 2)) + ucast (p ! 3)"
    using assms by (auto simp: ParseSequenceNumber_def load_def bind_eq_Some_conv split: if_splits)
  also have "\<dots> = push_bit 8 (ucast (p ! 2)) OR ucast (p ! 3)"
    by (rule disjunctive_add_eq_or, rule bit_word_eqI) (auto simp: bit_simps)
  finally show ?thesis by (simp add: be_bytes_2 u8_eq_iff bit_simps)
qed

lemma ParseSsrc_bytes:
  assumes "ParseSsrc p = Some s"
  shows "be_bytes 4 s = [p ! 8, p ! 9, p ! 10, p ! 11]"
proof -
  let ?a = "push_bit 24 (ucast (p ! 8)) :: u32" and ?b = "push_bit 16 (ucast (p ! 9)) :: u32" and ?c = "push_bit 8 (ucast (p ! 10)) :: u32"
    and ?d = "ucast (p ! 11) :: u32"
  have "s = ?a + ?b + ?c + ?d"
    using assms by (auto simp: ParseSsrc_def load_def bind_eq_Some_conv split: if_splits)
  also have "?a + ?b = ?a OR ?b"
    by (rule disjunctive_add_eq_or, rule bit_word_eqI) (auto simp: bit_simps)
  also have "(?a OR ?b) + ?c = (?a OR ?b) OR ?c"
    by (rule disjunctive_add_eq_or, rule bit_word_eqI) (auto simp: bit_simps)
  also have "((?a OR ?b) OR ?c) + ?d = ((?a OR ?b) OR ?c) OR ?d"
    by (rule disjunctive_add_eq_or, rule bit_word_eqI) (auto simp: bit_simps)
  finally show ?thesis by (simp add: be_bytes_4 u8_eq_iff bit_simps)
qed

lemma version_byte:
  assumes "(a :: u8) AND 0x3f = b AND 0x3f" "bit b 7" "\<not> bit b 6"
  shows "(a OR 0x80) AND 0xbf = b"
  using assms by (simp add: u8_eq_iff bit_simps)


definition linked :: "u32 \<Rightarrow> protected_packet list \<Rightarrow> (u16 \<times> u8 list) list \<Rightarrow> bool" where
  "linked ssrc ps sp \<longleftrightarrow> list_all2 (\<lambda>p (s, q). prot_ssrc p = ssrc \<and> prot_seq_num p = s \<and> (prot_pkt p = None \<or> prot_pkt p = Some q)) ps sp"

lemma linked_present:
  "linked ssrc ps sp \<Longrightarrow> \<forall>p \<in> set ps. prot_pkt p \<noteq> None \<Longrightarrow> present ps = map snd sp \<and> (\<forall>s. missing_seq ps s = s)"
  unfolding linked_def by (induction ps sp rule: list_all2_induct) auto

lemma linked_pkt: "linked ssrc ps sp \<Longrightarrow> p \<in> set ps \<Longrightarrow> prot_pkt p = Some q \<Longrightarrow> (prot_seq_num p, q) \<in> set sp"
  unfolding linked_def by (induction ps sp rule: list_all2_induct) auto

lemma missing_seq_append: "missing_seq (ps @ ps') s = missing_seq ps' (missing_seq ps s)"
  by (induction ps arbitrary: s) simp_all

lemma xor_cancel: "(a XOR b) XOR b = (a :: u8)"
  by (simp add: xor.assoc)

lemma xor_and_distrib: "(a XOR b) AND c = (a AND c) XOR (b AND c :: u8)"
  by (rule bit_word_eqI) (auto simp: bit_simps)

lemma recovered_bytes:
  assumes mem: "length m = IP_PACKET_SIZE" "m ! 0 AND 0x3f = p ! 0 AND 0x3f" "\<And>k. 1 \<le> k \<Longrightarrow> k < 8 \<Longrightarrow> m ! k = contrib kRtpHeaderSize p k"
      "\<And>j. j < length p - kRtpHeaderSize \<Longrightarrow> m ! (kRtpHeaderSize + j) = p ! (kRtpHeaderSize + j)"
    and p: "media_ok ssrc s p"
  shows "take (length p) (overwrite (overwrite (m[0 := (m ! 0 OR 0x80) AND 0xbf]) 2 (be_bytes 2 s)) 8 (be_bytes 4 ssrc)) = p"
proof (rule nth_equalityI)
  let ?m = "m[0 := (m ! 0 OR 0x80) AND 0xbf]"
  let ?za = "overwrite ?m 2 (be_bytes 2 s)"
  let ?zb = "overwrite ?za 8 (be_bytes 4 ssrc)"
  have p': "12 \<le> length p" "length p \<le> 1480" "bit (p ! 0) 7" "\<not> bit (p ! 0) 6" "be_bytes 2 s = [p ! 2, p ! 3]" "be_bytes 4 ssrc = [p ! 8, p ! 9, p ! 10, p ! 11]"
    using p by (simp_all add: media_ok_def kRtpHeaderSize_def IP_PACKET_SIZE_def ParseSequenceNumber_bytes ParseSsrc_bytes)
  have l: "length ?m = 1500" "length ?za = 1500" "length ?zb = 1500" using mem(1) by (simp_all add: IP_PACKET_SIZE_def)
  show "length (take (length p) ?zb) = length p" using l p' by simp
  fix k assume "k < length (take (length p) ?zb)"
  then have k: "k < length p" by simp
  then have kl: "k < 1500" using p' by simp
  have zb: "?zb ! k = (if 8 \<le> k \<and> k < 12 then [p ! 8, p ! 9, p ! 10, p ! 11] ! (k - 8) else ?za ! k)"
    using l kl p' by (subst nth_overwrite) simp_all
  have za: "?za ! k = (if 2 \<le> k \<and> k < 4 then [p ! 2, p ! 3] ! (k - 2) else ?m ! k)"
    using l kl p' by (subst nth_overwrite) simp_all
  have "?zb ! k = p ! k"
  proof (cases "k < 12")
    case True
    then have "k = 0 \<or> k = 1 \<or> k = 2 \<or> k = 3 \<or> k = 4 \<or> k = 5 \<or> k = 6 \<or> k = 7 \<or> k = 8 \<or> k = 9 \<or> k = 10 \<or> k = 11" by presburger
    moreover have "?m ! 0 = p ! 0" using version_byte [OF mem(2) p'(3,4)] mem(1) by (simp add: IP_PACKET_SIZE_def)
    ultimately show ?thesis unfolding zb za using mem(3) [of k] by (elim disjE) (simp_all add: contrib_def)
  next
    case False
    then obtain j where j: "k = kRtpHeaderSize + j" by (metis kRtpHeaderSize_def le_Suc_ex not_less)
    then have "j < length p - kRtpHeaderSize" using k by simp
    with mem(4) [of j] False show ?thesis unfolding zb za j [symmetric] by simp
  qed
  then show "take (length p) ?zb ! k = p ! k" using k by simp
qed

lemma RecoverPacket_parity:
  assumes f: "protected_packets f = ys @ q # zs" "prot_pkt q = None" "\<forall>p \<in> set (ys @ zs). prot_pkt p \<noteq> None" "protected_ssrc f = ssrc"
    and sp: "linked ssrc (protected_packets f) sp" "parity_of (map snd sp) f" "\<forall>(s, p) \<in> set sp. media_ok ssrc s p"
  shows "\<exists>p. (prot_seq_num q, p) \<in> set sp \<and>
    RecoverPacket fill f = Some (Some \<lparr>rec_ssrc = ssrc, rec_seq_num = prot_seq_num q, was_recovered = True, returned = False, rec_pkt = p\<rparr>)"
proof -
  let ?hs = "fec_header_size f" and ?n = "protection_length f" and ?data = "fec_pkt f"
  obtain sy p sz where s: "sp = sy @ (prot_seq_num q, p) # sz" "linked ssrc ys sy" "linked ssrc zs sz"
    using sp(1) unfolding f(1) linked_def by (auto simp: list_all2_append1 list_all2_Cons1)
  have pr: "present ys = map snd sy" "present zs = map snd sz" "missing_seq ys s = s" "missing_seq zs s = s" for s
    using linked_present [OF s(2)] linked_present [OF s(3)] f(3) by auto
  let ?others = "map snd sy @ map snd sz"
  have pres: "present (protected_packets f) = ?others" "missing_seq (protected_packets f) None = Some (prot_seq_num q)"
    using f(1,2) pr by (simp_all add: missing_seq_append)
  have all: "xsum g (map snd sp) = g p XOR xsum g ?others" for g unfolding s(1) by (simp add: xor.left_commute)
  have par: "kRtpHeaderSize \<le> ?hs" "?hs + ?n = length ?data" "length ?data \<le> IP_PACKET_SIZE" "length p - kRtpHeaderSize \<le> ?n"
    "?data ! 0 AND 0x3f = xsum (\<lambda>p. p ! 0) (map snd sp) AND 0x3f"
    "\<And>k. 1 \<le> k \<and> k < 8 \<Longrightarrow> ?data ! k = xsum (\<lambda>p. contrib kRtpHeaderSize p k) (map snd sp)"
    "\<And>j. j < ?n \<Longrightarrow> ?data ! (?hs + j) = xsum (\<lambda>p. contrib kRtpHeaderSize p (kRtpHeaderSize + j)) (map snd sp)"
    using sp(2) s(1) unfolding parity_of_def Let_def by auto
  have ok: "media_ok ssrc (prot_seq_num q) p" using sp(3) s(1) by simp
  have "kRtpHeaderSize \<le> length ?data" "?n \<le> IP_PACKET_SIZE - kRtpHeaderSize" "?n + ?hs \<le> IP_PACKET_SIZE"
    using par(1-3) by simp_all
  then obtain d where d: "StartPacketRecovery fill f = Some (Some d)" "length (data_mem d) = IP_PACKET_SIZE"
    "\<And>k. k < kRtpHeaderSize \<Longrightarrow> data_mem d ! k = ?data ! k"
    "\<And>j. j < ?n \<Longrightarrow> data_mem d ! (kRtpHeaderSize + j) = ?data ! (?hs + j)"
    using StartPacketRecovery_spec [of f fill] par(2) by (metis order_refl)
  let ?d = "fold (xor_into kRtpHeaderSize) ?others d"
  have "\<forall>p \<in> set (protected_packets f). \<forall>q. prot_pkt p = Some q \<longrightarrow> kRtpHeaderSize \<le> length q \<and> length q \<le> IP_PACKET_SIZE"
    using linked_pkt [OF sp(1)] sp(3) by (fastforce simp: media_ok_def)
  then have loop: "recover_loop fill (protected_packets f) None d = Some (Some (prot_seq_num q), ?d)"
    using recover_loop_spec [OF _ d(2), of "protected_packets f" fill None] pres by simp
  have l: "length (data_mem ?d) = IP_PACKET_SIZE" using d(2) by (simp add: fold_xor_into(1))
  have mem: "data_mem ?d ! k = data_mem d ! k XOR xsum (\<lambda>p. contrib kRtpHeaderSize p k) ?others" if "k < IP_PACKET_SIZE" for k
    using that d(2) by (intro fold_xor_into(2)) simp
  have low: "data_mem ?d ! k = contrib kRtpHeaderSize p k" if "1 \<le> k" "k < 8" for k
    using that mem [of k] d(3) [of k] par(6) [of k] all [of "\<lambda>p. contrib kRtpHeaderSize p k"]
    by (simp add: IP_PACKET_SIZE_def kRtpHeaderSize_def xor_cancel)
  have high: "data_mem ?d ! (kRtpHeaderSize + j) = p ! (kRtpHeaderSize + j)" if j: "j < length p - kRtpHeaderSize" for j
  proof -
    have jn: "j < ?n" "kRtpHeaderSize + j < IP_PACKET_SIZE" using j par(1-4) by simp_all
    have "data_mem ?d ! (kRtpHeaderSize + j) = contrib kRtpHeaderSize p (kRtpHeaderSize + j)"
      using mem [OF jn(2)] d(4) [OF jn(1)] par(7) [OF jn(1)] all [of "\<lambda>p. contrib kRtpHeaderSize p (kRtpHeaderSize + j)"]
      by (simp add: xor_cancel)
    also have "\<dots> = p ! (kRtpHeaderSize + j)" using j by (subst contrib_high) (simp_all add: kRtpHeaderSize_def)
    finally show ?thesis .
  qed
  have zero: "data_mem ?d ! 0 AND 0x3f = p ! 0 AND 0x3f"
  proof -
    let ?x = "xsum (\<lambda>p. p ! 0) ?others"
    have "data_mem ?d ! 0 = ?data ! 0 XOR ?x" using mem [of 0] d(3) [of 0] by (simp add: contrib_def IP_PACKET_SIZE_def kRtpHeaderSize_def)
    then have "data_mem ?d ! 0 AND 0x3f = (?data ! 0 AND 0x3f) XOR (?x AND 0x3f)" by (simp add: xor_and_distrib)
    also have "\<dots> = ((p ! 0 XOR ?x) AND 0x3f) XOR (?x AND 0x3f)" using par(5) all [of "\<lambda>p. p ! 0"] by simp
    also have "\<dots> = p ! 0 AND 0x3f" by (simp add: xor_and_distrib xor_cancel)
    finally show ?thesis .
  qed
  have len: "unat (be_val [data_mem ?d ! 2, data_mem ?d ! 3] :: u16) + kRtpHeaderSize = length p"
  proof -
    have "[data_mem ?d ! 2, data_mem ?d ! 3] = be_bytes 2 (of_nat (length p - kRtpHeaderSize) :: u16)"
      using low [of 2] low [of 3] by (simp add: be_bytes_2 contrib_def)
    moreover have "length p - kRtpHeaderSize < 65536" "kRtpHeaderSize \<le> length p" using ok by (auto simp: media_ok_def IP_PACKET_SIZE_def)
    ultimately show ?thesis by (simp only: be_val_of_nat_u16)
  qed
  obtain d' where d': "FinishPacketRecovery fill f (prot_seq_num q) ?d = Some (Some d')" "packet_bytes d' = p"
    using FinishPacketRecovery_spec(2) [OF l, of fill f "prot_seq_num q"] recovered_bytes [OF l zero low high ok] ok
    unfolding len f(4) by (auto simp: media_ok_def IP_PACKET_SIZE_def kRtpHeaderSize_def)
  then show ?thesis using d(1) loop f(4) s(1) by (intro exI [of _ p]) (simp add: RecoverPacket_def)
qed

end
