(* ===== verification/Fec_Decoding.thy ===== *)
theory Fec_Decoding
  imports Fec_Recovery
begin

text \<open>
  The decoder as a whole.  The locale \<open>fec_decoding\<close> says what the decoder relies on: a notion of acceptable
  media packets, of acceptable FEC packets as the decoder holds them and on the wire, that the header
  reader turns the latter into the former, and that recovery yields acceptable packets.  From this it
  follows that \<^verbatim>\<open>DecodeFec\<close> does not fault, keeps its lists bounded and all packets in them acceptable, and
  stops only when no FEC packet is left that could recover anything.
\<close>

subsection \<open>Lists of packets\<close>

lemma insert_by_set: "set (insert_by key x ys) = insert x (set ys)" "length (insert_by key x ys) = Suc (length ys)"
  by (induction ys) auto

lemma foldl_insert_by:
  "set (foldl (\<lambda>ys x. insert_by key x ys) ys xs) = set ys \<union> set xs" "length (foldl (\<lambda>ys x. insert_by key x ys) ys xs) = length ys + length xs"
  by (induction xs arbitrary: ys) (auto simp: insert_by_set)

lemma sort_packets_some:
  assumes "\<forall>x \<in> set xs. fst (key x) = c"
  obtains ys where "sort_packets key xs = Some ys" "set ys = set xs" "length ys = length xs"
proof -
  have "list_all (\<lambda>x. fst (key x) = fst (key (hd xs))) xs" using assms by (cases xs) (auto simp: list_all_iff)
  then show thesis using that foldl_insert_by [of key "[]" xs] by (simp add: sort_packets_def)
qed

lemma lower_bound_some:
  assumes "\<forall>p \<in> set ps. prot_ssrc p = fst key" "first + count \<le> length ps"
  shows "\<exists>i. lower_bound ps key first count = Some i"
  using assms
proof (induction ps key first count rule: lower_bound.induct)
  case (1 ps key first count)
  show ?case
  proof (cases "count = 0")
    case False
    let ?step = "count div 2"
    have i: "first + ?step < length ps" using False "1.prems"(2) by simp
    then have lt: "LessThan (prot_key (ps ! (first + ?step))) key = Some (IsNewerSequenceNumber (snd key) (prot_seq_num (ps ! (first + ?step))))"
      using "1.prems"(1) by (simp add: LessThan_def prot_key_def)
    show ?thesis
    proof (cases "IsNewerSequenceNumber (snd key) (prot_seq_num (ps ! (first + ?step)))")
      case True
      moreover have "first + ?step + 1 + (count - (?step + 1)) \<le> length ps" using False "1.prems"(2) by simp
      ultimately show ?thesis using "1.IH"(1) [OF False refl _ lt] i lt False "1.prems"(1)
        by (subst lower_bound.simps) (simp add: Let_def)
    next
      case notlt: False
      moreover have "first + ?step \<le> length ps" using i by simp
      ultimately show ?thesis using "1.IH"(2) [OF False refl _ lt] i lt False "1.prems"(1)
        by (subst lower_bound.simps) (simp add: Let_def)
    qed
  qed (simp add: lower_bound.simps)
qed

lemma map_all_some:
  assumes "\<And>x. x \<in> set xs \<Longrightarrow> \<exists>y. f x = Some y \<and> Q y"
  shows "\<exists>ys. map_all f xs = Some ys \<and> length ys = length xs \<and> (\<forall>y \<in> set ys. Q y)"
  using assms
proof (induction xs)
  case (Cons x xs)
  obtain y where "f x = Some y" "Q y" using Cons.prems [of x] by auto
  moreover obtain ys where "map_all f xs = Some ys" "length ys = length xs" "\<forall>y \<in> set ys. Q y" using Cons by auto
  ultimately show ?case by simp
qed simp

lemma has_duplicate_some:
  "\<forall>x \<in> set xs. fst (key x) = fst k \<Longrightarrow> has_duplicate key k xs = Some (\<exists>x \<in> set xs. snd (key x) = snd k)"
  by (induction xs) auto

lemma pop_front_drop: "pop_front_while_larger n xs = drop (length xs - n) xs"
proof (induction n xs rule: pop_front_while_larger.induct)
  case (1 n xs)
  show ?case
  proof (cases "length xs > n")
    case True
    then have "length xs - n = Suc (length (tl xs) - n)" by simp
    with 1 True show ?thesis by (subst pop_front_while_larger.simps) (simp add: drop_Suc)
  qed (simp add: pop_front_while_larger.simps)
qed

lemma missing_upto_2_eq: "n \<le> 1 \<Longrightarrow> missing_upto_2 ps n = min 2 (n + length (filter (\<lambda>p. prot_pkt p = None) ps))"
proof (induction ps arbitrary: n)
  case (Cons p ps)
  show ?case using Cons.IH [of 1] Cons.IH [of n] Cons.prems by (cases "n = 0") auto
qed simp

lemma NumCoveredPacketsMissing_eq:
  "NumCoveredPacketsMissing f = min 2 (length (filter (\<lambda>p. prot_pkt p = None) (protected_packets f)))"
  by (simp add: NumCoveredPacketsMissing_def missing_upto_2_eq)

lemma one_missing:
  assumes "NumCoveredPacketsMissing f = 1"
  obtains ys q zs where "protected_packets f = ys @ q # zs" "prot_pkt q = None" "\<forall>p \<in> set (ys @ zs). prot_pkt p \<noteq> None"
proof -
  have "length (filter (\<lambda>p. prot_pkt p = None) (protected_packets f)) = 1"
    using assms unfolding NumCoveredPacketsMissing_eq by (simp add: min_def split: if_splits)
  then obtain q where q: "filter (\<lambda>p. prot_pkt p = None) (protected_packets f) = [q]" by (metis One_nat_def length_0_conv length_Suc_conv)
  then obtain ys zs where "protected_packets f = ys @ q # zs" "\<forall>p \<in> set ys. prot_pkt p \<noteq> None" "prot_pkt q = None"
      "filter (\<lambda>p. prot_pkt p = None) zs = []"
    unfolding filter_eq_Cons_iff by metis
  then show thesis using that [of ys q zs] by (auto simp: filter_empty_conv)
qed

subsection \<open>The decoder keeps its invariant\<close>

definition forget :: "received_fec_packet \<Rightarrow> received_fec_packet" where
  "forget f = f\<lparr>protected_packets := map (\<lambda>p. p\<lparr>prot_pkt := None\<rparr>) (protected_packets f)\<rparr>"

lemma AssignRecoveredPackets_some:
  assumes "\<forall>p \<in> set ps. prot_ssrc p = c \<and> (\<forall>q. prot_pkt p = Some q \<longrightarrow> ok (prot_seq_num p) q)"
    "\<forall>r \<in> set rs. rec_ssrc r = c \<and> ok (rec_seq_num r) (rec_pkt r)"
  shows "\<exists>ps'. AssignRecoveredPackets ps rs = Some ps' \<and> map (\<lambda>p. p\<lparr>prot_pkt := None\<rparr>) ps' = map (\<lambda>p. p\<lparr>prot_pkt := None\<rparr>) ps \<and>
    (\<forall>p \<in> set ps'. \<forall>q. prot_pkt p = Some q \<longrightarrow> ok (prot_seq_num p) q)"
  using assms
proof (induction ps rs rule: AssignRecoveredPackets.induct)
  case (3 p ps r rs)
  have k: "LessThan (prot_key p) (rec_key r) = Some (IsNewerSequenceNumber (rec_seq_num r) (prot_seq_num p))"
    "LessThan (rec_key r) (prot_key p) = Some (IsNewerSequenceNumber (prot_seq_num p) (rec_seq_num r))"
    using "3.prems" by (simp_all add: LessThan_def prot_key_def rec_key_def)
  show ?case
  proof (cases "IsNewerSequenceNumber (rec_seq_num r) (prot_seq_num p)")
    case True
    with 3 k show ?thesis by fastforce
  next
    case nlt: False
    show ?thesis
    proof (cases "IsNewerSequenceNumber (prot_seq_num p) (rec_seq_num r)")
      case True
      with 3 k nlt show ?thesis by fastforce
    next
      case False
      with nlt have "prot_seq_num p = rec_seq_num r" using IsNewer_total unfolding IsNewerSequenceNumber_def by blast
      with 3 k nlt False show ?thesis by fastforce
    qed
  qed
qed auto


locale fec_decoding =
  fixes own msrc :: u32 and reader :: fec_header_reader
    and pkt_ok :: "u16 \<Rightarrow> u8 list \<Rightarrow> bool" and fec_ok :: "received_fec_packet \<Rightarrow> bool" and wire_ok :: "u8 list \<Rightarrow> bool"
  assumes limits: "reader_MaxMediaPackets reader = kMaxTrackedMediaPackets" "reader_MaxFecPackets reader = kMaxFecPackets"
    and shape: "fec_ok f \<Longrightarrow> protected_packets f \<noteq> [] \<and> (\<forall>p \<in> set (protected_packets f). prot_ssrc p = msrc)"
    and recover: "fec_ok (forget f) \<Longrightarrow>
      \<forall>p \<in> set (protected_packets f). \<forall>q. prot_pkt p = Some q \<longrightarrow> pkt_ok (prot_seq_num p) q \<Longrightarrow>
      NumCoveredPacketsMissing f = 1 \<Longrightarrow>
      \<exists>r. RecoverPacket fill f = Some r \<and> (\<forall>p. r = Some p \<longrightarrow> rec_ssrc p = msrc \<and> pkt_ok (rec_seq_num p) (rec_pkt p))"
    and read: "wire_ok (fec_pkt f) \<Longrightarrow> fec_ssrc f = own \<Longrightarrow> \<exists>ret f'. ReadFecHeader reader f = Some (ret, f') \<and>
      (ret \<longrightarrow> fec_ssrc f' = own \<and> (\<forall>bytes. protected_ssrc f' = msrc \<longrightarrow>
        slice (fec_pkt f') (packet_mask_offset f') (packet_mask_size f') = Some bytes \<longrightarrow>
        mask_packets msrc (seq_num_base f') bytes \<noteq> [] \<longrightarrow>
        fec_ok (f'\<lparr>protected_packets := mask_packets msrc (seq_num_base f') bytes\<rparr>)))"
begin

definition rec_inv :: "recovered_packet \<Rightarrow> bool" where
  "rec_inv r \<longleftrightarrow> rec_ssrc r = msrc \<and> pkt_ok (rec_seq_num r) (rec_pkt r)"

definition fec_inv :: "received_fec_packet \<Rightarrow> bool" where
  "fec_inv f \<longleftrightarrow> fec_ssrc f = own \<and> fec_ok (forget f) \<and>
     (\<forall>p \<in> set (protected_packets f). \<forall>q. prot_pkt p = Some q \<longrightarrow> pkt_ok (prot_seq_num p) q)"

definition dec_inv :: "recovered_packet list \<Rightarrow> forward_error_correction \<Rightarrow> bool" where
  "dec_inv rs fec \<longleftrightarrow> own_ssrc fec = own \<and> protected_media_ssrc fec = msrc \<and> header_reader fec = reader \<and>
     list_all rec_inv rs \<and> length rs \<le> kMaxTrackedMediaPackets \<and>
     list_all fec_inv (received_fec_packets fec) \<and> length (received_fec_packets fec) \<le> kMaxFecPackets"

definition rcv_ok :: "fec_received_packet \<Rightarrow> bool" where
  "rcv_ok r \<longleftrightarrow> (if is_fec r then rcv_ssrc r = own \<and> wire_ok (rcv_pkt r) else rcv_ssrc r = msrc \<and> pkt_ok (rcv_seq_num r) (rcv_pkt r))"

lemma fec_inv_shape:
  assumes "fec_inv f"
  shows "protected_packets f \<noteq> []" "\<forall>p \<in> set (protected_packets f). prot_ssrc p = msrc"
  using shape [of "forget f"] assms by (auto simp: fec_inv_def forget_def)

lemma update_covering_inv:
  assumes "fec_inv f" "rec_inv r"
  shows "\<exists>f'. update_covering r f = Some f' \<and> fec_inv f'"
proof -
  let ?ps = "protected_packets f"
  have "\<forall>p \<in> set ?ps. prot_ssrc p = fst (rec_key r)" using fec_inv_shape(2) [OF assms(1)] assms(2) by (simp add: rec_inv_def rec_key_def)
  then obtain i where i: "lower_bound ?ps (rec_key r) 0 (length ?ps) = Some i" using lower_bound_some by fastforce
  show ?thesis
  proof (cases "i < length ?ps \<and> prot_seq_num (?ps ! i) = rec_seq_num r")
    case True
    let ?p = "(?ps ! i)\<lparr>prot_pkt := Some (rec_pkt r)\<rparr>"
    let ?f = "f\<lparr>protected_packets := ?ps[i := ?p]\<rparr>"
    have "map (\<lambda>p. p\<lparr>prot_pkt := None\<rparr>) (?ps[i := ?p]) = map (\<lambda>p. p\<lparr>prot_pkt := None\<rparr>) ?ps"
      using True by (intro nth_equalityI) (auto simp: nth_list_update)
    then have "forget ?f = forget f" by (simp add: forget_def)
    moreover have "pkt_ok (prot_seq_num p) q" if "p \<in> set (?ps[i := ?p])" "prot_pkt p = Some q" for p q
      using that assms True set_update_subset_insert [of ?ps i ?p] by (auto simp: fec_inv_def rec_inv_def)
    ultimately have "fec_inv ?f" using assms(1) by (simp add: fec_inv_def)
    then show ?thesis using i True by (simp add: update_covering_def Let_def)
  next
    case False
    then show ?thesis using i assms(1) by (auto simp: update_covering_def Let_def)
  qed
qed

lemma UpdateCovering_inv:
  assumes "list_all fec_inv fs" "rec_inv r"
  shows "\<exists>fs'. UpdateCoveringFecPackets r fs = Some fs' \<and> length fs' = length fs \<and> list_all fec_inv fs'"
  using map_all_some [of fs "update_covering r" fec_inv] update_covering_inv assms
  by (auto simp: UpdateCoveringFecPackets_def list_all_iff)

lemma sort_rec:
  assumes "list_all rec_inv rs"
  shows "\<exists>rs'. sort_packets rec_key rs = Some rs' \<and> list_all rec_inv rs' \<and> length rs' = length rs"
proof -
  have "\<forall>r \<in> set rs. fst (rec_key r) = msrc" using assms by (simp add: list_all_iff rec_inv_def rec_key_def)
  then obtain ys where "sort_packets rec_key rs = Some ys" "set ys = set rs" "length ys = length rs" by (rule sort_packets_some)
  with assms show ?thesis by (simp add: list_all_iff)
qed

lemma Discard_inv:
  assumes "list_all rec_inv rs" "header_reader fec = reader"
  shows "\<exists>rs'. DiscardOldRecoveredPackets fec rs = Some rs' \<and> list_all rec_inv rs' \<and> length rs' \<le> kMaxTrackedMediaPackets"
proof -
  let ?rs = "drop (length rs - kMaxTrackedMediaPackets) rs"
  have "list_all rec_inv ?rs" using assms(1) by (auto simp: list_all_iff dest: in_set_dropD)
  moreover have "length ?rs \<le> kMaxTrackedMediaPackets" by simp
  ultimately show ?thesis using assms(2) limits by (simp add: DiscardOldRecoveredPackets_def Let_def pop_front_drop bind_dcheck)
qed

lemma InsertMediaPacket_inv:
  assumes "dec_inv rs fec" "rcv_ok r" "\<not> is_fec r"
  shows "\<exists>rs' fec'. InsertMediaPacket rs r fec = Some (rs', fec') \<and> list_all rec_inv rs' \<and> dec_inv [] fec'"
proof -
  let ?k = "(rcv_ssrc r, rcv_seq_num r)"
  let ?p = "\<lparr>rec_ssrc = rcv_ssrc r, rec_seq_num = rcv_seq_num r, was_recovered = False, returned = True, rec_pkt = rcv_pkt r\<rparr>"
  have r: "rcv_ssrc r = msrc" "rec_inv ?p" using assms(2,3) by (simp_all add: rcv_ok_def rec_inv_def)
  have "\<forall>x \<in> set rs. fst (rec_key x) = fst ?k" using assms(1) r by (simp add: dec_inv_def list_all_iff rec_inv_def rec_key_def)
  note dup = has_duplicate_some [OF this]
  have "list_all rec_inv (rs @ [?p])" using assms(1) r(2) by (simp add: dec_inv_def)
  then obtain rs' where rs': "sort_packets rec_key (rs @ [?p]) = Some rs'" "list_all rec_inv rs'" using sort_rec by blast
  obtain fs' where fs': "UpdateCoveringFecPackets ?p (received_fec_packets fec) = Some fs'"
      "length fs' = length (received_fec_packets fec)" "list_all fec_inv fs'"
    using UpdateCovering_inv [OF _ r(2)] assms(1) unfolding dec_inv_def by blast
  show ?thesis using dup rs' fs' assms(1) r(1) by (auto simp: InsertMediaPacket_def Let_def dec_inv_def)
qed

lemma InsertFecPacket_inv:
  assumes "dec_inv rs fec" "rcv_ok r" "is_fec r"
  shows "\<exists>fec'. InsertFecPacket rs r fec = Some fec' \<and> dec_inv rs fec'"
proof -
  let ?fs = "received_fec_packets fec" and ?k = "(rcv_ssrc r, rcv_seq_num r)"
  let ?f = "\<lparr>fec_seq_num = rcv_seq_num r, fec_ssrc = rcv_ssrc r, protected_packets = [],
         fec_header_size = 0, protected_ssrc = 0, seq_num_base = 0, packet_mask_offset = 0, packet_mask_size = 0,
         protection_length = 0, fec_pkt = rcv_pkt r\<rparr>"
  have r: "rcv_ssrc r = own" "wire_ok (rcv_pkt r)" using assms(2,3) by (simp_all add: rcv_ok_def)
  have inv: "own_ssrc fec = own" "protected_media_ssrc fec = msrc" "header_reader fec = reader" "list_all rec_inv rs"
    "list_all fec_inv ?fs" "length ?fs \<le> kMaxFecPackets" using assms(1) by (simp_all add: dec_inv_def)
  have "\<forall>x \<in> set ?fs. fst (fec_key x) = fst ?k" using inv(5) r by (simp add: list_all_iff fec_inv_def fec_key_def)
  note dup = has_duplicate_some [OF this]
  obtain ret f where f: "ReadFecHeader reader ?f = Some (ret, f)" "ret \<longrightarrow> fec_ssrc f = own \<and> (\<forall>bytes. protected_ssrc f = msrc \<longrightarrow>
        slice (fec_pkt f) (packet_mask_offset f) (packet_mask_size f) = Some bytes \<longrightarrow>
        mask_packets msrc (seq_num_base f) bytes \<noteq> [] \<longrightarrow> fec_ok (f\<lparr>protected_packets := mask_packets msrc (seq_num_base f) bytes\<rparr>))"
    using read [of ?f] r by auto
  show ?thesis
  proof (cases "(\<exists>x \<in> set ?fs. snd (fec_key x) = snd ?k) \<or> \<not> ret \<or> protected_ssrc f \<noteq> msrc \<or>
      packet_mask_offset f + packet_mask_size f > length (fec_pkt f)")
    case True
    then show ?thesis using dup f(1) r(1) inv assms(1) by (auto simp: InsertFecPacket_def Let_def)
  next
    case False
    then obtain bytes where b: "slice (fec_pkt f) (packet_mask_offset f) (packet_mask_size f) = Some bytes" by (auto simp: slice_def)
    let ?ps = "mask_packets msrc (seq_num_base f) bytes"
    show ?thesis
    proof (cases "?ps = []")
      case True
      then show ?thesis using False b dup f(1) r(1) inv assms(1) by (auto simp: InsertFecPacket_def Let_def)
    next
      case ne: False
      have ok: "fec_ok (f\<lparr>protected_packets := ?ps\<rparr>)" "fec_ssrc f = own" using f(2) False b ne by simp_all
      have none: "prot_pkt p = None \<and> prot_ssrc p = msrc" if "p \<in> set ?ps" for p using that by (auto simp: mask_packets_eq)
      obtain ps' where ps': "AssignRecoveredPackets ?ps rs = Some ps'" "map (\<lambda>p. p\<lparr>prot_pkt := None\<rparr>) ps' = map (\<lambda>p. p\<lparr>prot_pkt := None\<rparr>) ?ps"
          "\<forall>p \<in> set ps'. \<forall>q. prot_pkt p = Some q \<longrightarrow> pkt_ok (prot_seq_num p) q"
        using AssignRecoveredPackets_some [of ?ps msrc pkt_ok rs] none inv(4) by (auto simp: list_all_iff rec_inv_def)
      let ?g = "f\<lparr>protected_packets := ps'\<rparr>"
      have "map (\<lambda>p. p\<lparr>prot_pkt := None\<rparr>) ?ps = ?ps" by (simp add: mask_packets_eq)
      then have "forget ?g = f\<lparr>protected_packets := ?ps\<rparr>" using ps'(2) by (simp add: forget_def)
      then have g: "fec_inv ?g" using ok ps'(3) by (simp add: fec_inv_def)
      then have "\<forall>x \<in> set (?fs @ [?g]). fst (fec_key x) = own" using inv(5) by (auto simp: list_all_iff fec_inv_def fec_key_def)
      then obtain fs' where fs': "sort_packets fec_key (?fs @ [?g]) = Some fs'" "set fs' = set (?fs @ [?g])" "length fs' = length (?fs @ [?g])"
        using sort_packets_some by metis
      let ?fs' = "if length fs' > kMaxFecPackets then tl fs' else fs'"
      have "list_all fec_inv fs'" using fs'(2) g inv(5) by (auto simp: list_all_iff)
      then have "list_all fec_inv ?fs'" "length ?fs' \<le> kMaxFecPackets"
        using inv(6) fs'(3) by (auto simp: list_all_iff dest: list.set_sel(2) [rotated] intro: list.set_sel)
      moreover have "InsertFecPacket rs r fec = Some (fec\<lparr>received_fec_packets := ?fs'\<rparr>)"
        using False ne b dup f(1) r(1) inv ps'(1) fs'(1) calculation(2) limits by (simp add: InsertFecPacket_def Let_def)
      ultimately show ?thesis using assms(1) by (auto simp: dec_inv_def)
    qed
  qed
qed

lemma attempt_loop_inv:
  assumes "header_reader fec = reader" "list_all rec_inv rs" "length rs \<le> kMaxTrackedMediaPackets"
    "list_all fec_inv (before @ rest)" "\<forall>f \<in> set before. 1 < NumCoveredPacketsMissing f"
  shows "\<exists>rs' fs'. attempt_loop min_diff fill fec rs before rest = Some (rs', fs') \<and> list_all rec_inv rs' \<and>
    length rs' \<le> kMaxTrackedMediaPackets \<and> list_all fec_inv fs' \<and> length fs' \<le> length (before @ rest) \<and>
    (\<forall>f \<in> set fs'. 1 < NumCoveredPacketsMissing f)"
  using assms
proof (induction min_diff fill fec rs before rest rule: attempt_loop.induct)
  case (2 min_diff fill fec rs before f rest)
  have f: "fec_inv f" and all: "list_all fec_inv (before @ rest)" using "2.prems"(4) by simp_all
  show ?case
  proof (cases "NumCoveredPacketsMissing f = 1")
    case one: True
    obtain r where r: "RecoverPacket fill f = Some r" "\<forall>p. r = Some p \<longrightarrow> rec_inv p"
      using recover [of f fill] f one by (auto simp: fec_inv_def rec_inv_def)
    show ?thesis
    proof (cases r)
      case None
      have "\<exists>rs' fs'. attempt_loop min_diff fill fec rs before rest = Some (rs', fs') \<and> list_all rec_inv rs' \<and>
        length rs' \<le> kMaxTrackedMediaPackets \<and> list_all fec_inv fs' \<and> length fs' \<le> length (before @ rest) \<and>
        (\<forall>f \<in> set fs'. 1 < NumCoveredPacketsMissing f)"
        using "2.IH"(1) [OF refl one r(1) None] "2.prems" all by simp
      then show ?thesis using one r(1) None by (auto simp: Let_def intro: le_SucI)
    next
      case (Some p)
      have "list_all rec_inv (rs @ [p])" using "2.prems"(2) r(2) Some by simp
      then obtain rs1 where rs1: "sort_packets rec_key (rs @ [p]) = Some rs1" "list_all rec_inv rs1" using sort_rec by blast
      obtain fs where fs: "UpdateCoveringFecPackets p (before @ f # rest) = Some fs" "length fs = length (before @ f # rest)" "list_all fec_inv fs"
        using UpdateCovering_inv [OF "2.prems"(4), of p] r(2) Some by auto
      obtain rs2 where rs2: "DiscardOldRecoveredPackets fec rs1 = Some rs2" "list_all rec_inv rs2" "length rs2 \<le> kMaxTrackedMediaPackets"
        using Discard_inv [OF rs1(2) "2.prems"(1)] by blast
      let ?fs = "take (length before) fs @ drop (Suc (length before)) fs"
      have "list_all fec_inv ?fs" using fs(3) by (auto simp: list_all_iff dest: in_set_takeD in_set_dropD)
      then have "\<exists>rs' fs'. attempt_loop min_diff fill fec rs2 [] ?fs = Some (rs', fs') \<and> list_all rec_inv rs' \<and>
        length rs' \<le> kMaxTrackedMediaPackets \<and> list_all fec_inv fs' \<and> length fs' \<le> length ([] @ ?fs) \<and>
        (\<forall>f \<in> set fs'. 1 < NumCoveredPacketsMissing f)"
        using "2.IH"(2) [OF refl one r(1) Some rs1(1) fs(1) rs2(1)] "2.prems"(1) rs2 by simp
      moreover have "length ?fs \<le> length (before @ f # rest)" using fs(2) by simp
      ultimately show ?thesis using one r(1) Some rs1(1) fs(1) rs2(1) by (auto simp: Let_def)
    qed
  next
    case other: False
    have "\<exists>discard. (if NumCoveredPacketsMissing f = 0 then Some True else IsOldFecPacket min_diff f rs) = Some discard"
      using fec_inv_shape(1) [OF f] by (auto simp: IsOldFecPacket_def)
    then obtain discard where d: "(if NumCoveredPacketsMissing f = 0 then Some True else IsOldFecPacket min_diff f rs) = Some discard" ..
    show ?thesis
    proof (cases discard)
      case True
      have "\<exists>rs' fs'. attempt_loop min_diff fill fec rs before rest = Some (rs', fs') \<and> list_all rec_inv rs' \<and>
        length rs' \<le> kMaxTrackedMediaPackets \<and> list_all fec_inv fs' \<and> length fs' \<le> length (before @ rest) \<and>
        (\<forall>f \<in> set fs'. 1 < NumCoveredPacketsMissing f)"
        using "2.IH"(3) [OF refl other d True] "2.prems" all by simp
      then show ?thesis using other d True by (auto simp: Let_def intro: le_SucI)
    next
      case False
      then have "1 < NumCoveredPacketsMissing f" using other d by (cases "NumCoveredPacketsMissing f = 0") auto
      then have "\<exists>rs' fs'. attempt_loop min_diff fill fec rs (before @ [f]) rest = Some (rs', fs') \<and> list_all rec_inv rs' \<and>
        length rs' \<le> kMaxTrackedMediaPackets \<and> list_all fec_inv fs' \<and> length fs' \<le> length ((before @ [f]) @ rest) \<and>
        (\<forall>f \<in> set fs'. 1 < NumCoveredPacketsMissing f)"
        using "2.IH"(4) [OF refl other d False] "2.prems" by simp
      then show ?thesis using other d False by (auto simp: Let_def)
    qed
  qed
qed simp

lemma InsertPacket_inv:
  assumes "dec_inv rs fec" "rcv_ok r"
  shows "\<exists>rs' fec'. InsertPacket min_diff r rs fec = Some (rs', fec') \<and> dec_inv rs' fec'"
proof -
  define fec0 where "fec0 = (if received_fec_packets fec \<noteq> [] \<and> rcv_ssrc r = fec_ssrc (hd (received_fec_packets fec))
        then fec\<lparr>received_fec_packets := dropWhile (\<lambda>p. min_diff (rcv_seq_num r) (fec_seq_num p) > kOldSequenceThreshold)
                (received_fec_packets fec)\<rparr> else fec)"
  have fec0: "dec_inv rs fec0"
    using assms(1) length_dropWhile_le [of "\<lambda>p. min_diff (rcv_seq_num r) (fec_seq_num p) > kOldSequenceThreshold" "received_fec_packets fec"]
    by (auto simp: fec0_def dec_inv_def list_all_iff dest: set_dropWhileD)
  obtain rs1 fec1 where s1: "(if is_fec r then do { fec \<leftarrow> InsertFecPacket rs r fec0; Some (rs, fec) } else InsertMediaPacket rs r fec0) = Some (rs1, fec1)"
      "list_all rec_inv rs1" "dec_inv [] fec1"
  proof (cases "is_fec r")
    case True
    obtain fec' where "InsertFecPacket rs r fec0 = Some fec'" "dec_inv rs fec'" using InsertFecPacket_inv [OF fec0 assms(2) True] by blast
    then show thesis using that True by (simp add: dec_inv_def)
  next
    case False
    then show thesis using InsertMediaPacket_inv [OF fec0 assms(2) False] that by auto
  qed
  obtain rs2 where "DiscardOldRecoveredPackets fec1 rs1 = Some rs2" "list_all rec_inv rs2" "length rs2 \<le> kMaxTrackedMediaPackets"
    using Discard_inv [OF s1(2), of fec1] s1(3) by (auto simp: dec_inv_def)
  then show ?thesis using s1(1,3) unfolding InsertPacket_def Let_def fec0_def [symmetric]
    by (simp only: bind.bind_lunit prod.case) (simp add: dec_inv_def)
qed

lemma DecodeFec_inv:
  assumes "dec_inv rs fec" "rcv_ok r"
  shows "\<exists>rs' fec'. DecodeFec min_diff fill r rs fec = Some (rs', fec') \<and> dec_inv rs' fec' \<and>
    (\<forall>f \<in> set (received_fec_packets fec'). 1 < NumCoveredPacketsMissing f)"
proof -
  have reader: "header_reader fec = reader" using assms(1) by (simp add: dec_inv_def)
  obtain rs0 fec0 where s0: "(if length rs = reader_MaxMediaPackets (header_reader fec) then do {
          dcheck (rs \<noteq> []);
          let back_recovered_packet = last rs;
          if rcv_ssrc r = rec_ssrc back_recovered_packet \<and>
             unat (min_diff (rcv_seq_num r) (rec_seq_num back_recovered_packet)) > reader_MaxMediaPackets (header_reader fec)
          then Some (ResetState rs fec)
          else Some (rs, fec)
        }
        else Some (rs, fec)) = Some (rs0, fec0)" "dec_inv rs0 fec0"
  proof (cases "length rs = kMaxTrackedMediaPackets")
    case True
    then have "rs \<noteq> []" by (auto simp: kMaxTrackedMediaPackets_def kMaxMediaPackets_def)
    then show thesis using that True assms(1) reader limits
      by (cases "rcv_ssrc r = rec_ssrc (last rs) \<and> unat (min_diff (rcv_seq_num r) (rec_seq_num (last rs))) > kMaxTrackedMediaPackets")
        (auto simp: Let_def ResetState_def dec_inv_def)
  next
    case False
    then show thesis using that assms(1) reader limits by auto
  qed
  obtain rs1 fec1 where s1: "InsertPacket min_diff r rs0 fec0 = Some (rs1, fec1)" "dec_inv rs1 fec1"
    using InsertPacket_inv [OF s0(2) assms(2)] by blast
  then obtain rs2 fs2 where s2: "attempt_loop min_diff fill fec1 rs1 [] (received_fec_packets fec1) = Some (rs2, fs2)" "list_all rec_inv rs2"
    "length rs2 \<le> kMaxTrackedMediaPackets" "list_all fec_inv fs2" "length fs2 \<le> length (received_fec_packets fec1)"
    "\<forall>f \<in> set fs2. 1 < NumCoveredPacketsMissing f"
    using attempt_loop_inv [of fec1 rs1 "[]" "received_fec_packets fec1" min_diff fill] unfolding dec_inv_def by auto
  have "DecodeFec min_diff fill r rs fec = Some (rs2, fec1\<lparr>received_fec_packets := fs2\<rparr>)"
    unfolding DecodeFec_def Let_def by (simp only: s0(1) [unfolded Let_def] s1(1) s2(1) AttemptRecovery_def bind.bind_lunit prod.case)
  moreover have "dec_inv rs2 (fec1\<lparr>received_fec_packets := fs2\<rparr>)" using s1(2) s2 by (auto simp: dec_inv_def)
  ultimately show ?thesis using s2(6) by auto
qed

end
end
