(* ===== verification/Fec_Contracts.thy ===== *)
theory Fec_Contracts
  imports Fec_Decoding
begin

text \<open>
  The contract of the decoder for the two header formats, twice each.  First for arbitrary received bytes:
  whatever an FEC packet holds, the decoder does not fault and what it recovers has the size of a packet.
  Then for packets that come from a sender: what it recovers is what was sent.
\<close>

subsection \<open>Whatever arrives\<close>

definition packet_sized :: "u16 \<Rightarrow> u8 list \<Rightarrow> bool" where
  "packet_sized s p \<longleftrightarrow> kRtpHeaderSize \<le> length p \<and> length p \<le> IP_PACKET_SIZE"

definition fec_sized :: "u32 \<Rightarrow> received_fec_packet \<Rightarrow> bool" where
  "fec_sized msrc f \<longleftrightarrow> protected_packets f \<noteq> [] \<and> (\<forall>p \<in> set (protected_packets f). prot_ssrc p = msrc) \<and> protected_ssrc f = msrc \<and>
     kRtpHeaderSize \<le> length (fec_pkt f) \<and> fec_header_size f \<le> IP_PACKET_SIZE \<and>
     (protection_length f \<le> 65535 \<or> protection_length f \<le> length (fec_pkt f)) \<and> length (fec_pkt f) < 2 ^ 32"

definition any_bytes :: "u8 list \<Rightarrow> bool" where
  "any_bytes data \<longleftrightarrow> length data < 2 ^ 32"

definition reads_safely :: "fec_header_reader \<Rightarrow> bool" where
  "reads_safely reader \<longleftrightarrow> (\<forall>f. \<exists>ret f'. ReadFecHeader reader f = Some (ret, f') \<and> (ret \<longrightarrow>
     fec_ssrc f' = fec_ssrc f \<and> length (fec_pkt f') = length (fec_pkt f) \<and> kRtpHeaderSize \<le> length (fec_pkt f') \<and>
     fec_header_size f' \<le> IP_PACKET_SIZE \<and> (protection_length f' \<le> 65535 \<or> protection_length f' \<le> length (fec_pkt f'))))"

lemma ulpfec_reads_safely: "reads_safely ulpfec_reader"
proof -
  have "\<exists>ret f'. Ulpfec_ReadFecHeader f = Some (ret, f') \<and> (ret \<longrightarrow>
     fec_ssrc f' = fec_ssrc f \<and> length (fec_pkt f') = length (fec_pkt f) \<and> kRtpHeaderSize \<le> length (fec_pkt f') \<and>
     fec_header_size f' \<le> IP_PACKET_SIZE \<and> protection_length f' \<le> 65535)" for f
  proof (cases "length (fec_pkt f) < 12")
    case True
    then show ?thesis by (auto simp: Ulpfec_ReadFecHeader_def Let_def kFecLevel0HeaderSize_def)
  next
    case False
    let ?data = "fec_pkt f"
    let ?ms = "if ?data ! 0 AND 0x40 \<noteq> 0 then 6 else 2 :: nat"
    have "UlpfecHeaderSize ?ms = Some (12 + ?ms)" by (simp add: UlpfecHeaderSize_def mask_sizes kFecLevel0HeaderSize_def)
    moreover have "copy_to ?data 2 (take 2 (drop 8 ?data)) = Some (overwrite ?data 2 (take 2 (drop 8 ?data)))"
      using False by (intro copy_to_overwrite) simp
    moreover have "unat (w :: u16) \<le> 65535" for w using unat_u16_less [of w] by simp
    ultimately show ?thesis using False
      by (auto simp: Ulpfec_ReadFecHeader_def Let_def kFecLevel0HeaderSize_def load_def mask_sizes ReadBE16_def slice_def
          kRtpHeaderSize_def IP_PACKET_SIZE_def)
  qed
  then show ?thesis unfolding reads_safely_def ulpfec_reader_def by fastforce
qed


lemma access_fits:
  "i < length data \<Longrightarrow> \<exists>data'. store data i v = Some data' \<and> length data' = length data"
  "i + 2 \<le> length data \<Longrightarrow> \<exists>w. ReadBE16 data i = Some w" "i + 2 \<le> length data \<Longrightarrow> \<exists>data'. WriteBE16 data i w2 = Some data' \<and> length data' = length data"
  "i + 4 \<le> length data \<Longrightarrow> \<exists>w. ReadBE32 data i = Some w" "i + 4 \<le> length data \<Longrightarrow> \<exists>data'. WriteBE32 data i w4 = Some data' \<and> length data' = length data"
  "i + 8 \<le> length data \<Longrightarrow> \<exists>w. ReadBE64 data i = Some w" "i + 8 \<le> length data \<Longrightarrow> \<exists>data'. WriteBE64 data i w8 = Some data' \<and> length data' = length data"
  by (auto simp: store_def ReadBE16_slice ReadBE32_slice ReadBE64_slice slice_def WriteBE16_put WriteBE32_put WriteBE64_put put_def)

lemma remove_k_bits_safe:
  assumes "20 \<le> length data"
  shows "\<exists>r. remove_k_bits data = Some r \<and> (\<forall>ms data'. r = Some (ms, data') \<longrightarrow> length data' = length data \<and> ms \<in> {2, 6, 14} \<and> 18 + ms \<le> length data)"
proof -
  obtain w d0 where w: "ReadBE16 data 18 = Some w" "WriteBE16 data 18 (push_bit 1 w) = Some d0" "length d0 = length data"
    using access_fits(2,3) [of 18 data] assms by fastforce
  show ?thesis
  proof (cases "data ! 18 AND 0x80 \<noteq> 0 \<or> length data < 24")
    case True
    then show ?thesis using w assms by (auto simp: remove_k_bits_def Let_def flexfec_sizes load_def)
  next
    case F1: False
    obtain d1 where d1: "store d0 19 (d0 ! 19 OR drop_bit 6 (d0 ! 20) AND 1) = Some d1" "length d1 = length data"
      using access_fits(1) [of 19 d0] assms w(3) by force
    obtain w1 d2 where w1: "ReadBE32 d1 20 = Some w1" "WriteBE32 d1 20 (push_bit 2 w1) = Some d2" "length d2 = length data"
      using access_fits(4,5) [of 20 d1] F1 d1(2) by fastforce
    show ?thesis
    proof (cases "d0 ! 20 AND 0x80 \<noteq> 0 \<or> length data < 32 \<or> d2 ! 24 AND 0x80 = 0")
      case True
      then show ?thesis using F1 w d1 w1 assms by (auto simp: remove_k_bits_def Let_def flexfec_sizes load_def)
    next
      case F2: False
      obtain d3 where d3: "store d2 23 (d2 ! 23 OR drop_bit 5 (d2 ! 24) AND 3) = Some d3" "length d3 = length data"
        using access_fits(1) [of 23 d2] F2 w1(3) by force
      obtain w2 d4 where w2: "ReadBE64 d3 24 = Some w2" "WriteBE64 d3 24 (push_bit 3 w2) = Some d4" "length d4 = length data"
        using access_fits(6,7) [of 24 d3] F2 d3(2) by fastforce
      then show ?thesis using F1 F2 w d1 w1 d3 assms by (auto simp: remove_k_bits_def Let_def flexfec_sizes load_def)
    qed
  qed
qed

lemma flexfec_reads_safely: "reads_safely flexfec_reader"
proof -
  have "\<exists>ret f'. Flexfec_ReadFecHeader f = Some (ret, f') \<and> (ret \<longrightarrow>
     fec_ssrc f' = fec_ssrc f \<and> length (fec_pkt f') = length (fec_pkt f) \<and> kRtpHeaderSize \<le> length (fec_pkt f') \<and>
     fec_header_size f' \<le> IP_PACKET_SIZE \<and> protection_length f' \<le> length (fec_pkt f'))" for f
  proof (cases "length (fec_pkt f) < 20")
    case True
    show ?thesis
    proof (cases "length (fec_pkt f) \<le> 18")
      case False
      then obtain ssrc base where "ReadBE32 (fec_pkt f) 12 = Some ssrc" "ReadBE16 (fec_pkt f) 16 = Some base"
        using access_fits(2) [of 16 "fec_pkt f"] access_fits(4) [of 12 "fec_pkt f"] by fastforce
      then show ?thesis using True False by (auto simp: Flexfec_ReadFecHeader_def Let_def flexfec_sizes load_def ReadBE8_def)
    qed (auto simp: Flexfec_ReadFecHeader_def flexfec_sizes)
  next
    case False
    let ?data = "fec_pkt f"
    obtain r where r: "remove_k_bits ?data = Some r" "\<forall>ms data'. r = Some (ms, data') \<longrightarrow> length data' = length ?data \<and> ms \<in> {2, 6, 14} \<and> 18 + ms \<le> length ?data"
      using remove_k_bits_safe [of ?data] False by auto
    obtain ssrc base where hdr: "ReadBE32 ?data 12 = Some ssrc" "ReadBE16 ?data 16 = Some base"
      using access_fits(2) [of 16 ?data] access_fits(4) [of 12 ?data] False by fastforce
    have ld: "load ?data 0 = Some (?data ! 0)" "ReadBE8 ?data 8 = Some (?data ! 8)" using False by (auto simp: load_def ReadBE8_def)
    have sizes: "\<not> length ?data \<le> kBaseHeaderSize + kStreamSpecificHeaderSize" "\<not> length ?data < kHeaderSizes ! 0"
      using False by (simp_all add: flexfec_sizes)
    note eval = Flexfec_ReadFecHeader_def Let_def sizes if_False ld hdr r(1) bind.bind_lunit
    show ?thesis
    proof (cases "?data ! 0 AND 0x80 \<noteq> 0 \<or> ?data ! 0 AND 0x40 \<noteq> 0 \<or> ?data ! 8 \<noteq> 1 \<or> r = None")
      case True
      then have "Flexfec_ReadFecHeader f = Some (False, f)" by (elim disjE) (simp_all only: eval option.case simp_thms if_True if_cancel)
      then show ?thesis by blast
    next
      case F: False
      then obtain ms data' where ms: "r = Some (ms, data')" by auto
      then have d: "length data' = length ?data" "ms \<in> {2, 6, 14}" "18 + ms \<le> length ?data" using r(2) by auto
      then have hs: "FlexfecHeaderSize ms = Some (18 + ms)" by (auto simp: FlexfecHeaderSize_def flexfec_sizes)
      have "Flexfec_ReadFecHeader f = Some (True, f\<lparr>fec_header_size := 18 + ms, protected_ssrc := ssrc, seq_num_base := base,
                    packet_mask_offset := kFlexfecPacketMaskOffset, packet_mask_size := ms,
                    protection_length := size_sub (length data') (18 + ms), fec_pkt := data'\<rparr>)" (is "_ = Some (True, ?g)")
        using F ms hs by (simp only: eval option.case prod.case simp_thms de_Morgan_disj if_True)
      moreover have "18 + ms \<le> 1500" using d(2) by auto
      moreover have "length (fec_pkt ?g) = length ?data" "fec_header_size ?g = 18 + ms" "fec_ssrc ?g = fec_ssrc f"
        "protection_length ?g \<le> length (fec_pkt ?g)" using d by simp_all
      moreover have "kRtpHeaderSize \<le> length ?data" using False by (simp add: kRtpHeaderSize_def)
      ultimately show ?thesis unfolding IP_PACKET_SIZE_def by metis
    qed
  qed
  then show ?thesis unfolding reads_safely_def flexfec_reader_def by fastforce
qed


lemma fec_decoding_any:
  assumes "reads_safely reader" "reader_MaxMediaPackets reader = kMaxTrackedMediaPackets" "reader_MaxFecPackets reader = kMaxFecPackets"
  shows "fec_decoding own msrc reader packet_sized (fec_sized msrc) any_bytes"
proof
  show "reader_MaxMediaPackets reader = kMaxTrackedMediaPackets" "reader_MaxFecPackets reader = kMaxFecPackets" by fact+
  fix f :: received_fec_packet
  show "fec_sized msrc f \<Longrightarrow> protected_packets f \<noteq> [] \<and> (\<forall>p \<in> set (protected_packets f). prot_ssrc p = msrc)"
    by (simp add: fec_sized_def)
  show "\<exists>r. RecoverPacket fill f = Some r \<and> (\<forall>p. r = Some p \<longrightarrow> rec_ssrc p = msrc \<and> packet_sized (rec_seq_num p) (rec_pkt p))"
    if f: "fec_sized msrc (forget f)" "\<forall>p \<in> set (protected_packets f). \<forall>q. prot_pkt p = Some q \<longrightarrow> packet_sized (prot_seq_num p) q"
      "NumCoveredPacketsMissing f = 1" for fill
  proof -
    obtain ys q zs where q: "protected_packets f = ys @ q # zs" "prot_pkt q = None" "\<forall>p \<in> set (ys @ zs). prot_pkt p \<noteq> None"
      using one_missing [OF f(3)] by blast
    have seq: "\<forall>p \<in> set ps. prot_pkt p \<noteq> None \<Longrightarrow> missing_seq ps s = s" for ps s by (induction ps arbitrary: s) auto
    have "missing_seq (protected_packets f) None = Some (prot_seq_num q)" using q seq by (simp add: missing_seq_append)
    then show ?thesis using RecoverPacket_safe [of f "prot_seq_num q" fill] f(1,2) by (auto simp: fec_sized_def forget_def packet_sized_def)
  qed
  assume "any_bytes (fec_pkt f)" "fec_ssrc f = own"
  then show "\<exists>ret f'. ReadFecHeader reader f = Some (ret, f') \<and> (ret \<longrightarrow> fec_ssrc f' = own \<and> (\<forall>bytes. protected_ssrc f' = msrc \<longrightarrow>
        slice (fec_pkt f') (packet_mask_offset f') (packet_mask_size f') = Some bytes \<longrightarrow>
        mask_packets msrc (seq_num_base f') bytes \<noteq> [] \<longrightarrow>
        fec_sized msrc (f'\<lparr>protected_packets := mask_packets msrc (seq_num_base f') bytes\<rparr>)))"
    using assms(1) [unfolded reads_safely_def, rule_format, of f] by (auto simp: fec_sized_def any_bytes_def mask_packets_eq)
qed

interpretation ulpfec_any: fec_decoding own msrc ulpfec_reader packet_sized "fec_sized msrc" any_bytes for own msrc
  by (rule fec_decoding_any [OF ulpfec_reads_safely]) (simp_all add: ulpfec_reader_def)

interpretation flexfec_any: fec_decoding own msrc flexfec_reader packet_sized "fec_sized msrc" any_bytes for own msrc
  by (rule fec_decoding_any [OF flexfec_reads_safely]) (simp_all add: flexfec_reader_def)

subsection \<open>When the packets are the sender's\<close>

text \<open>\<open>sent\<close> gives the media packet the sender used a sequence number for.\<close>

definition sent_packet :: "(u16 \<Rightarrow> u8 list option) \<Rightarrow> u32 \<Rightarrow> u16 \<Rightarrow> u8 list \<Rightarrow> bool" where
  "sent_packet sent msrc s p \<longleftrightarrow> sent s = Some p \<and> media_ok msrc s p"

definition fec_of_sent :: "(u16 \<Rightarrow> u8 list option) \<Rightarrow> u32 \<Rightarrow> received_fec_packet \<Rightarrow> bool" where
  "fec_of_sent sent msrc f \<longleftrightarrow> protected_ssrc f = msrc \<and> (\<exists>sp. sp \<noteq> [] \<and> parity_of (map snd sp) f \<and>
     protected_packets f = map (\<lambda>(s, p). \<lparr>prot_ssrc = msrc, prot_seq_num = s, prot_pkt = None\<rparr>) sp \<and>
     (\<forall>(s, p) \<in> set sp. sent_packet sent msrc s p))"

definition wire_of_sent :: "fec_header_reader \<Rightarrow> (u16 \<Rightarrow> u8 list option) \<Rightarrow> u32 \<Rightarrow> u32 \<Rightarrow> u8 list \<Rightarrow> bool" where
  "wire_of_sent reader sent own msrc data \<longleftrightarrow> (\<exists>sp. fec_carries reader own msrc sp data \<and> (\<forall>(s, p) \<in> set sp. sent_packet sent msrc s p))"

lemma linked_forget:
  assumes "map (\<lambda>p. p\<lparr>prot_pkt := None\<rparr>) ps = map (\<lambda>(s, p). \<lparr>prot_ssrc = msrc, prot_seq_num = s, prot_pkt = None\<rparr>) sp"
    "\<forall>(s, p) \<in> set sp. sent_packet sent msrc s p" "\<forall>p \<in> set ps. \<forall>q. prot_pkt p = Some q \<longrightarrow> sent_packet sent msrc (prot_seq_num p) q"
  shows "linked msrc ps sp"
  using assms
proof (induction ps arbitrary: sp)
  case (Cons p ps)
  then obtain s q sp' where sp: "sp = (s, q) # sp'" by (cases sp) auto
  then have "p\<lparr>prot_pkt := None\<rparr> = \<lparr>prot_ssrc = msrc, prot_seq_num = s, prot_pkt = None\<rparr>" using Cons.prems(1) by simp
  then have "prot_ssrc (p\<lparr>prot_pkt := None\<rparr>) = msrc" "prot_seq_num (p\<lparr>prot_pkt := None\<rparr>) = s" by simp_all
  then have p: "prot_ssrc p = msrc" "prot_seq_num p = s" by simp_all
  then have "prot_pkt p = None \<or> prot_pkt p = Some q" using Cons.prems(2,3) sp by (cases "prot_pkt p") (auto simp: sent_packet_def)
  then show ?case using Cons.IH [of sp'] Cons.prems p sp by (auto simp: linked_def)
qed (simp add: linked_def)

lemma RecoverPacket_sent:
  assumes "fec_of_sent sent msrc (forget f)" "\<forall>p \<in> set (protected_packets f). \<forall>q. prot_pkt p = Some q \<longrightarrow> sent_packet sent msrc (prot_seq_num p) q"
    "protected_packets f = ys @ q # zs" "prot_pkt q = None" "\<forall>p \<in> set (ys @ zs). prot_pkt p \<noteq> None"
  shows "\<exists>r. RecoverPacket fill f = Some (Some r) \<and> rec_ssrc r = msrc \<and> rec_seq_num r = prot_seq_num q \<and> sent_packet sent msrc (rec_seq_num r) (rec_pkt r)"
proof -
  obtain sp where sp: "parity_of (map snd sp) f" "\<forall>(s, p) \<in> set sp. sent_packet sent msrc s p" "protected_ssrc f = msrc"
      "map (\<lambda>p. p\<lparr>prot_pkt := None\<rparr>) (protected_packets f) = map (\<lambda>(s, p). \<lparr>prot_ssrc = msrc, prot_seq_num = s, prot_pkt = None\<rparr>) sp"
    using assms(1) unfolding fec_of_sent_def forget_def parity_of_def by auto
  have "\<forall>(s, p) \<in> set sp. media_ok msrc s p" using sp(2) by (auto simp: sent_packet_def)
  then show ?thesis using RecoverPacket_parity [OF assms(3-5) sp(3) linked_forget [OF sp(4,2) assms(2)] sp(1), of fill] sp(2) by force
qed

lemma fec_decoding_sent:
  assumes "reader_MaxMediaPackets reader = kMaxTrackedMediaPackets" "reader_MaxFecPackets reader = kMaxFecPackets"
  shows "fec_decoding own msrc reader (sent_packet sent msrc) (fec_of_sent sent msrc) (wire_of_sent reader sent own msrc)"
proof
  show "reader_MaxMediaPackets reader = kMaxTrackedMediaPackets" "reader_MaxFecPackets reader = kMaxFecPackets" by fact+
  fix f :: received_fec_packet
  show "fec_of_sent sent msrc f \<Longrightarrow> protected_packets f \<noteq> [] \<and> (\<forall>p \<in> set (protected_packets f). prot_ssrc p = msrc)"
    by (auto simp: fec_of_sent_def)
  show "\<exists>r. RecoverPacket fill f = Some r \<and> (\<forall>p. r = Some p \<longrightarrow> rec_ssrc p = msrc \<and> sent_packet sent msrc (rec_seq_num p) (rec_pkt p))"
    if f: "fec_of_sent sent msrc (forget f)" "\<forall>p \<in> set (protected_packets f). \<forall>q. prot_pkt p = Some q \<longrightarrow> sent_packet sent msrc (prot_seq_num p) q"
      "NumCoveredPacketsMissing f = 1" for fill
  proof -
    obtain ys q zs where q: "protected_packets f = ys @ q # zs" "prot_pkt q = None" "\<forall>p \<in> set (ys @ zs). prot_pkt p \<noteq> None"
      using one_missing [OF f(3)] by blast
    from RecoverPacket_sent [OF f(1,2) q, of fill] show ?thesis by auto
  qed
  assume a: "wire_of_sent reader sent own msrc (fec_pkt f)" "fec_ssrc f = own"
  then obtain sp where sp: "fec_carries reader own msrc sp (fec_pkt f)" "\<forall>(s, p) \<in> set sp. sent_packet sent msrc s p"
    by (auto simp: wire_of_sent_def)
  then obtain f' bytes where f': "ReadFecHeader reader f = Some (True, f')" "fec_ssrc f' = own" "protected_ssrc f' = msrc"
      "slice (fec_pkt f') (packet_mask_offset f') (packet_mask_size f') = Some bytes"
      "mask_packets msrc (seq_num_base f') bytes = map (\<lambda>(s, p). \<lparr>prot_ssrc = msrc, prot_seq_num = s, prot_pkt = None\<rparr>) sp"
      "parity_of (map snd sp) f'"
    using a(2) unfolding fec_carries_def by blast
  have "parity_of (map snd sp) (f'\<lparr>protected_packets := ps\<rparr>)" for ps using f'(6) by (simp add: parity_of_def)
  then show "\<exists>ret f'. ReadFecHeader reader f = Some (ret, f') \<and> (ret \<longrightarrow> fec_ssrc f' = own \<and> (\<forall>bytes. protected_ssrc f' = msrc \<longrightarrow>
        slice (fec_pkt f') (packet_mask_offset f') (packet_mask_size f') = Some bytes \<longrightarrow>
        mask_packets msrc (seq_num_base f') bytes \<noteq> [] \<longrightarrow>
        fec_of_sent sent msrc (f'\<lparr>protected_packets := mask_packets msrc (seq_num_base f') bytes\<rparr>)))"
    using f' sp(2) unfolding fec_of_sent_def by fastforce
qed

interpretation ulpfec_sent: fec_decoding own msrc ulpfec_reader "sent_packet sent msrc" "fec_of_sent sent msrc"
    "wire_of_sent ulpfec_reader sent own msrc" for sent own msrc
  by (rule fec_decoding_sent) (simp_all add: ulpfec_reader_def)

interpretation flexfec_sent: fec_decoding own msrc flexfec_reader "sent_packet sent msrc" "fec_of_sent sent msrc"
    "wire_of_sent flexfec_reader sent own msrc" for sent own msrc
  by (rule fec_decoding_sent) (simp_all add: flexfec_reader_def)

end
