(* ===== verification/Fec_Session.thy ===== *)
theory Fec_Session
  imports Fec_Contracts
begin

text \<open>
  Sessions: a receiver is given one packet after the other (\<open>decode_all\<close>).  The FEC packets of a session
  are those some encoder has generated for blocks of the media packets that were sent (\<open>fec_of_block\<close>).
\<close>

subsection \<open>A sequence of arrivals\<close>

fun decode_all ::
    "(u16 \<Rightarrow> u16 \<Rightarrow> u16) \<Rightarrow> (nat \<Rightarrow> u8) \<Rightarrow> fec_received_packet list \<Rightarrow> recovered_packet list \<Rightarrow> forward_error_correction \<Rightarrow>
      (recovered_packet list \<times> forward_error_correction) option" where
  "decode_all min_diff fill [] recovered_packets fec = Some (recovered_packets, fec)"
| "decode_all min_diff fill (r # rs) recovered_packets fec = do {
     (recovered_packets, fec) \<leftarrow> DecodeFec min_diff fill r recovered_packets fec;
     decode_all min_diff fill rs recovered_packets fec
   }"

context fec_decoding
begin

lemma decode_all_inv:
  assumes "dec_inv rs fec" "\<forall>r \<in> set as. rcv_ok r" "\<forall>f \<in> set (received_fec_packets fec). 1 < NumCoveredPacketsMissing f"
  shows "\<exists>rs' fec'. decode_all min_diff fill as rs fec = Some (rs', fec') \<and> dec_inv rs' fec' \<and>
    (\<forall>f \<in> set (received_fec_packets fec'). 1 < NumCoveredPacketsMissing f)"
  using assms
proof (induction as arbitrary: rs fec)
  case (Cons a as)
  obtain rs1 fec1 where s: "DecodeFec min_diff fill a rs fec = Some (rs1, fec1)" "dec_inv rs1 fec1"
      "\<forall>f \<in> set (received_fec_packets fec1). 1 < NumCoveredPacketsMissing f"
    using DecodeFec_inv [of rs fec a min_diff fill] Cons.prems by auto
  then show ?case using Cons.IH [OF s(2) _ s(3)] Cons.prems(2) by auto
qed simp

lemma decode_all_new:
  assumes "\<forall>r \<in> set as. rcv_ok r"
  shows "\<exists>rs fec. decode_all min_diff fill as [] (ForwardErrorCorrection fill' reader writer own msrc) = Some (rs, fec) \<and>
    (\<forall>f \<in> set (received_fec_packets fec). 1 < NumCoveredPacketsMissing f) \<and>
    length rs \<le> kMaxTrackedMediaPackets \<and> length (received_fec_packets fec) \<le> kMaxFecPackets \<and>
    (\<forall>r \<in> set rs. rec_ssrc r = msrc \<and> pkt_ok (rec_seq_num r) (rec_pkt r))"
proof -
  let ?fec = "ForwardErrorCorrection fill' reader writer own msrc"
  have "dec_inv [] ?fec" "received_fec_packets ?fec = []" by (simp_all add: dec_inv_def ForwardErrorCorrection_def)
  with decode_all_inv [of "[]" ?fec as min_diff fill] assms show ?thesis by (auto simp: dec_inv_def rec_inv_def list_all_iff)
qed

end

subsection \<open>Packets of a sender\<close>

lemma encoder_inv_new: "kMaxFecPackets \<le> writer_MaxFecPackets writer \<Longrightarrow> encoder_inv (ForwardErrorCorrection fill reader writer ssrc media_ssrc)"
  by (simp add: encoder_inv_def ForwardErrorCorrection_def kUlpfecMaxMediaPackets_def kUlpfecMaxPacketMaskSize_def
      kUlpfecPacketMaskSizeLBitSet_def)

text \<open>A block of media packets the encoder is able to protect.\<close>

definition media_block :: "(u16 \<Rightarrow> u8 list option) \<Rightarrow> u32 \<Rightarrow> u16 list \<Rightarrow> u8 list list \<Rightarrow> bool" where
  "media_block sent msrc seqs ps \<longleftrightarrow> length seqs = length ps \<and> media_seqs seqs \<and>
     seq_offset seqs (length seqs - 1) < kMaxMediaPackets \<and> (\<forall>i < length ps. sent_packet sent msrc (seqs ! i) (ps ! i))"

definition fec_of_block :: "fec_header_writer \<Rightarrow> (u16 \<Rightarrow> u8 list option) \<Rightarrow> u32 \<Rightarrow> u8 list \<Rightarrow> bool" where
  "fec_of_block writer sent msrc data \<longleftrightarrow> (\<exists>fill seqs ps pf imp uep mask_type fec out fec'.
     media_block sent msrc seqs ps \<and> encoder_inv fec \<and> header_writer fec = writer \<and>
     EncodeFec fill ps pf imp uep mask_type fec = Some (0, out, fec') \<and> data \<in> packet_bytes ` set out)"

lemma media_block_parse:
  assumes "media_block sent msrc seqs ps"
  shows "map ParseSequenceNumber ps = map Some seqs" "ParseSsrc (hd ps) = Some msrc" "ps \<noteq> []"
    "\<forall>p \<in> set ps. kRtpHeaderSize \<le> length p \<and> length p \<le> IP_PACKET_SIZE - 20"
proof -
  have ok: "media_ok msrc (seqs ! i) (ps ! i)" if "i < length ps" for i using assms that by (simp add: media_block_def sent_packet_def)
  show ne: "ps \<noteq> []" using assms by (auto simp: media_block_def media_seqs_def)
  show "map ParseSequenceNumber ps = map Some seqs" using assms ok by (intro nth_equalityI) (auto simp: media_block_def media_ok_def)
  show "ParseSsrc (hd ps) = Some msrc" using ok [of 0] ne by (simp add: hd_conv_nth media_ok_def)
  show "\<forall>p \<in> set ps. kRtpHeaderSize \<le> length p \<and> length p \<le> IP_PACKET_SIZE - 20" using ok by (force simp: in_set_conv_nth media_ok_def)
qed

lemma EncodeFec_args:
  assumes "EncodeFec fill ps pf imp uep mask_type fec = Some (0, out, fec')" "out \<noteq> []"
  shows "\<exists>f. NumFecPackets (length ps) (unat pf) = Some f \<and> 0 < f \<and> imp \<le> length ps"
  using assms by (auto simp: EncodeFec_def Let_def bind_eq_Some_conv dcheck_eq_Some split: if_splits)

context fec_header_codec
begin

lemma fec_of_block_carries:
  assumes "fec_of_block writer sent msrc data" "writer_MaxMediaPackets writer = kMaxMediaPackets" "owner msrc own = msrc"
  shows "wire_of_sent reader sent own msrc data"
proof -
  obtain fill seqs ps pf imp uep mask_type fec out fec' where b: "media_block sent msrc seqs ps" "encoder_inv fec" "header_writer fec = writer"
      "EncodeFec fill ps pf imp uep mask_type fec = Some (0, out, fec')" "data \<in> packet_bytes ` set out"
    using assms(1) unfolding fec_of_block_def by blast
  have "out \<noteq> []" using b(5) by auto
  then obtain f where f: "NumFecPackets (length ps) (unat pf) = Some f" "0 < f" "imp \<le> length ps" using EncodeFec_args [OF b(4)] by blast
  note m = media_block_parse [OF b(1)]
  have sq: "media_seqs seqs" "seq_offset seqs (length seqs - 1) < kMaxMediaPackets" using b(1) unfolding media_block_def by blast+
  obtain rows out1 fec1 where rows1: "EncodeFec fill ps pf imp uep mask_type fec = Some (0, out1, fec1)" "length out1 = f"
      "\<forall>r < f. rows ! r \<noteq> [] \<and> sorted_wrt (<) (rows ! r) \<and> set (rows ! r) \<subseteq> {..<length ps}"
      "\<forall>r < f. \<forall>src. fec_carries reader src (owner msrc src) (map (\<lambda>i. (seqs ! i, ps ! i)) (rows ! r)) (packet_bytes (out1 ! r))"
    using EncodeFec_spec [OF b(2,3) assms(2) m(1) sq m(4,2) f, of fill uep mask_type] by blast
  then have rows: "length out = f" "\<forall>r < f. set (rows ! r) \<subseteq> {..<length ps}"
      "\<forall>r < f. fec_carries reader own (owner msrc own) (map (\<lambda>i. (seqs ! i, ps ! i)) (rows ! r)) (packet_bytes (out ! r))"
    using b(4) by auto
  obtain r where r: "r < f" "data = packet_bytes (out ! r)" using b(5) rows(1) by (auto simp: in_set_conv_nth)
  have "\<forall>(s, p) \<in> set (map (\<lambda>i. (seqs ! i, ps ! i)) (rows ! r)). sent_packet sent msrc s p"
    using b(1) rows(2) r(1) by (auto simp: media_block_def)
  moreover have "fec_carries reader own msrc (map (\<lambda>i. (seqs ! i, ps ! i)) (rows ! r)) data" using rows(3) r assms(3) by simp
  ultimately show ?thesis unfolding wire_of_sent_def by blast
qed

end

end
