(* ===== verification/Fec_Completeness.thy ===== *)
theory Fec_Completeness
  imports Fec_Session
begin

text \<open>
  Recovery is complete: a receiver finds every packet that it can.  This rests on the order of the lists
  the decoder keeps: while all sequence numbers lie in a window of 2^14, the comparison of the code is the
  order of the distances from the start of the window, \<^verbatim>\<open>sort\<close> keeps the list of recovered packets sorted,
  \<^verbatim>\<open>lower_bound\<close> finds a packet if it is there, and the merge in \<^verbatim>\<open>AssignRecoveredPackets\<close> links all common
  packets.  Then every FEC packet that has arrived is held, with links to all packets that are there, or
  all its packets are there.
\<close>

subsection \<open>Sequence numbers in a window\<close>

definition in_window :: "u16 \<Rightarrow> u16 \<Rightarrow> bool" where
  "in_window base s \<longleftrightarrow> unat (s - base) < 0x4000"

lemma window_diff:
  assumes "unat (s - base) \<le> unat (t - base)"
  shows "unat (t - s) = unat (t - base) - unat (s - base)"
proof -
  have "(t - base) - (s - base) = t - s" by simp
  moreover have "unat ((t - base) - (s - base)) = unat (t - base) - unat (s - base)"
    using assms by (intro unat_sub) (simp add: word_le_nat_alt)
  ultimately show ?thesis by (simp only:)
qed

lemma window_inj: "unat (s - base) = unat (t - base) \<longleftrightarrow> s = (t :: u16)"
  by (metis diff_add_cancel word_unat_eq_iff)

lemma window_newer:
  assumes "in_window base s" "in_window base t"
  shows "IsNewerSequenceNumber t s \<longleftrightarrow> unat (s - base) < unat (t - base)"
proof -
  have newer: "IsNewerSequenceNumber b a" if "in_window base a" "in_window base b" "unat (a - base) < unat (b - base)" for a b
  proof -
    have "0 < unat (b - a)" "unat (b - a) < 2 ^ (LENGTH(16) - 1)" using window_diff [of a base b] that by (auto simp: in_window_def)
    from IsNewer_add [OF this, of a] show ?thesis by (simp add: IsNewerSequenceNumber_def)
  qed
  show ?thesis
    using newer [OF assms] newer [OF assms(2,1)] IsNewer_asym [of t s] IsNewer_asym [of t t] window_inj [of s base t]
    unfolding IsNewerSequenceNumber_def by (metis linorder_neqE_nat)
qed

lemma window_not_old:
  assumes "in_window base s" "in_window base t"
  shows "\<not> min (s - t) (t - s) > kOldSequenceThreshold"
proof -
  have "unat (s - t) < 0x4000 \<or> unat (t - s) < 0x4000"
    using window_diff [of s base t] window_diff [of t base s] assms unfolding in_window_def by linarith
  then have "s - t \<le> 0x3fff \<or> t - s \<le> 0x3fff" by (auto simp: word_le_nat_alt)
  then show ?thesis by (auto simp: kOldSequenceThreshold_def min_def not_less)
qed

subsection \<open>Sorted lists\<close>

definition seq_sorted :: "u16 \<Rightarrow> u16 list \<Rightarrow> bool" where
  "seq_sorted base ss \<longleftrightarrow> list_all (in_window base) ss \<and> sorted_wrt (\<lambda>s t. unat (s - base) < unat (t - base)) ss"

lemma seq_sorted_Nil [simp]: "seq_sorted base []"
  by (simp add: seq_sorted_def)

lemma seq_sorted_Cons:
  "seq_sorted base (s # ss) \<longleftrightarrow> in_window base s \<and> (\<forall>t \<in> set ss. unat (s - base) < unat (t - base)) \<and> seq_sorted base ss"
  by (auto simp: seq_sorted_def)

lemma seq_sorted_append:
  "seq_sorted base (ss @ ts) \<longleftrightarrow> seq_sorted base ss \<and> seq_sorted base ts \<and> (\<forall>s \<in> set ss. \<forall>t \<in> set ts. unat (s - base) < unat (t - base))"
  by (auto simp: seq_sorted_def sorted_wrt_append)

lemma seq_sorted_distinct: "seq_sorted base ss \<Longrightarrow> distinct ss"
  by (induction ss) (auto simp: seq_sorted_def)

lemma insert_by_sorted:
  assumes "seq_sorted base (map (snd \<circ> key) ys)" "in_window base (snd (key x))" "snd (key x) \<notin> (snd \<circ> key) ` set ys"
  shows "seq_sorted base (map (snd \<circ> key) (insert_by key x ys))"
  using assms
proof (induction ys)
  case (Cons y ys)
  let ?u = "\<lambda>z. unat (snd (key z) - base)"
  have y: "in_window base (snd (key y))" "\<forall>z \<in> set ys. ?u y < ?u z" using Cons.prems(1) by (auto simp: seq_sorted_Cons)
  have n: "IsNewerSequenceNumber (snd (key y)) (snd (key x)) \<longleftrightarrow> ?u x < ?u y" using window_newer [OF Cons.prems(2) y(1)] .
  have "?u x \<noteq> ?u y" using Cons.prems(3) by (auto simp: window_inj)
  with Cons n y show ?case by (auto simp: seq_sorted_Cons insert_by_set)
qed (simp add: seq_sorted_def)

lemma insert_by_last:
  assumes "seq_sorted base (map (snd \<circ> key) (ys @ [x]))"
  shows "insert_by key x ys = ys @ [x]"
  using assms
proof (induction ys)
  case (Cons y ys)
  have "in_window base (snd (key y))" "in_window base (snd (key x))" "unat (snd (key y) - base) < unat (snd (key x) - base)"
    using Cons.prems by (auto simp: seq_sorted_Cons seq_sorted_append)
  then have "\<not> IsNewerSequenceNumber (snd (key y)) (snd (key x))" by (simp add: window_newer)
  with Cons show ?case by (simp add: seq_sorted_Cons)
qed simp

lemma foldl_insert_sorted:
  "seq_sorted base (map (snd \<circ> key) (zs @ ys)) \<Longrightarrow> foldl (\<lambda>ys x. insert_by key x ys) zs ys = zs @ ys"
proof (induction ys arbitrary: zs)
  case (Cons y ys)
  have "seq_sorted base (map (snd \<circ> key) (zs @ [y]))" using Cons.prems by (auto simp: seq_sorted_append seq_sorted_Cons comp_def)
  from insert_by_last [OF this] show ?case using Cons.IH [of "zs @ [y]"] Cons.prems by simp
qed simp

lemma sort_packets_insert:
  assumes "sort_packets key (ys @ [x]) = Some zs" "seq_sorted base (map (snd \<circ> key) ys)" "in_window base (snd (key x))"
    "snd (key x) \<notin> (snd \<circ> key) ` set ys"
  shows "seq_sorted base (map (snd \<circ> key) zs)" "set zs = insert x (set ys)"
proof -
  have "foldl (\<lambda>ys x. insert_by key x ys) [] ys = ys" using foldl_insert_sorted [of base key "[]" ys] assms(2) by simp
  then have "zs = insert_by key x ys" using assms(1) by (simp add: sort_packets_def bind_eq_Some_conv)
  then show "seq_sorted base (map (snd \<circ> key) zs)" "set zs = insert x (set ys)"
    using insert_by_sorted [OF assms(2-4)] by (simp_all add: insert_by_set)
qed

subsection \<open>Searching and linking\<close>

lemma lower_bound_sorted:
  assumes "lower_bound ps key first count = Some i" "seq_sorted base (map prot_seq_num ps)" "in_window base (snd key)"
    "first + count \<le> length ps" "\<forall>j < first. unat (prot_seq_num (ps ! j) - base) < unat (snd key - base)"
    "\<forall>j < length ps. first + count \<le> j \<longrightarrow> unat (snd key - base) \<le> unat (prot_seq_num (ps ! j) - base)"
  shows "i \<le> length ps \<and> (\<forall>j < i. unat (prot_seq_num (ps ! j) - base) < unat (snd key - base)) \<and>
    (\<forall>j < length ps. i \<le> j \<longrightarrow> unat (snd key - base) \<le> unat (prot_seq_num (ps ! j) - base))"
  using assms
proof (induction ps key first count rule: lower_bound.induct)
  case (1 ps key first count)
  let ?u = "\<lambda>s. unat (s - base)" and ?m = "first + count div 2"
  have mono: "?u (prot_seq_num (ps ! j)) \<le> ?u (prot_seq_num (ps ! k))" if "j \<le> k" "k < length ps" for j k
    using "1.prems"(2) that by (cases "j = k") (auto simp: seq_sorted_def sorted_wrt_iff_nth_less intro: less_imp_le)
  show ?case
  proof (cases "count = 0")
    case True
    then show ?thesis using "1.prems" by (simp add: lower_bound.simps)
  next
    case False
    have m: "?m < length ps" using False "1.prems"(4) by simp
    have w: "in_window base (prot_seq_num (ps ! ?m))" using "1.prems"(2) m by (simp add: seq_sorted_def list_all_length)
    from "1.prems"(1) False m obtain lt where lt: "LessThan (prot_key (ps ! ?m)) key = Some lt"
        "(if lt then lower_bound ps key (?m + 1) (count - (count div 2 + 1)) else lower_bound ps key first (count div 2)) = Some i"
      by (subst (asm) lower_bound.simps) (auto simp: Let_def bind_eq_Some_conv)
    have l: "lt \<longleftrightarrow> ?u (prot_seq_num (ps ! ?m)) < ?u (snd key)"
      using lt(1) window_newer [OF w "1.prems"(3)] by (auto simp: LessThan_def prot_key_def bind_eq_Some_conv)
    show ?thesis
    proof (cases lt)
      case True
      have "\<forall>j < ?m + 1. ?u (prot_seq_num (ps ! j)) < ?u (snd key)"
        using mono [of _ ?m] m l True by (auto simp: less_Suc_eq_le intro: le_less_trans)
      moreover have "?m + 1 + (count - (count div 2 + 1)) = first + count" using False by simp
      ultimately show ?thesis using "1.IH"(1) [OF False refl _ lt(1) True] lt(2) True m "1.prems" by simp
    next
      case ge: False
      have "\<forall>j < length ps. ?m \<le> j \<longrightarrow> ?u (snd key) \<le> ?u (prot_seq_num (ps ! j))"
        using mono [of ?m] l ge by (meson le_trans not_less)
      then show ?thesis using "1.IH"(2) [OF False refl _ lt(1) ge] lt(2) ge m "1.prems" by simp
    qed
  qed
qed

definition linked_to :: "u16 set \<Rightarrow> protected_packet list \<Rightarrow> bool" where
  "linked_to R ps \<longleftrightarrow> (\<forall>p \<in> set ps. prot_pkt p \<noteq> None \<longleftrightarrow> prot_seq_num p \<in> R)"

lemma update_covering_linked:
  assumes "update_covering r f = Some f'" "seq_sorted base (map prot_seq_num (protected_packets f))" "in_window base (rec_seq_num r)"
    "linked_to R (protected_packets f)"
  shows "fec_seq_num f' = fec_seq_num f" "map prot_seq_num (protected_packets f') = map prot_seq_num (protected_packets f)"
    "linked_to (insert (rec_seq_num r) R) (protected_packets f')"
proof -
  let ?ps = "protected_packets f" and ?t = "rec_seq_num r"
  obtain i where i: "lower_bound ?ps (rec_key r) 0 (length ?ps) = Some i"
      "f' = (if i < length ?ps \<and> prot_seq_num (?ps ! i) = ?t
        then f\<lparr>protected_packets := ?ps[i := (?ps ! i)\<lparr>prot_pkt := Some (rec_pkt r)\<rparr>]\<rparr> else f)"
    using assms(1) by (auto simp: update_covering_def Let_def bind_eq_Some_conv split: if_splits)
  have b: "\<forall>j < i. unat (prot_seq_num (?ps ! j) - base) < unat (?t - base)"
    "\<forall>j < length ?ps. i \<le> j \<longrightarrow> unat (?t - base) \<le> unat (prot_seq_num (?ps ! j) - base)"
    using lower_bound_sorted [OF i(1) assms(2)] assms(3) by (simp_all add: rec_key_def)
  have dist: "distinct (map prot_seq_num ?ps)" using seq_sorted_distinct [OF assms(2)] .
  show "fec_seq_num f' = fec_seq_num f" using i(2) by simp
  show "map prot_seq_num (protected_packets f') = map prot_seq_num ?ps"
    using i(2) by (auto simp: map_update list_update_id intro: list_update_same_conv [THEN iffD2])
  show "linked_to (insert ?t R) (protected_packets f')"
  proof (cases "i < length ?ps \<and> prot_seq_num (?ps ! i) = ?t")
    case True
    have "prot_pkt p \<noteq> None \<longleftrightarrow> prot_seq_num p \<in> insert ?t R" if "p \<in> set (?ps[i := (?ps ! i)\<lparr>prot_pkt := Some (rec_pkt r)\<rparr>])" for p
    proof -
      from that obtain k where k: "k < length ?ps" "?ps[i := (?ps ! i)\<lparr>prot_pkt := Some (rec_pkt r)\<rparr>] ! k = p"
        unfolding in_set_conv_nth length_list_update by blast
      show ?thesis
      proof (cases "k = i")
        case False
        then have "prot_seq_num (?ps ! k) \<noteq> ?t" using dist True k(1) nth_eq_iff_index_eq [OF dist, of k i] by auto
        then show ?thesis using k False assms(4) by (auto simp: linked_to_def nth_list_update)
      qed (use k True in \<open>auto simp: nth_list_update\<close>)
    qed
    then show ?thesis using i(2) True by (simp add: linked_to_def)
  next
    case False
    have "?t \<notin> prot_seq_num ` set ?ps"
    proof
      assume "?t \<in> prot_seq_num ` set ?ps"
      then obtain k where k: "k < length ?ps" "prot_seq_num (?ps ! k) = ?t" by (auto simp: in_set_conv_nth)
      with b(1) have ik: "i \<le> k" by (metis not_le less_irrefl)
      with k(1) have "i < length ?ps" by simp
      with b(2) have "unat (?t - base) \<le> unat (prot_seq_num (?ps ! i) - base)" by simp
      moreover have "unat (prot_seq_num (?ps ! i) - base) \<le> unat (?t - base)"
        using assms(2) k(1) ik unfolding k(2) [symmetric]
        by (cases "i = k") (auto simp: seq_sorted_def sorted_wrt_iff_nth_less intro: less_imp_le)
      ultimately have "prot_seq_num (?ps ! i) = ?t" using window_inj by (metis le_antisym)
      with False \<open>i < length ?ps\<close> show False by simp
    qed
    then have "prot_seq_num p \<noteq> ?t" if "p \<in> set ?ps" for p using that by (metis image_eqI)
    then show ?thesis using i(2) False assms(4) by (auto simp: linked_to_def)
  qed
qed

lemma AssignRecoveredPackets_linked:
  assumes "AssignRecoveredPackets ps rs = Some ps'" "seq_sorted base (map prot_seq_num ps)" "seq_sorted base (map rec_seq_num rs)"
    "\<forall>p \<in> set ps. prot_pkt p = None"
  shows "map prot_seq_num ps' = map prot_seq_num ps \<and> linked_to (rec_seq_num ` set rs) ps'"
  using assms
proof (induction ps rs arbitrary: ps' rule: AssignRecoveredPackets.induct)
  case (3 p ps r rs)
  let ?u = "\<lambda>s. unat (s - base)"
  have w: "in_window base (prot_seq_num p)" "in_window base (rec_seq_num r)" "\<forall>q \<in> set ps. ?u (prot_seq_num p) < ?u (prot_seq_num q)"
    "\<forall>q \<in> set rs. ?u (rec_seq_num r) < ?u (rec_seq_num q)" "seq_sorted base (map prot_seq_num ps)" "seq_sorted base (map rec_seq_num rs)"
    using "3.prems"(2,3) by (auto simp: seq_sorted_Cons)
  obtain lt where lt: "LessThan (prot_key p) (rec_key r) = Some lt" using "3.prems"(1) by (auto simp: bind_eq_Some_conv)
  have l: "lt \<longleftrightarrow> ?u (prot_seq_num p) < ?u (rec_seq_num r)"
    using lt window_newer [OF w(1,2)] by (auto simp: LessThan_def prot_key_def rec_key_def bind_eq_Some_conv)
  show ?case
  proof (cases lt)
    case True
    obtain qs where qs: "AssignRecoveredPackets ps (r # rs) = Some qs" "ps' = p # qs" using "3.prems"(1) lt True by (auto simp: bind_eq_Some_conv)
    have "prot_seq_num p \<notin> rec_seq_num ` set (r # rs)" using l True w(4) by auto
    then show ?thesis using "3.IH"(1) [OF lt True qs(1) w(5) "3.prems"(3)] "3.prems"(4) qs(2) by (auto simp: linked_to_def)
  next
    case ge: False
    obtain gt where gt: "LessThan (rec_key r) (prot_key p) = Some gt" using "3.prems"(1) lt ge by (auto simp: bind_eq_Some_conv)
    have g: "gt \<longleftrightarrow> ?u (rec_seq_num r) < ?u (prot_seq_num p)"
      using gt window_newer [OF w(2,1)] by (auto simp: LessThan_def prot_key_def rec_key_def bind_eq_Some_conv)
    show ?thesis
    proof (cases gt)
      case True
      have e: "AssignRecoveredPackets (p # ps) rs = Some ps'" using "3.prems"(1) lt ge gt True by simp
      note ih = "3.IH"(2) [OF lt ge gt True e "3.prems"(2) w(6) "3.prems"(4)]
      have "prot_seq_num q \<noteq> rec_seq_num r" if "q \<in> set ps'" for q
      proof -
        have "prot_seq_num q \<in> set (map prot_seq_num (p # ps))" using ih that by (metis image_eqI set_map)
        then show ?thesis using g True w(3) by auto
      qed
      then show ?thesis using ih by (auto simp: linked_to_def)
    next
      case False
      then have eq: "prot_seq_num p = rec_seq_num r" using l g ge window_inj by (metis linorder_neqE_nat)
      obtain qs where qs: "AssignRecoveredPackets ps rs = Some qs" "ps' = p\<lparr>prot_pkt := Some (rec_pkt r)\<rparr> # qs"
        using "3.prems"(1) lt ge gt False by (auto simp: bind_eq_Some_conv)
      note ih = "3.IH"(3) [OF lt ge gt False qs(1) w(5,6)]
      have "prot_seq_num q \<noteq> rec_seq_num r" if "q \<in> set qs" for q
      proof -
        have "prot_seq_num q \<in> set (map prot_seq_num ps)" using ih "3.prems"(4) that by (metis image_eqI list.set_intros(2) set_map)
        then show ?thesis using eq w(3) by auto
      qed
      then show ?thesis using ih "3.prems"(4) qs(2) eq by (auto simp: linked_to_def)
    qed
  qed
qed (auto simp: linked_to_def)

subsection \<open>What the decoder keeps track of\<close>

text \<open>
  The list of recovered packets is sorted; every FEC packet that is held has links to exactly those of
  its packets that are in this list.  \<open>row\<close> gives the sequence numbers an FEC packet protects.
\<close>

definition tracked :: "u16 \<Rightarrow> (u16 \<Rightarrow> u16 list) \<Rightarrow> recovered_packet list \<Rightarrow> received_fec_packet list \<Rightarrow> bool" where
  "tracked base row rs fs \<longleftrightarrow> seq_sorted base (map rec_seq_num rs) \<and> distinct (map fec_seq_num fs) \<and>
     (\<forall>f \<in> set fs. map prot_seq_num (protected_packets f) = row (fec_seq_num f) \<and> linked_to (rec_seq_num ` set rs) (protected_packets f))"

lemma map_all_list_all2: "map_all f xs = Some ys \<Longrightarrow> list_all2 (\<lambda>x y. f x = Some y) xs ys"
  by (induction xs arbitrary: ys) (auto simp: bind_eq_Some_conv)

lemma tracked_new:
  assumes "tracked base row rs fs" "sort_packets rec_key (rs @ [r]) = Some rs'" "UpdateCoveringFecPackets r fs = Some fs'"
    "in_window base (rec_seq_num r)" "rec_seq_num r \<notin> rec_seq_num ` set rs" "\<forall>f \<in> set fs. seq_sorted base (row (fec_seq_num f))"
  shows "tracked base row rs' fs'" "rec_seq_num ` set rs' = insert (rec_seq_num r) (rec_seq_num ` set rs)"
    "map fec_seq_num fs' = map fec_seq_num fs"
proof -
  have key: "snd \<circ> rec_key = rec_seq_num" by (simp add: fun_eq_iff rec_key_def)
  have "seq_sorted base (map (snd \<circ> rec_key) rs)" using assms(1) unfolding key tracked_def by blast
  note sorted = sort_packets_insert [OF assms(2) this, unfolded key]
  have rs': "seq_sorted base (map rec_seq_num rs')" "set rs' = insert r (set rs)"
    using sorted assms(4,5) by (simp_all add: rec_key_def)
  then show R: "rec_seq_num ` set rs' = insert (rec_seq_num r) (rec_seq_num ` set rs)" by simp
  have l2: "list_all2 (\<lambda>f f'. update_covering r f = Some f') fs fs'"
    using assms(3) map_all_list_all2 unfolding UpdateCoveringFecPackets_def by blast
  have upd: "fec_seq_num f' = fec_seq_num f \<and> map prot_seq_num (protected_packets f') = map prot_seq_num (protected_packets f) \<and>
      linked_to (insert (rec_seq_num r) (rec_seq_num ` set rs)) (protected_packets f')"
    if "update_covering r f = Some f'" "f \<in> set fs" for f f'
    using update_covering_linked [OF that(1) _ assms(4)] that(2) assms(1,6) by (metis tracked_def)
  show m: "map fec_seq_num fs' = map fec_seq_num fs"
    using l2 upd by (intro nth_equalityI) (auto simp: list_all2_conv_all_nth)
  have "map prot_seq_num (protected_packets f') = row (fec_seq_num f') \<and> linked_to (insert (rec_seq_num r) (rec_seq_num ` set rs)) (protected_packets f')"
    if "f' \<in> set fs'" for f'
  proof -
    obtain k where "k < length fs'" "f' = fs' ! k" using \<open>f' \<in> set fs'\<close> by (auto simp: in_set_conv_nth)
    then have "fs ! k \<in> set fs" "update_covering r (fs ! k) = Some f'" using l2 by (auto simp: list_all2_conv_all_nth)
    with upd assms(1) show ?thesis by (auto simp: tracked_def)
  qed
  then show "tracked base row rs' fs'" using rs'(1) m assms(1) R by (simp add: tracked_def)
qed

text \<open>
  A schedule: the media packets that were sent and the FEC packets for them, few enough to be kept and with
  sequence numbers close enough together to be comparable.
\<close>

definition fec_schedule ::
    "fec_header_reader \<Rightarrow> u32 \<Rightarrow> u32 \<Rightarrow> (u16 \<Rightarrow> u8 list option) \<Rightarrow> (u16 \<Rightarrow> u8 list option) \<Rightarrow> (u16 \<Rightarrow> u16 list) \<Rightarrow> u16 \<Rightarrow> u16 \<Rightarrow> bool" where
  "fec_schedule reader own msrc sent fsent row mbase fbase \<longleftrightarrow>
     (\<forall>s. sent s \<noteq> None \<longrightarrow> in_window mbase s) \<and> card (dom sent) < kMaxTrackedMediaPackets \<and>
     (\<forall>s. fsent s \<noteq> None \<longrightarrow> in_window fbase s) \<and> card (dom fsent) \<le> kMaxFecPackets \<and> (own = msrc \<longrightarrow> mbase = fbase) \<and>
     (\<forall>s data. fsent s = Some data \<longrightarrow> seq_sorted mbase (row s) \<and> (\<exists>sp. sp \<noteq> [] \<and> map fst sp = row s \<and>
       fec_carries reader own msrc sp data \<and> (\<forall>(t, p) \<in> set sp. sent_packet sent msrc t p)))"

definition scheduled :: "u32 \<Rightarrow> u32 \<Rightarrow> (u16 \<Rightarrow> u8 list option) \<Rightarrow> (u16 \<Rightarrow> u8 list option) \<Rightarrow> fec_received_packet \<Rightarrow> bool" where
  "scheduled own msrc sent fsent a \<longleftrightarrow> (if is_fec a then rcv_ssrc a = own \<and> fsent (rcv_seq_num a) = Some (rcv_pkt a)
     else rcv_ssrc a = msrc \<and> sent_packet sent msrc (rcv_seq_num a) (rcv_pkt a))"

locale fec_tracker =
  fixes reader :: fec_header_reader
  assumes kept: "reader_MaxMediaPackets reader = kMaxTrackedMediaPackets" "reader_MaxFecPackets reader = kMaxFecPackets"

sublocale fec_tracker \<subseteq> sent: fec_decoding own msrc reader "sent_packet sent msrc" "fec_of_sent sent msrc"
    "wire_of_sent reader sent own msrc" for own msrc sent
  by (rule fec_decoding_sent) (fact kept)+

interpretation ulpfec_tracker: fec_tracker ulpfec_reader
  by unfold_locales (simp_all add: ulpfec_reader_def)

interpretation flexfec_tracker: fec_tracker flexfec_reader
  by unfold_locales (simp_all add: flexfec_reader_def)

context fec_tracker
begin

lemma few_recovered:
  assumes "fec_schedule reader own msrc sent fsent row mbase fbase" "list_all (sent.rec_inv msrc sent) rs" "seq_sorted mbase (map rec_seq_num rs)"
  shows "length rs < kMaxTrackedMediaPackets"
proof -
  have "set (map rec_seq_num rs) \<subseteq> dom sent" using assms(2) by (auto simp: list_all_iff sent.rec_inv_def sent_packet_def)
  then have "card (set (map rec_seq_num rs)) \<le> card (dom sent)" by (intro card_mono) simp_all
  then show ?thesis using assms(1) distinct_card [OF seq_sorted_distinct [OF assms(3)]] by (simp add: fec_schedule_def)
qed

lemma Discard_none:
  assumes "DiscardOldRecoveredPackets fec rs = Some rs'" "header_reader fec = reader" "length rs < kMaxTrackedMediaPackets"
  shows "rs' = rs"
  using assms kept by (simp add: DiscardOldRecoveredPackets_def Let_def bind_eq_Some_conv pop_front_drop)

lemma row_sorted:
  assumes "fec_schedule reader own msrc sent fsent row mbase fbase" "\<forall>f \<in> set fs. fsent (fec_seq_num f) \<noteq> None" "f \<in> set fs"
  shows "seq_sorted mbase (row (fec_seq_num f))"
  using assms unfolding fec_schedule_def by (metis not_None_eq)

end

context fec_tracker
begin

lemma attempt_loop_tracked:
  assumes sched: "fec_schedule reader own msrc sent fsent row mbase fbase" and "attempt_loop min_diff fill fec rs before rest = Some (rs', fs')" "header_reader fec = reader"
    "list_all (sent.rec_inv msrc sent) rs" "list_all (sent.fec_inv own sent msrc) (before @ rest)"
    "tracked mbase row rs (before @ rest)" "\<forall>f \<in> set (before @ rest). fsent (fec_seq_num f) \<noteq> None" "\<And>a b. min_diff a b = min (a - b) (b - a)"
  shows "tracked mbase row rs' fs' \<and> rec_seq_num ` set rs \<subseteq> rec_seq_num ` set rs' \<and>
    fec_seq_num ` set fs' \<subseteq> fec_seq_num ` set (before @ rest) \<and>
    (\<forall>s \<in> fec_seq_num ` set (before @ rest). s \<in> fec_seq_num ` set fs' \<or> set (row s) \<subseteq> rec_seq_num ` set rs')"
  using assms(2-)
proof (induction min_diff fill fec rs before rest rule: attempt_loop.induct)
  case (2 min_diff fill fec rs before f rest)
  let ?R = "rec_seq_num ` set rs"
  have f: "sent.fec_inv own sent msrc f" and all: "list_all (sent.fec_inv own sent msrc) (before @ rest)" using "2.prems"(4) by simp_all
  have link: "map prot_seq_num (protected_packets f) = row (fec_seq_num f)" "linked_to ?R (protected_packets f)"
    using "2.prems"(5) by (simp_all add: tracked_def)
  have less: "tracked mbase row rs (before @ rest)" "\<forall>f \<in> set (before @ rest). fsent (fec_seq_num f) \<noteq> None"
    using "2.prems"(5,6) by (auto simp: tracked_def)
  show ?case
  proof (cases "NumCoveredPacketsMissing f = 1")
    case one: True
    obtain ys q zs where q: "protected_packets f = ys @ q # zs" "prot_pkt q = None" "\<forall>p \<in> set (ys @ zs). prot_pkt p \<noteq> None"
      using one_missing [OF one] by blast
    obtain r where r: "RecoverPacket fill f = Some (Some r)" "sent.rec_inv msrc sent r" "rec_seq_num r = prot_seq_num q"
      using RecoverPacket_sent [OF _ _ q, of sent msrc fill] f by (auto simp: sent.fec_inv_def sent.rec_inv_def)
    have covered: "set (row (fec_seq_num f)) \<subseteq> insert (rec_seq_num r) ?R"
      using link q r(3) unfolding link(1) [symmetric] by (auto simp: linked_to_def)
    have new: "rec_seq_num r \<notin> ?R" using link(2) q(1,2) r(3) by (simp add: linked_to_def)
    obtain rs1 fs rs2 where s: "sort_packets rec_key (rs @ [r]) = Some rs1" "UpdateCoveringFecPackets r (before @ f # rest) = Some fs"
        "DiscardOldRecoveredPackets fec rs1 = Some rs2"
        "attempt_loop min_diff fill fec rs2 [] (take (length before) fs @ drop (Suc (length before)) fs) = Some (rs', fs')"
      using "2.prems"(1) one r(1) by (auto simp: Let_def bind_eq_Some_conv)
    have win: "in_window mbase (rec_seq_num r)" using r(2) sched by (auto simp: sent.rec_inv_def sent_packet_def fec_schedule_def)
    have rows: "\<forall>g \<in> set (before @ f # rest). seq_sorted mbase (row (fec_seq_num g))" using row_sorted [OF sched "2.prems"(6)] by blast
    note t = tracked_new [OF "2.prems"(5) s(1,2) win new rows]
    have inv: "list_all (sent.rec_inv msrc sent) rs1" "list_all (sent.fec_inv own sent msrc) fs"
      using sent.sort_rec [of msrc sent "rs @ [r]"] sent.UpdateCovering_inv [OF "2.prems"(4) r(2)] s(1,2) "2.prems"(3) r(2) by auto
    have rs2: "rs2 = rs1" using Discard_none [OF s(3) "2.prems"(2)] few_recovered [OF sched inv(1)] t(1) by (simp add: tracked_def)
    let ?fs = "take (length before) fs @ drop (Suc (length before)) fs"
    have l: "length fs = length (before @ f # rest)" using t(3) by (metis length_map)
    then have split: "fs = take (length before) fs @ fs ! length before # drop (Suc (length before)) fs" by (intro id_take_nth_drop) simp
    have sub: "set ?fs \<subseteq> set fs" by (auto dest: in_set_takeD in_set_dropD)
    have "map fec_seq_num (take (length before) fs) = map fec_seq_num before"
      "map fec_seq_num (drop (Suc (length before)) fs) = map fec_seq_num rest"
      using t(3) by (simp_all flip: take_map drop_map)
    then have seqs: "map fec_seq_num ?fs = map fec_seq_num (before @ rest)" by simp
    have "tracked mbase row rs1 ?fs" using t(1) less(1) sub unfolding tracked_def seqs by auto
    moreover have "\<forall>g \<in> set ?fs. fsent (fec_seq_num g) \<noteq> None" using less(2) seqs by (metis image_iff set_map)
    moreover have "list_all (sent.fec_inv own sent msrc) ?fs" using inv(2) sub by (auto simp: list_all_iff)
    ultimately have ih: "tracked mbase row rs' fs' \<and> rec_seq_num ` set rs1 \<subseteq> rec_seq_num ` set rs' \<and>
        fec_seq_num ` set fs' \<subseteq> fec_seq_num ` set ?fs \<and>
        (\<forall>s \<in> fec_seq_num ` set ?fs. s \<in> fec_seq_num ` set fs' \<or> set (row s) \<subseteq> rec_seq_num ` set rs')"
      using "2.IH"(2) [OF refl one r(1) refl s(1,2,3) s(4) "2.prems"(2)] inv(1) rs2 "2.prems"(7) by simp
    have e: "fec_seq_num ` set ?fs = fec_seq_num ` set (before @ rest)" using seqs by (metis set_map)
    have R1: "insert (rec_seq_num r) ?R \<subseteq> rec_seq_num ` set rs'" using ih unfolding t(2) by blast
    then have "set (row (fec_seq_num f)) \<subseteq> rec_seq_num ` set rs'" "?R \<subseteq> rec_seq_num ` set rs'" using covered by (blast intro: subset_trans)+
    then show ?thesis using ih unfolding e by auto
  next
    case other: False
    obtain discard where d: "(if NumCoveredPacketsMissing f = 0 then Some True else IsOldFecPacket min_diff f rs) = Some discard"
        "(if discard then attempt_loop min_diff fill fec rs before rest else attempt_loop min_diff fill fec rs (before @ [f]) rest) = Some (rs', fs')"
      using "2.prems"(1) other by (auto simp: Let_def bind_eq_Some_conv)
    show ?thesis
    proof (cases discard)
      case True
      have "NumCoveredPacketsMissing f = 0"
      proof (rule ccontr)
        assume "NumCoveredPacketsMissing f \<noteq> 0"
        then have old: "rs \<noteq> []" "min (rec_seq_num (last rs) - prot_seq_num (last (protected_packets f)))
            (prot_seq_num (last (protected_packets f)) - rec_seq_num (last rs)) > kOldSequenceThreshold"
          using d(1) True "2.prems"(7) by (auto simp: IsOldFecPacket_def bind_eq_Some_conv split: if_splits)
        have "in_window mbase (rec_seq_num (last rs))" using "2.prems"(5) old(1) by (simp add: tracked_def seq_sorted_def list_all_iff)
        moreover have "prot_seq_num (last (protected_packets f)) \<in> set (row (fec_seq_num f))"
          using sent.fec_inv_shape(1) [OF f] unfolding link(1) [symmetric] by simp
        then have "in_window mbase (prot_seq_num (last (protected_packets f)))"
          using row_sorted [OF sched "2.prems"(6), of f] by (simp add: seq_sorted_def list_all_iff)
        ultimately show False using window_not_old old(2) by blast
      qed
      then have "filter (\<lambda>p. prot_pkt p = None) (protected_packets f) = []" by (simp add: NumCoveredPacketsMissing_eq min_def split: if_splits)
      then have "set (row (fec_seq_num f)) \<subseteq> ?R"
        using link(2) unfolding link(1) [symmetric] by (auto simp: linked_to_def filter_empty_conv)
      moreover have "tracked mbase row rs' fs' \<and> rec_seq_num ` set rs \<subseteq> rec_seq_num ` set rs' \<and>
          fec_seq_num ` set fs' \<subseteq> fec_seq_num ` set (before @ rest) \<and>
          (\<forall>s \<in> fec_seq_num ` set (before @ rest). s \<in> fec_seq_num ` set fs' \<or> set (row s) \<subseteq> rec_seq_num ` set rs')"
        using "2.IH"(3) [OF refl other d(1) True _ "2.prems"(2,3) all less "2.prems"(7)] d(2) True by simp
      ultimately show ?thesis by auto
    next
      case False
      then have "attempt_loop min_diff fill fec rs (before @ [f]) rest = Some (rs', fs')" using d(2) by simp
      moreover have "(before @ [f]) @ rest = before @ f # rest" by simp
      ultimately show ?thesis using "2.IH"(4) [OF refl other d(1) False _ "2.prems"(2,3)] "2.prems"(4-6) "2.prems"(7) by metis
    qed
  qed
qed auto

end

context fec_tracker
begin

lemma InsertMediaPacket_tracked:
  assumes sched: "fec_schedule reader own msrc sent fsent row mbase fbase" and r: "scheduled own msrc sent fsent r" "\<not> is_fec r"
    and fec: "InsertMediaPacket rs r fec = Some (rs', fec')" "list_all (sent.rec_inv msrc sent) rs" "tracked mbase row rs (received_fec_packets fec)"
    "\<forall>f \<in> set (received_fec_packets fec). fsent (fec_seq_num f) \<noteq> None"
  shows "tracked mbase row rs' (received_fec_packets fec')" "rec_seq_num ` set rs' = insert (rcv_seq_num r) (rec_seq_num ` set rs)"
    "map fec_seq_num (received_fec_packets fec') = map fec_seq_num (received_fec_packets fec)"
proof -
  let ?p = "\<lparr>rec_ssrc = rcv_ssrc r, rec_seq_num = rcv_seq_num r, was_recovered = False, returned = True, rec_pkt = rcv_pkt r\<rparr>"
  have s: "rcv_ssrc r = msrc" "sent (rcv_seq_num r) = Some (rcv_pkt r)" using r by (auto simp: scheduled_def sent_packet_def)
  have "\<forall>x \<in> set rs. fst (rec_key x) = fst (rcv_ssrc r, rcv_seq_num r)" using fec(2) s by (simp add: list_all_iff sent.rec_inv_def rec_key_def)
  note dup = has_duplicate_some [OF this]
  show "tracked mbase row rs' (received_fec_packets fec')" "rec_seq_num ` set rs' = insert (rcv_seq_num r) (rec_seq_num ` set rs)"
    "map fec_seq_num (received_fec_packets fec') = map fec_seq_num (received_fec_packets fec)"
  proof (atomize (full), cases "rcv_seq_num r \<in> rec_seq_num ` set rs")
    case True
    then have "\<exists>x \<in> set rs. snd (rec_key x) = snd (rcv_ssrc r, rcv_seq_num r)" by (auto simp: rec_key_def)
    then have "rs' = rs" "fec' = fec" using fec(1) dup by (auto simp: InsertMediaPacket_def bind_eq_Some_conv)
    then show "tracked mbase row rs' (received_fec_packets fec') \<and> rec_seq_num ` set rs' = insert (rcv_seq_num r) (rec_seq_num ` set rs) \<and>
        map fec_seq_num (received_fec_packets fec') = map fec_seq_num (received_fec_packets fec)"
      using fec(3) True by (simp add: insert_absorb)
  next
    case False
    then have "\<not> (\<exists>x \<in> set rs. snd (rec_key x) = snd (rcv_ssrc r, rcv_seq_num r))" by (metis image_eqI rec_key_def snd_conv)
    then obtain fs where fs: "sort_packets rec_key (rs @ [?p]) = Some rs'" "UpdateCoveringFecPackets ?p (received_fec_packets fec) = Some fs"
        "fec' = fec\<lparr>received_fec_packets := fs\<rparr>"
      using fec(1) dup by (auto simp: InsertMediaPacket_def Let_def bind_eq_Some_conv)
    have "in_window mbase (rcv_seq_num r)" using sched s(2) by (simp add: fec_schedule_def)
    from tracked_new [OF fec(3) fs(1,2)] this False row_sorted [OF sched fec(4)] fs(3)
    show "tracked mbase row rs' (received_fec_packets fec') \<and> rec_seq_num ` set rs' = insert (rcv_seq_num r) (rec_seq_num ` set rs) \<and>
        map fec_seq_num (received_fec_packets fec') = map fec_seq_num (received_fec_packets fec)" by simp
  qed
qed

lemma InsertFecPacket_tracked:
  assumes sched: "fec_schedule reader own msrc sent fsent row mbase fbase" and r: "scheduled own msrc sent fsent r" "is_fec r"
    and fec: "InsertFecPacket rs r fec = Some fec'" "sent.dec_inv own msrc sent rs fec" "tracked mbase row rs (received_fec_packets fec)"
    "\<forall>f \<in> set (received_fec_packets fec). fsent (fec_seq_num f) \<noteq> None"
  shows "tracked mbase row rs (received_fec_packets fec')"
    "fec_seq_num ` set (received_fec_packets fec') = insert (rcv_seq_num r) (fec_seq_num ` set (received_fec_packets fec))"
proof -
  let ?fs = "received_fec_packets fec" and ?k = "(rcv_ssrc r, rcv_seq_num r)"
  let ?f = "\<lparr>fec_seq_num = rcv_seq_num r, fec_ssrc = rcv_ssrc r, protected_packets = [],
         fec_header_size = 0, protected_ssrc = 0, seq_num_base = 0, packet_mask_offset = 0, packet_mask_size = 0,
         protection_length = 0, fec_pkt = rcv_pkt r\<rparr>"
  have s: "rcv_ssrc r = own" "fsent (rcv_seq_num r) = Some (rcv_pkt r)" using r by (auto simp: scheduled_def)
  have inv: "protected_media_ssrc fec = msrc" "header_reader fec = reader" "list_all (sent.rec_inv msrc sent) rs" "list_all (sent.fec_inv own sent msrc) ?fs"
    using fec(2) by (simp_all add: sent.dec_inv_def)
  have "\<forall>x \<in> set ?fs. fst (fec_key x) = fst ?k" using inv(4) s(1) by (simp add: list_all_iff sent.fec_inv_def fec_key_def)
  note dup = has_duplicate_some [OF this]
  show "tracked mbase row rs (received_fec_packets fec')"
    "fec_seq_num ` set (received_fec_packets fec') = insert (rcv_seq_num r) (fec_seq_num ` set ?fs)"
  proof (atomize (full), cases "rcv_seq_num r \<in> fec_seq_num ` set ?fs")
    case True
    then have "\<exists>x \<in> set ?fs. snd (fec_key x) = snd ?k" by (auto simp: fec_key_def)
    then have "fec' = fec" using fec(1) dup by (auto simp: InsertFecPacket_def bind_eq_Some_conv)
    then show "tracked mbase row rs (received_fec_packets fec') \<and>
        fec_seq_num ` set (received_fec_packets fec') = insert (rcv_seq_num r) (fec_seq_num ` set ?fs)"
      using fec(3) True by (simp add: insert_absorb)
  next
    case False
    then have nodup: "\<not> (\<exists>x \<in> set ?fs. snd (fec_key x) = snd ?k)" by (metis image_eqI fec_key_def snd_conv)
    obtain sp where sp: "sp \<noteq> []" "map fst sp = row (rcv_seq_num r)" "fec_carries reader own msrc sp (rcv_pkt r)" "seq_sorted mbase (row (rcv_seq_num r))"
      using sched s(2) unfolding fec_schedule_def by blast
    obtain f bytes where f: "ReadFecHeader reader ?f = Some (True, f)" "fec_ssrc f = own" "fec_seq_num f = rcv_seq_num r" "protected_ssrc f = msrc"
        "slice (fec_pkt f) (packet_mask_offset f) (packet_mask_size f) = Some bytes"
        "mask_packets msrc (seq_num_base f) bytes = map (\<lambda>(s, p). \<lparr>prot_ssrc = msrc, prot_seq_num = s, prot_pkt = None\<rparr>) sp"
      using sp(3) [unfolded fec_carries_def, rule_format, of ?f] s(1) by auto
    let ?ps = "mask_packets msrc (seq_num_base f) bytes"
    have ps: "?ps \<noteq> []" "map prot_seq_num ?ps = row (rcv_seq_num r)" "\<forall>p \<in> set ?ps. prot_pkt p = None"
      using f(6) sp(1,2) by (auto simp: case_prod_beta comp_def)
    have bounds: "\<not> packet_mask_offset f + packet_mask_size f > length (fec_pkt f)" using f(5) by (simp add: slice_def split: if_splits)
    obtain ps' fs' where a: "AssignRecoveredPackets ?ps rs = Some ps'" "sort_packets fec_key (?fs @ [f\<lparr>protected_packets := ps'\<rparr>]) = Some fs'"
        "fec' = fec\<lparr>received_fec_packets := (if length fs' > kMaxFecPackets then tl fs' else fs')\<rparr>"
      using fec(1) dup nodup f(1,4,5) ps(1) bounds inv(1,2) kept by (auto simp: InsertFecPacket_def Let_def bind_eq_Some_conv)
    have linked: "map prot_seq_num ps' = row (rcv_seq_num r)" "linked_to (rec_seq_num ` set rs) ps'"
      using AssignRecoveredPackets_linked [OF a(1), of mbase] ps(2,3) sp(4) fec(3) by (simp_all add: tracked_def)
    have "\<forall>x \<in> set (?fs @ [f\<lparr>protected_packets := ps'\<rparr>]). fst (fec_key x) = own"
      using inv(4) f(2) by (auto simp: list_all_iff sent.fec_inv_def fec_key_def)
    from sort_packets_some [OF this] a(2) have fs': "set fs' = insert (f\<lparr>protected_packets := ps'\<rparr>) (set ?fs)" "length fs' = Suc (length ?fs)"
      by (metis list.set(1) list.set(2) option.inject set_append sup.commute insert_is_Un, metis length_append_singleton option.inject)
    then have seqs: "fec_seq_num ` set fs' = insert (rcv_seq_num r) (fec_seq_num ` set ?fs)" using f(3) by simp
    have "card (insert (rcv_seq_num r) (fec_seq_num ` set ?fs)) = Suc (length ?fs)"
      using False distinct_card [of "map fec_seq_num ?fs"] fec(3) by (simp add: tracked_def)
    then have dist: "distinct (map fec_seq_num fs')" using seqs fs'(2) by (intro card_distinct) simp
    have "set (map fec_seq_num fs') \<subseteq> dom fsent" using seqs s(2) fec(4) by auto
    then have "card (set (map fec_seq_num fs')) \<le> card (dom fsent)" by (intro card_mono) simp_all
    then have "length fs' \<le> kMaxFecPackets" using distinct_card [OF dist] sched by (simp add: fec_schedule_def)
    then have e: "received_fec_packets fec' = fs'" using a(3) by simp
    then show "tracked mbase row rs (received_fec_packets fec') \<and>
        fec_seq_num ` set (received_fec_packets fec') = insert (rcv_seq_num r) (fec_seq_num ` set ?fs)"
      using seqs dist fs'(1) fec(3) linked f(3) by (auto simp: tracked_def)
  qed
qed

end

text \<open>The state of a receiver that has not missed anything so far.\<close>

context fec_tracker
begin

definition on_track ::
    "u32 \<Rightarrow> u32 \<Rightarrow> (u16 \<Rightarrow> u8 list option) \<Rightarrow> (u16 \<Rightarrow> u8 list option) \<Rightarrow> (u16 \<Rightarrow> u16 list) \<Rightarrow> u16 \<Rightarrow> recovered_packet list \<Rightarrow>
      forward_error_correction \<Rightarrow> bool" where
  "on_track own msrc sent fsent row mbase rs fec \<longleftrightarrow> sent.dec_inv own msrc sent rs fec \<and> tracked mbase row rs (received_fec_packets fec) \<and>
     (\<forall>f \<in> set (received_fec_packets fec). fsent (fec_seq_num f) \<noteq> None)"

text \<open>An FEC packet is settled when it is held or all its packets are there.\<close>

definition settled :: "(u16 \<Rightarrow> u16 list) \<Rightarrow> recovered_packet list \<Rightarrow> forward_error_correction \<Rightarrow> u16 \<Rightarrow> bool" where
  "settled row rs fec s \<longleftrightarrow> s \<in> fec_seq_num ` set (received_fec_packets fec) \<or> set (row s) \<subseteq> rec_seq_num ` set rs"

lemma scheduled_rcv_ok:
  assumes "fec_schedule reader own msrc sent fsent row mbase fbase" "scheduled own msrc sent fsent r"
  shows "sent.rcv_ok own msrc sent r"
proof (cases "is_fec r")
  case True
  then obtain sp where "fec_carries reader own msrc sp (rcv_pkt r)" "\<forall>(t, p) \<in> set sp. sent_packet sent msrc t p"
    using assms unfolding fec_schedule_def scheduled_def by metis
  then show ?thesis using True assms(2) by (auto simp: sent.rcv_ok_def scheduled_def wire_of_sent_def)
qed (use assms(2) in \<open>simp add: sent.rcv_ok_def scheduled_def\<close>)

lemma InsertPacket_tracked:
  assumes sched: "fec_schedule reader own msrc sent fsent row mbase fbase" and r: "scheduled own msrc sent fsent r"
    and md: "\<And>a b. min_diff a b = min (a - b) (b - a)"
    and fec: "InsertPacket min_diff r rs fec = Some (rs', fec')" "on_track own msrc sent fsent row mbase rs fec"
  shows "on_track own msrc sent fsent row mbase rs' fec' \<and> rec_seq_num ` set rs \<subseteq> rec_seq_num ` set rs' \<and>
    fec_seq_num ` set (received_fec_packets fec) \<subseteq> fec_seq_num ` set (received_fec_packets fec') \<and>
    (if is_fec r then rcv_seq_num r \<in> fec_seq_num ` set (received_fec_packets fec') else rcv_seq_num r \<in> rec_seq_num ` set rs')"
proof -
  let ?fs = "received_fec_packets fec"
  have inv: "sent.dec_inv own msrc sent rs fec" "tracked mbase row rs ?fs" "\<forall>f \<in> set ?fs. fsent (fec_seq_num f) \<noteq> None"
    "header_reader fec = reader" "list_all (sent.rec_inv msrc sent) rs"
    using fec(2) by (simp_all add: on_track_def sent.dec_inv_def)
  have young: "\<not> min_diff (rcv_seq_num r) (fec_seq_num f) > kOldSequenceThreshold" if "f \<in> set ?fs" "rcv_ssrc r = own" for f
  proof -
    have "in_window fbase (fec_seq_num f)" using inv(3) that(1) sched by (auto simp: fec_schedule_def)
    moreover have "in_window fbase (rcv_seq_num r)"
      using r that(2) sched by (cases "is_fec r") (auto simp: scheduled_def sent_packet_def fec_schedule_def)
    ultimately show ?thesis using window_not_old unfolding md by blast
  qed
  have "fec_ssrc (hd ?fs) = own" if "?fs \<noteq> []" using inv(1) that by (simp add: sent.dec_inv_def sent.fec_inv_def list_all_iff)
  then have keep: "(if ?fs \<noteq> [] \<and> rcv_ssrc r = fec_ssrc (hd ?fs)
        then fec\<lparr>received_fec_packets := dropWhile (\<lambda>p. min_diff (rcv_seq_num r) (fec_seq_num p) > kOldSequenceThreshold) ?fs\<rparr>
        else fec) = fec"
    using young [of "hd ?fs"] by (cases ?fs) auto
  obtain rs1 fec1 where s: "(if is_fec r then do { fec \<leftarrow> InsertFecPacket rs r fec; Some (rs, fec) } else InsertMediaPacket rs r fec) = Some (rs1, fec1)"
      "DiscardOldRecoveredPackets fec1 rs1 = Some rs'" "fec' = fec1"
    using fec(1) unfolding InsertPacket_def Let_def keep by (auto simp: bind_eq_Some_conv split: if_splits)
  obtain rs2 fec2 where t: "InsertPacket min_diff r rs fec = Some (rs2, fec2)" "sent.dec_inv own msrc sent rs2 fec2"
    using sent.InsertPacket_inv [OF inv(1) scheduled_rcv_ok [OF sched r]] by blast
  then have dec: "sent.dec_inv own msrc sent rs' fec'" using fec(1) by simp
  have hr: "header_reader fec1 = reader" using dec s(3) by (simp add: sent.dec_inv_def)
  show ?thesis
  proof (cases "is_fec r")
    case True
    then have i: "InsertFecPacket rs r fec = Some fec1" "rs1 = rs" using s(1) by (auto simp: bind_eq_Some_conv)
    note tr = InsertFecPacket_tracked [OF sched r True i(1) inv(1-3)]
    have e: "rs' = rs" using Discard_none [OF s(2) hr] few_recovered [OF sched inv(5)] inv(2) i(2) by (simp add: tracked_def)
    have "fsent (rcv_seq_num r) \<noteq> None" using r True by (simp add: scheduled_def)
    then have "\<forall>f \<in> set (received_fec_packets fec'). fsent (fec_seq_num f) \<noteq> None"
      using tr(2) inv(3) s(3) by (metis (no_types, lifting) image_eqI image_iff insertE)
    then show ?thesis using True tr dec e s(3) by (auto simp: on_track_def)
  next
    case False
    then have i: "InsertMediaPacket rs r fec = Some (rs1, fec1)" using s(1) by simp
    note tr = InsertMediaPacket_tracked [OF sched r False i inv(5,2,3)]
    have "list_all (sent.rec_inv msrc sent) rs1"
      using sent.InsertMediaPacket_inv [OF inv(1) scheduled_rcv_ok [OF sched r] False] i by auto
    then have e: "rs' = rs1" using Discard_none [OF s(2) hr] few_recovered [OF sched] tr(1) by (simp add: tracked_def)
    have m: "fec_seq_num ` set (received_fec_packets fec1) = fec_seq_num ` set ?fs" using tr(3) by (metis set_map)
    then have "\<forall>f \<in> set (received_fec_packets fec1). fsent (fec_seq_num f) \<noteq> None" using inv(3) by (metis image_eqI image_iff)
    then show ?thesis using False tr dec e s(3) m by (auto simp: on_track_def)
  qed
qed

lemma DecodeFec_tracked:
  assumes sched: "fec_schedule reader own msrc sent fsent row mbase fbase" and r: "scheduled own msrc sent fsent r"
    and md: "\<And>a b. min_diff a b = min (a - b) (b - a)"
    and fec: "DecodeFec min_diff fill r rs fec = Some (rs', fec')" "on_track own msrc sent fsent row mbase rs fec"
  shows "on_track own msrc sent fsent row mbase rs' fec' \<and> rec_seq_num ` set rs \<subseteq> rec_seq_num ` set rs' \<and>
    (\<forall>s. settled row rs fec s \<longrightarrow> settled row rs' fec' s) \<and>
    (if is_fec r then settled row rs' fec' (rcv_seq_num r) else rcv_seq_num r \<in> rec_seq_num ` set rs')"
proof -
  have inv: "sent.dec_inv own msrc sent rs fec" "header_reader fec = reader" "list_all (sent.rec_inv msrc sent) rs" "tracked mbase row rs (received_fec_packets fec)"
    using fec(2) by (simp_all add: on_track_def sent.dec_inv_def)
  have "length rs < kMaxTrackedMediaPackets" using few_recovered [OF sched inv(3)] inv(4) by (simp add: tracked_def)
  then obtain rs1 fec1 where i: "InsertPacket min_diff r rs fec = Some (rs1, fec1)" "AttemptRecovery min_diff fill rs1 fec1 = Some (rs', fec')"
    using fec(1) inv(2) kept by (auto simp: DecodeFec_def Let_def bind_eq_Some_conv)
  note t1 = InsertPacket_tracked [OF sched r md i(1) fec(2)]
  have inv1: "sent.dec_inv own msrc sent rs1 fec1" "tracked mbase row rs1 (received_fec_packets fec1)"
    "\<forall>f \<in> set (received_fec_packets fec1). fsent (fec_seq_num f) \<noteq> None" using t1 by (simp_all add: on_track_def)
  obtain fs where fs: "attempt_loop min_diff fill fec1 rs1 [] (received_fec_packets fec1) = Some (rs', fs)" "received_fec_packets fec' = fs"
    using i(2) by (auto simp: AttemptRecovery_def bind_eq_Some_conv)
  have t2: "tracked mbase row rs' fs \<and> rec_seq_num ` set rs1 \<subseteq> rec_seq_num ` set rs' \<and>
      fec_seq_num ` set fs \<subseteq> fec_seq_num ` set ([] @ received_fec_packets fec1) \<and>
      (\<forall>s \<in> fec_seq_num ` set ([] @ received_fec_packets fec1). s \<in> fec_seq_num ` set fs \<or> set (row s) \<subseteq> rec_seq_num ` set rs')"
    by (rule attempt_loop_tracked [OF sched fs(1)]) (use inv1 md in \<open>simp_all add: sent.dec_inv_def\<close>)
  have "sent.dec_inv own msrc sent rs' fec'"
    using sent.DecodeFec_inv [OF inv(1) scheduled_rcv_ok [OF sched r], of min_diff fill] fec(1) by auto
  moreover have "fsent (fec_seq_num f) \<noteq> None" if "f \<in> set fs" for f
  proof -
    have "fec_seq_num f \<in> fec_seq_num ` set (received_fec_packets fec1)" using t2 that by auto
    then show ?thesis using inv1(3) by auto
  qed
  ultimately have "on_track own msrc sent fsent row mbase rs' fec'" using t2 fs(2) by (simp add: on_track_def)
  moreover have grow: "rec_seq_num ` set rs1 \<subseteq> rec_seq_num ` set rs'" "rec_seq_num ` set rs \<subseteq> rec_seq_num ` set rs1"
    "fec_seq_num ` set (received_fec_packets fec) \<subseteq> fec_seq_num ` set (received_fec_packets fec1)"
    using t1 t2 by simp_all
  moreover have s2: "settled row rs' fec' s" if "settled row rs1 fec1 s" for s
  proof (cases "s \<in> fec_seq_num ` set (received_fec_packets fec1)")
    case True
    then show ?thesis using t2 fs(2) unfolding settled_def append_Nil by blast
  next
    case False
    then have "set (row s) \<subseteq> rec_seq_num ` set rs1" using that by (simp add: settled_def)
    then show ?thesis using grow(1) unfolding settled_def by blast
  qed
  moreover have "settled row rs1 fec1 s" if "settled row rs fec s" for s
    using that grow(2,3) unfolding settled_def by (meson subset_iff)
  moreover have "settled row rs1 fec1 (rcv_seq_num r)" if "is_fec r" using t1 that by (simp add: settled_def)
  moreover have "rcv_seq_num r \<in> rec_seq_num ` set rs'" if "\<not> is_fec r" using t1 grow(1) that by auto
  ultimately show ?thesis by (simp add: subset_trans [OF grow(2,1)])
qed

lemma decode_all_tracked:
  assumes sched: "fec_schedule reader own msrc sent fsent row mbase fbase" and md: "\<And>a b. min_diff a b = min (a - b) (b - a)"
    and "\<forall>a \<in> set as. scheduled own msrc sent fsent a" "decode_all min_diff fill as rs fec = Some (rs', fec')"
    "on_track own msrc sent fsent row mbase rs fec"
  shows "on_track own msrc sent fsent row mbase rs' fec' \<and> rec_seq_num ` set rs \<subseteq> rec_seq_num ` set rs' \<and>
    (\<forall>s. settled row rs fec s \<longrightarrow> settled row rs' fec' s) \<and>
    (\<forall>a \<in> set as. if is_fec a then settled row rs' fec' (rcv_seq_num a) else rcv_seq_num a \<in> rec_seq_num ` set rs')"
  using assms(3-)
proof (induction as arbitrary: rs fec)
  case (Cons a as)
  obtain rs1 fec1 where s: "DecodeFec min_diff fill a rs fec = Some (rs1, fec1)" "decode_all min_diff fill as rs1 fec1 = Some (rs', fec')"
    using Cons.prems(2) by (auto simp: bind_eq_Some_conv)
  have a: "scheduled own msrc sent fsent a" using Cons.prems(1) by simp
  note t1 = DecodeFec_tracked [OF sched a md s(1) Cons.prems(3)]
  have t2: "on_track own msrc sent fsent row mbase rs' fec' \<and> rec_seq_num ` set rs1 \<subseteq> rec_seq_num ` set rs' \<and>
    (\<forall>s. settled row rs1 fec1 s \<longrightarrow> settled row rs' fec' s) \<and>
    (\<forall>a \<in> set as. if is_fec a then settled row rs' fec' (rcv_seq_num a) else rcv_seq_num a \<in> rec_seq_num ` set rs')"
    using Cons.IH [OF _ s(2)] Cons.prems(1) t1 by simp
  have "if is_fec a then settled row rs' fec' (rcv_seq_num a) else rcv_seq_num a \<in> rec_seq_num ` set rs'"
    using t1 t2 by (cases "is_fec a") auto
  then show ?case using t1 t2 by auto
qed simp

text \<open>
  An FEC packet that has arrived misses nothing in the end, if at most one of the packets it protects
  has not arrived.
\<close>

lemma decode_all_complete:
  assumes sched: "fec_schedule reader own msrc sent fsent row mbase fbase" and md: "\<And>a b. min_diff a b = min (a - b) (b - a)"
    and as: "\<forall>a \<in> set as. scheduled own msrc sent fsent a"
  shows "\<exists>rs fec'. decode_all min_diff fill as [] (ForwardErrorCorrection fill' reader writer own msrc) = Some (rs, fec') \<and>
    (\<forall>r \<in> set rs. sent (rec_seq_num r) = Some (rec_pkt r)) \<and> (\<forall>a \<in> set as. \<not> is_fec a \<longrightarrow> rcv_seq_num a \<in> rec_seq_num ` set rs) \<and>
    (\<forall>a \<in> set as. is_fec a \<longrightarrow> (\<exists>t. \<forall>s \<in> set (row (rcv_seq_num a)) - {t}. \<exists>b \<in> set as. \<not> is_fec b \<and> rcv_seq_num b = s) \<longrightarrow>
      set (row (rcv_seq_num a)) \<subseteq> rec_seq_num ` set rs)"
proof -
  let ?fec = "ForwardErrorCorrection fill' reader writer own msrc"
  have start: "on_track own msrc sent fsent row mbase [] ?fec"
    by (simp add: on_track_def sent.dec_inv_def ForwardErrorCorrection_def tracked_def)
  have ok: "\<forall>a \<in> set as. sent.rcv_ok own msrc sent a" using as scheduled_rcv_ok [OF sched] by blast
  obtain rs fec' where d: "decode_all min_diff fill as [] ?fec = Some (rs, fec')" "\<forall>f \<in> set (received_fec_packets fec'). 1 < NumCoveredPacketsMissing f"
      "\<forall>r \<in> set rs. rec_ssrc r = msrc \<and> sent_packet sent msrc (rec_seq_num r) (rec_pkt r)"
    using sent.decode_all_new [OF ok, of min_diff fill fill' writer] by blast
  note t = decode_all_tracked [OF sched md as d(1) start]
  have "set (row (rcv_seq_num a)) \<subseteq> rec_seq_num ` set rs"
    if a: "a \<in> set as" "is_fec a" "\<forall>s \<in> set (row (rcv_seq_num a)) - {u}. \<exists>b \<in> set as. \<not> is_fec b \<and> rcv_seq_num b = s" for a u
  proof (rule ccontr)
    assume nc: "\<not> ?thesis"
    have "settled row rs fec' (rcv_seq_num a)" using t a(1,2) by metis
    with nc have "rcv_seq_num a \<in> fec_seq_num ` set (received_fec_packets fec')" unfolding settled_def by blast
    then obtain f where f: "f \<in> set (received_fec_packets fec')" "fec_seq_num f = rcv_seq_num a" by auto
    then have link: "map prot_seq_num (protected_packets f) = row (rcv_seq_num a)" "linked_to (rec_seq_num ` set rs) (protected_packets f)"
      using t by (auto simp: on_track_def tracked_def)
    have dist: "distinct (map prot_seq_num (protected_packets f))"
      using seq_sorted_distinct row_sorted [OF sched _ f(1)] t f(2) link(1) unfolding on_track_def by metis
    have "\<forall>p \<in> set (filter (\<lambda>p. prot_pkt p = None) (protected_packets f)). prot_seq_num p = u"
    proof
      fix p assume "p \<in> set (filter (\<lambda>p. prot_pkt p = None) (protected_packets f))"
      then have p: "prot_seq_num p \<in> set (row (rcv_seq_num a))" "prot_seq_num p \<notin> rec_seq_num ` set rs"
        using link by (auto simp: linked_to_def simp flip: link(1))
      show "prot_seq_num p = u"
      proof (rule ccontr)
        assume "prot_seq_num p \<noteq> u"
        then obtain b where "b \<in> set as" "\<not> is_fec b" "rcv_seq_num b = prot_seq_num p" using a(3) p(1) by blast
        then show False using t p(2) by auto
      qed
    qed
    then have "set (map prot_seq_num (filter (\<lambda>p. prot_pkt p = None) (protected_packets f))) \<subseteq> {u}" by auto
    moreover have "distinct (map prot_seq_num (filter (\<lambda>p. prot_pkt p = None) (protected_packets f)))" using dist by (rule distinct_map_filter)
    ultimately have "length (filter (\<lambda>p. prot_pkt p = None) (protected_packets f)) \<le> 1"
      using card_mono [of "{u}"] distinct_card by (metis card.empty card_insert_disjoint empty_iff finite.emptyI finite.insertI length_map One_nat_def)
    then show False using d(2) f(1) by (auto simp: NumCoveredPacketsMissing_eq)
  qed
  then have "\<forall>a \<in> set as. is_fec a \<longrightarrow> (\<exists>u. \<forall>s \<in> set (row (rcv_seq_num a)) - {u}. \<exists>b \<in> set as. \<not> is_fec b \<and> rcv_seq_num b = s) \<longrightarrow>
      set (row (rcv_seq_num a)) \<subseteq> rec_seq_num ` set rs" by blast
  moreover have "\<forall>a \<in> set as. \<not> is_fec a \<longrightarrow> rcv_seq_num a \<in> rec_seq_num ` set rs" using t by auto
  moreover have "\<forall>r \<in> set rs. sent (rec_seq_num r) = Some (rec_pkt r)" using d(3) by (simp add: sent_packet_def)
  ultimately show ?thesis using d(1) by blast
qed

end

subsection \<open>One block\<close>

lemma block_window:
  assumes "media_block sent msrc seqs ps" "\<forall>s \<in> set seqs. in_window mbase s" "sorted_wrt (<) is" "set is \<subseteq> {..<length ps}"
  shows "seq_sorted mbase (map ((!) seqs) is)"
proof -
  have b: "length seqs = length ps" "media_seqs seqs" "seq_offset seqs (length seqs - 1) < kMaxMediaPackets"
    using assms(1) unfolding media_block_def by blast+
  then have "hd seqs \<in> set seqs" by (simp add: media_seqs_def)
  then have h: "unat (hd seqs - mbase) < 0x4000" using assms(2) by (simp add: in_window_def)
  have off: "unat (seqs ! i - mbase) = unat (hd seqs - mbase) + seq_offset seqs i" if "i < length seqs" for i
  proof -
    have "seq_offset seqs i < 48" using seq_offset_le_last [OF b(2) that] b(3) by (simp add: kMaxMediaPackets_def)
    then have "unat (hd seqs - mbase) + unat (seqs ! i - hd seqs) < 2 ^ LENGTH(16)" using h by (simp add: seq_offset_def)
    then have "unat ((hd seqs - mbase) + (seqs ! i - hd seqs)) = unat (hd seqs - mbase) + unat (seqs ! i - hd seqs)"
      by (rule unat_add_lem [THEN iffD1])
    then show ?thesis by (simp add: seq_offset_def)
  qed
  have "sorted_wrt (\<lambda>i j. unat (seqs ! i - mbase) < unat (seqs ! j - mbase)) is"
    by (rule sorted_wrt_mono_rel [OF _ assms(3)]) (use assms(4) b off seq_offset_mono [OF b(2)] in auto)
  moreover have "list_all (in_window mbase) (map ((!) seqs) is)" using assms(2,4) b(1) by (auto simp: list_all_iff)
  ultimately show ?thesis by (simp add: seq_sorted_def sorted_wrt_map)
qed

lemma map_of_zip_nth_eq: "length xs = length ys \<Longrightarrow> distinct xs \<Longrightarrow> map_of (zip xs ys) x = Some y \<longleftrightarrow> (\<exists>r < length xs. x = xs ! r \<and> y = ys ! r)"
  by (auto simp: map_of_zip_nth in_set_zip dest!: map_of_SomeD)

text \<open>The sequence numbers of the media packets that an FEC packet of the block protects.\<close>

definition block_row :: "u16 list \<Rightarrow> u16 list \<Rightarrow> nat list list \<Rightarrow> u16 \<Rightarrow> u16 list" where
  "block_row seqs fseqs rows s = (case map_of (zip fseqs rows) s of None \<Rightarrow> [] | Some is \<Rightarrow> map ((!) seqs) is)"

lemma block_schedule:
  assumes block: "media_block sent msrc seqs ps" "dom sent = set seqs" "\<forall>s \<in> set seqs. in_window mbase s"
    and fseqs: "length fseqs = length out" "distinct fseqs" "\<forall>s \<in> set fseqs. in_window fbase s" "own = msrc \<longrightarrow> mbase = fbase"
    and rows: "length rows = length out" "length out \<le> kMaxFecPackets"
      "\<forall>r < length out. rows ! r \<noteq> [] \<and> sorted_wrt (<) (rows ! r) \<and> set (rows ! r) \<subseteq> {..<length ps}"
      "\<forall>r < length out. fec_carries reader own msrc (map (\<lambda>i. (seqs ! i, ps ! i)) (rows ! r)) (packet_bytes (out ! r))"
  shows "fec_schedule reader own msrc sent (map_of (zip fseqs (map packet_bytes out))) (block_row seqs fseqs rows) mbase fbase"
proof -
  let ?fsent = "map_of (zip fseqs (map packet_bytes out))"
  have b: "length seqs = length ps" "media_seqs seqs" "seq_offset seqs (length seqs - 1) < kMaxMediaPackets" "\<forall>i < length ps. sent_packet sent msrc (seqs ! i) (ps ! i)"
    using block(1) unfolding media_block_def by blast+
  have ne: "seqs \<noteq> []" using b(2) by (simp add: media_seqs_def)
  have "length seqs - 1 \<le> seq_offset seqs (length seqs - 1)" using seq_offset_ge [OF b(2), of "length seqs - 1"] ne by simp
  then have "length seqs \<le> kMaxMediaPackets" using b(3) ne by linarith
  then have few: "card (dom sent) < kMaxTrackedMediaPackets"
    using card_length [of seqs] block(2) by (simp add: kMaxTrackedMediaPackets_def kMaxMediaPackets_def)
  have dom: "dom ?fsent = set fseqs" using fseqs(1) by (simp add: dom_map_of_zip)
  have "card (dom ?fsent) \<le> kMaxFecPackets" unfolding dom using distinct_card [OF fseqs(2)] fseqs(1) rows(2) by simp
  moreover have "in_window mbase s" if "sent s \<noteq> None" for s using that block(2,3) by blast
  moreover have "in_window fbase s" if "?fsent s \<noteq> None" for s using that dom fseqs(3) by blast
  moreover have "seq_sorted mbase (block_row seqs fseqs rows s) \<and> (\<exists>sp. sp \<noteq> [] \<and> map fst sp = block_row seqs fseqs rows s \<and>
      fec_carries reader own msrc sp data \<and> (\<forall>(t, p) \<in> set sp. sent_packet sent msrc t p))" if s: "?fsent s = Some data" for s data
  proof -
    obtain r where r: "r < length out" "s = fseqs ! r" "data = packet_bytes (out ! r)"
      using s map_of_zip_nth_eq [of fseqs "map packet_bytes out" s data] fseqs(1,2) by auto
    then have row: "block_row seqs fseqs rows s = map ((!) seqs) (rows ! r)"
      using map_of_zip_nth [of fseqs rows r] fseqs(1,2) rows(1) by (simp add: block_row_def)
    have "\<forall>(t, p) \<in> set (map (\<lambda>i. (seqs ! i, ps ! i)) (rows ! r)). sent_packet sent msrc t p" using rows(3) r(1) b(4) by auto
    moreover have "map fst (map (\<lambda>i. (seqs ! i, ps ! i)) (rows ! r)) = block_row seqs fseqs rows s" by (simp add: row)
    moreover have "seq_sorted mbase (block_row seqs fseqs rows s)" unfolding row using block_window [OF block(1,3)] rows(3) r(1) by blast
    moreover have "map (\<lambda>i. (seqs ! i, ps ! i)) (rows ! r) \<noteq> []" "fec_carries reader own msrc (map (\<lambda>i. (seqs ! i, ps ! i)) (rows ! r)) data"
      using rows(3,4) r by simp_all
    ultimately show ?thesis by blast
  qed
  ultimately show ?thesis using few fseqs(4) unfolding fec_schedule_def by blast
qed

context fec_header_codec
begin

lemma block_repaired:
  assumes reader: "fec_tracker reader" "writer_MaxMediaPackets writer = kMaxMediaPackets" "owner msrc own = msrc"
    and block: "media_block sent msrc seqs ps" "dom sent = set seqs" "\<forall>s \<in> set seqs. in_window mbase s"
    and enc: "encoder_inv enc" "header_writer enc = writer" "EncodeFec fill ps pf imp uep mask_type enc = Some (0, out, enc')" "out \<noteq> []"
    and fseqs: "length fseqs = length out" "distinct fseqs" "\<forall>s \<in> set fseqs. in_window fbase s" "own = msrc \<longrightarrow> mbase = fbase"
    and md: "\<And>a b. min_diff a b = min (a - b) (b - a)"
    and as: "\<forall>a \<in> set as. if is_fec a then rcv_ssrc a = own \<and> (\<exists>r < length out. rcv_seq_num a = fseqs ! r \<and> rcv_pkt a = packet_bytes (out ! r))
      else rcv_ssrc a = msrc \<and> (\<exists>i < length ps. rcv_seq_num a = seqs ! i \<and> rcv_pkt a = ps ! i)"
  shows "\<exists>rows rs fec'. length rows = length out \<and> (\<forall>r < length out. set (rows ! r) \<subseteq> {..<length ps}) \<and>
    (\<forall>i < length ps. \<exists>r < length out. i \<in> set (rows ! r)) \<and>
    decode_all min_diff fill2 as [] (ForwardErrorCorrection fill' reader writer own msrc) = Some (rs, fec') \<and>
    (\<forall>i < length ps. (\<exists>a \<in> set as. \<not> is_fec a \<and> rcv_seq_num a = seqs ! i) \<longrightarrow> (\<exists>p \<in> set rs. rec_seq_num p = seqs ! i \<and> rec_pkt p = ps ! i)) \<and>
    (\<forall>r < length out. \<forall>j. (\<exists>a \<in> set as. is_fec a \<and> rcv_seq_num a = fseqs ! r) \<and>
       (\<forall>i \<in> set (rows ! r) - {j}. \<exists>a \<in> set as. \<not> is_fec a \<and> rcv_seq_num a = seqs ! i) \<longrightarrow>
       (\<forall>i \<in> set (rows ! r). \<exists>p \<in> set rs. rec_seq_num p = seqs ! i \<and> rec_pkt p = ps ! i))"
proof -
  obtain f where f: "NumFecPackets (length ps) (unat pf) = Some f" "0 < f" "imp \<le> length ps" using EncodeFec_args [OF enc(3,4)] by blast
  note m = media_block_parse [OF block(1)]
  have b: "length seqs = length ps" "media_seqs seqs" "seq_offset seqs (length seqs - 1) < kMaxMediaPackets" "\<forall>i < length ps. sent_packet sent msrc (seqs ! i) (ps ! i)"
    using block(1) unfolding media_block_def by blast+
  obtain rows out1 enc1 where rows1: "EncodeFec fill ps pf imp uep mask_type enc = Some (0, out1, enc1)" "length rows = f" "length out1 = f"
      "\<forall>r < f. rows ! r \<noteq> [] \<and> sorted_wrt (<) (rows ! r) \<and> set (rows ! r) \<subseteq> {..<length ps}" "\<forall>i < length ps. \<exists>r < f. i \<in> set (rows ! r)"
      "\<forall>r < f. \<forall>src. fec_carries reader src (owner msrc src) (map (\<lambda>i. (seqs ! i, ps ! i)) (rows ! r)) (packet_bytes (out1 ! r))"
    using EncodeFec_spec [OF enc(1,2) reader(2) m(1) b(2,3) m(4,2) f, of fill uep mask_type] by blast
  have f_out: "f = length out" "out1 = out" using enc(3) rows1(1,3) by auto
  have ne: "seqs \<noteq> []" using b(2) by (simp add: media_seqs_def)
  have "f \<le> length ps" using f(1) by (auto simp: NumFecPackets_def Let_def bind_eq_Some_conv split: if_splits)
  moreover have "length seqs \<le> kMaxMediaPackets"
    using seq_offset_ge [OF b(2), of "length seqs - 1"] b(3) ne by (cases seqs) auto
  ultimately have few: "length out \<le> kMaxFecPackets" using f_out b(1) by (simp add: kMaxFecPackets_def)
  have "fec_carries reader own msrc (map (\<lambda>i. (seqs ! i, ps ! i)) (rows ! r)) (packet_bytes (out ! r))" if "r < length out" for r
    using rows1(6) [rule_format, of r own] that unfolding f_out reader(3) by simp
  then have rows: "length rows = length out" "\<forall>r < length out. rows ! r \<noteq> [] \<and> sorted_wrt (<) (rows ! r) \<and> set (rows ! r) \<subseteq> {..<length ps}"
    "\<forall>r < length out. fec_carries reader own msrc (map (\<lambda>i. (seqs ! i, ps ! i)) (rows ! r)) (packet_bytes (out ! r))"
    using rows1(2,4) unfolding f_out by simp_all
  let ?fsent = "map_of (zip fseqs (map packet_bytes out))" and ?row = "block_row seqs fseqs rows"
  note sched = block_schedule [OF block fseqs rows(1) few rows(2,3)]
  have "scheduled own msrc sent ?fsent a" if a: "a \<in> set as" for a
  proof (cases "is_fec a")
    case True
    then obtain r where "rcv_ssrc a = own" "r < length out" "rcv_seq_num a = fseqs ! r" "rcv_pkt a = packet_bytes (out ! r)"
      using bspec [OF as a] by auto
    then show ?thesis using True map_of_zip_nth [of fseqs "map packet_bytes out" r] fseqs(1,2) by (simp add: scheduled_def)
  next
    case False
    then show ?thesis using bspec [OF as a] b(4) by (auto simp: scheduled_def)
  qed
  then have "\<forall>a \<in> set as. scheduled own msrc sent ?fsent a" by blast
  note c = fec_tracker.decode_all_complete [OF reader(1) sched md this, of fill2 fill' writer]
  obtain rs fec' where rs: "decode_all min_diff fill2 as [] (ForwardErrorCorrection fill' reader writer own msrc) = Some (rs, fec')"
      "\<forall>r \<in> set rs. sent (rec_seq_num r) = Some (rec_pkt r)" "\<forall>a \<in> set as. \<not> is_fec a \<longrightarrow> rcv_seq_num a \<in> rec_seq_num ` set rs"
      "\<forall>a \<in> set as. is_fec a \<longrightarrow> (\<exists>t. \<forall>s \<in> set (?row (rcv_seq_num a)) - {t}. \<exists>b \<in> set as. \<not> is_fec b \<and> rcv_seq_num b = s) \<longrightarrow>
        set (?row (rcv_seq_num a)) \<subseteq> rec_seq_num ` set rs"
    using c by (elim exE conjE)
  have found: "\<exists>p \<in> set rs. rec_seq_num p = seqs ! i \<and> rec_pkt p = ps ! i" if i: "i < length ps" "seqs ! i \<in> rec_seq_num ` set rs" for i
  proof -
    obtain p where p: "p \<in> set rs" "rec_seq_num p = seqs ! i" using i(2) by auto
    then have "rec_pkt p = ps ! i" using rs(2) b(4) i(1) by (auto simp: sent_packet_def)
    with p show ?thesis by blast
  qed
  have "\<exists>p \<in> set rs. rec_seq_num p = seqs ! i \<and> rec_pkt p = ps ! i"
    if r: "r < length out" "a \<in> set as" "is_fec a" "rcv_seq_num a = fseqs ! r" "i \<in> set (rows ! r)"
      and others: "\<forall>i \<in> set (rows ! r) - {j}. \<exists>a \<in> set as. \<not> is_fec a \<and> rcv_seq_num a = seqs ! i" for r j a i
  proof -
    have row: "?row (fseqs ! r) = map ((!) seqs) (rows ! r)"
      using map_of_zip_nth [of fseqs rows r] fseqs(1,2) rows(1) r(1) by (simp add: block_row_def)
    have "\<forall>s \<in> set (?row (rcv_seq_num a)) - {seqs ! j}. \<exists>b \<in> set as. \<not> is_fec b \<and> rcv_seq_num b = s" using others unfolding r(4) row by auto
    then have "set (?row (rcv_seq_num a)) \<subseteq> rec_seq_num ` set rs" using rs(4) r(2,3) by blast
    then have "seqs ! i \<in> rec_seq_num ` set rs" using r(5) unfolding r(4) row by auto
    moreover have "i < length ps" using rows(2) r(1,5) by blast
    ultimately show ?thesis using found by blast
  qed
  moreover have "\<exists>p \<in> set rs. rec_seq_num p = seqs ! i \<and> rec_pkt p = ps ! i" if "i < length ps" "\<exists>a \<in> set as. \<not> is_fec a \<and> rcv_seq_num a = seqs ! i" for i
    using found [of i] rs(3) that by metis
  ultimately show ?thesis using rows(1,2) rows1(5) f_out(1) rs(1)
    by (intro exI [of _ rows] exI [of _ rs] exI [of _ fec'] conjI) blast+
qed

end

end
