(* ===== verification/Spec2Isabelle.thy ===== *)
theory Spec2Isabelle
  imports Rtcp_Compound Http_Connection Fec_Completeness "HOL-Library.Code_Target_Nat"
begin

text \<open>
  Verification of the RTCP packet library of the repository
  (\<^verbatim>\<open>src/webrtc_src/modules/rtp_rtcp/source\<close>, directory \<^verbatim>\<open>rtcp_packet\<close> and its base files) and of
  the wrap-around arithmetic it uses (\<^verbatim>\<open>src/webrtc_src/modules/include\<close>), of forward error correction
  (\<^verbatim>\<open>forward_error_correction.cc\<close> and the files it uses, in the same directory), and of the HTTP server
  that serves the signalling pages (\<^verbatim>\<open>src/signal_server\<close>).

  \<^bold>\<open>The program.\<close>  An RTCP packet class holds the fields of one packet type.  \<^verbatim>\<open>Create\<close> writes the
  packet at an index of a byte buffer; when there is no room it hands the filled part of the buffer to
  a callback and starts again at index 0.  \<^verbatim>\<open>Build\<close> allocates the buffer, in one form of exactly
  \<^verbatim>\<open>BlockLength()\<close> bytes, in the other of \<^verbatim>\<open>IP_PACKET_SIZE\<close> bytes with a callback.  On the receiving
  side \<^verbatim>\<open>CommonHeader::Parse\<close> reads the four-byte header, and \<^verbatim>\<open>Parse\<close> of the class chosen by packet
  type and feedback message type reads the payload.  \<^verbatim>\<open>CompoundPacket\<close> serialises a list of packets.
  \<^verbatim>\<open>TransportFeedback\<close> moreover keeps caches (status chunks, sizes, timestamps) that must stay
  consistent while packets are added one by one.

  Forward error correction protects a block of media packets by packets that hold their exclusive or.
  \<^verbatim>\<open>EncodeFec\<close> takes a mask, a matrix that says which FEC packet protects which media packet, from a table
  or generates it, inserts columns of zeros where sequence numbers are missing, forms the packets and lets
  the header writer of the format (ULPFEC or FlexFEC) finish them.  \<^verbatim>\<open>DecodeFec\<close> takes one received packet,
  keeps the latest media and FEC packets in sorted lists with links from each FEC packet to the media
  packets it protects, and reconstructs a packet whenever an FEC packet misses just one; a reconstructed
  packet may complete another FEC packet, so it starts again.

  The HTTP server accepts connections, feeds what it reads to an incremental request parser, lets the
  request handler build a reply from a file below the document root, writes it and closes.  All of
  this happens in completion handlers that one event loop calls; a signal closes everything.

  \<^bold>\<open>Theories.\<close>
  \<^item> \<open>Rtc_Prelude\<close>: machine integers as words, out-of-range access and \<^verbatim>\<open>RTC_DCHECK\<close> as \<open>None\<close>, the
    loops that write and read vectors, and the lemmas that turn writers into one \<open>put\<close> of bytes.
  \<^item> \<open>Byte_IO\<close>: \<^verbatim>\<open>byte_io.h\<close>.
  \<^item> \<open>Rtcp_Packet\<close>: \<^verbatim>\<open>rtcp_packet.cc\<close>, \<^verbatim>\<open>common_header.cc\<close>, and the contracts as locales:
    \<open>rtcp_creator\<close> (when \<^verbatim>\<open>Create\<close> succeeds, and what it does to the stream of bytes), \<open>rtcp_serializer\<close> (a packet of fixed
    bytes), \<open>rtcp_parser\<close> (\<^verbatim>\<open>Parse\<close> never faults), \<open>rtcp_lossy_codec\<close> and \<open>rtcp_codec\<close> (round trips).
    Every packet class below interprets them.
  \<^item> \<open>Rtcp_Reports\<close>, \<open>Rtcp_Extended\<close>, \<open>Rtcp_Session\<close>, \<open>Rtcp_Feedback\<close>, \<open>Rtcp_Bitrate\<close>, \<open>Rtcp_Nack\<close>: the
    packet classes; names follow the code, \<open>Class_Method\<close> where a method name is shared.
  \<^item> \<open>Sequence_Numbers\<close>: \<^verbatim>\<open>module_common_types_public.h\<close>.
  \<^item> \<open>Rtcp_Last_Chunk\<close>, \<open>Rtcp_Transport_Feedback\<close>, \<open>Transport_Feedback_Wire\<close>: \<^verbatim>\<open>transport_feedback.cc\<close>:
    the chunk encoder, the object with its invariant \<open>tf_inv\<close>, and its bytes.
  \<^item> \<open>Rtcp_Compound\<close>: \<^verbatim>\<open>compound_packet.cc\<close> over the datatype of all packet classes.
  \<^item> \<open>Fec_Tables\<close>, \<open>Fec_Masks\<close>, \<open>Fec_Insert_Zeros\<close>: the mask tables byte by byte
    (\<^verbatim>\<open>fec_private_tables_random.cc\<close>, \<^verbatim>\<open>fec_private_tables_bursty.cc\<close>), \<^verbatim>\<open>forward_error_correction_internal.cc\<close>, and
    the insertion of zeros.
  \<^item> \<open>Fec_Header\<close>, \<open>Fec_Header_Codec\<close>: \<^verbatim>\<open>ulpfec_header_reader_writer.cc\<close> and
    \<^verbatim>\<open>flexfec_header_reader_writer.cc\<close>; the contract of a format is the locale \<open>fec_header_codec\<close>,
    interpreted for both.
  \<^item> \<open>Fec_Encoder\<close>, \<open>Fec_Decoder\<close>: the two halves of \<^verbatim>\<open>forward_error_correction.cc\<close>.
  \<^item> \<open>Fec_Parity\<close>, \<open>Fec_Encode_Spec\<close>, \<open>Fec_Recovery\<close>: the exclusive or as a sum over packets, what \<^verbatim>\<open>EncodeFec\<close>
    achieves for every format that meets the contract, and that a lost packet is reconstructed from it.
  \<^item> \<open>Fec_Decoding\<close>, \<open>Fec_Contracts\<close>, \<open>Fec_Session\<close>: the locale \<open>fec_decoding\<close>, in which the invariant of the
    decoder is proved once for any predicate on packets, its interpretations for arbitrary received bytes
    and for packets of a sender, and sequences of arrivals.
  \<^item> \<open>Fec_Completeness\<close>: the order of the lists and the links, and that every packet that can be recovered is.
  \<^item> \<open>Http_Parser\<close>, \<open>Http_Reply\<close>, \<open>Http_Handler\<close>, \<open>Http_Connection\<close>: \<^verbatim>\<open>request_parser.cpp\<close>, \<^verbatim>\<open>reply.cpp\<close>
    with \<^verbatim>\<open>mime_types.cpp\<close>, \<^verbatim>\<open>request_handler.cpp\<close>, and \<^verbatim>\<open>connection.cpp\<close> with \<^verbatim>\<open>connection_manager.cpp\<close> and
    \<^verbatim>\<open>server.cpp\<close>.

  \<^bold>\<open>Modelling.\<close>  A class is a record of its members, a derived class an extension of the record.  A
  method that changes the object returns the new one; \<open>None\<close> stands for an access out of bounds or a
  failed \<^verbatim>\<open>RTC_DCHECK\<close>, \<open>Some (False, _)\<close> for the return value false.  The buffer, the index and the
  pieces given to the callback are the record \<open>sink\<close>.  Uninitialised memory is an argument (\<open>fill\<close>).
  Integers have their width where it matters; sizes (\<^verbatim>\<open>size_t\<close>) are unbounded, with their subtraction
  wrapping (\<open>size_sub\<close>), and so are timestamps in microseconds (\<^verbatim>\<open>int64_t\<close>): times near the ends of its range,
  where the subtraction in \<^verbatim>\<open>AddReceivedPacket\<close> would overflow, are not told apart.  The \<^verbatim>\<open>int64_t\<close> arithmetic
  of the \<^verbatim>\<open>Unwrapper\<close> is checked (\<open>int64\<close>).  \<open>SignExtend\<close> shifts a word where \<^verbatim>\<open>byte_io.h\<close> shifts an \<^verbatim>\<open>int\<close>
  literal; the two agree for fields of up to 3 bytes, the only ones that are sign-extended here.  \<^verbatim>\<open>NtpTime\<close>, which is not part of the
  repository, is a parameter (\<open>ntp_ops\<close>, with the laws \<open>ntp_ok\<close>).  Loops are recursive functions with
  termination proofs; no fuel is used.  In forward error correction the memory behind a packet
  (\<^verbatim>\<open>rtc::CopyOnWriteBuffer\<close>) has a size and a capacity, and memory that is not initialised is again the
  argument \<open>fill\<close>; shared ownership of packets is not visible, as nothing changes a packet that is held.
  \<^verbatim>\<open>MinDiff\<close>, which is not part of the repository, is the parameter \<open>min_diff\<close>.  \<^verbatim>\<open>std::list::sort\<close> is a stable
  insertion sort with the comparison of the code, \<^verbatim>\<open>lower_bound\<close> a bisection.  In the HTTP server \<open>None\<close> stands for undefined behaviour, the
  file system is the parameter \<open>files\<close>, and an asynchronous operation is a member of the state that says
  what is outstanding: the step relation \<open>server_step\<close> lets any of them complete, with every outcome that
  the documentation of Asio allows, and runs its handler.

  \<^bold>\<open>Properties.\<close>  Byte order round trips; bounds of the common header and safety of all parsers on
  arbitrary bytes; round trips of all packet classes, with exact error bounds where a format rounds;
  splitting over buffers for NACK and compound packets; the order of sequence numbers and the
  \<^verbatim>\<open>Unwrapper\<close>; the invariant of transport feedback, its round trip and its rounding of times; for
  forward error correction, that the masks protect every packet, that gaps become zeros, the round trip
  of both header formats, that the FEC packets carry the parity of their media packets, that the decoder
  terminates and keeps its bounds whatever it is given, that it gives back what was sent, and that it
  repairs every loss an FEC packet covers; for
  the HTTP server, independence of how the network splits a request, the round trip and soundness of
  the parser, confinement of the handler to the document root, the invariant of connections and their
  manager, and that a stopped server ends.  The corner cases in which the code does not do what it means to are
  stated next to the properties they concern.

  \<^bold>\<open>Not modelled.\<close>  Logging; the accessors that wrap values in \<^verbatim>\<open>TimeDelta\<close>; \<^verbatim>\<open>RemoteEstimate\<close> (its
  fields are types from outside the repository); the RTCP sender, receiver and transceiver, RTP
  packets, the generators and receivers that wrap forward error correction in RTP packets, pacing and
  congestion control, which rest on clocks, task queues and containers from outside the repository;
  sockets, the name resolver and the event loop of the HTTP server, and its \<^verbatim>\<open>main.cpp\<close>; the demonstration
  programs.
\<close>

lemmas packet_types = kSenderReportPacketType_def kReceiverReportPacketType_def
  kExtendedJitterReportPacketType_def kSdesPacketType_def kByePacketType_def kAppPacketType_def
  kXrPacketType_def kRtpfbPacketType_def kPsfbPacketType_def kNackFeedbackMessageType_def
  kTmmbrFeedbackMessageType_def kTmmbnFeedbackMessageType_def kRrrFeedbackMessageType_def
  kPliFeedbackMessageType_def kFirFeedbackMessageType_def kAfbMessageType_def

section \<open>Example objects\<close>

text \<open>Concrete packets at which the hypotheses of the properties below hold.\<close>

definition ex_ntp :: "(u32 \<times> u32) ntp_ops" where
  "ex_ntp = \<lparr>ntp_set = (\<lambda>s f. (s, f)), ntp_seconds = fst, ntp_fractions = snd\<rparr>"

definition ex_block :: report_block where
  "ex_block = \<lparr>source_ssrc = 0x23456789, fraction_lost = 55, cumulative_lost_signed = - 5,
     extended_high_seq_num = 0x2bcd, jitter = 70, last_sr = 80, delay_since_last_sr = 90\<rparr>"

definition ex_sr :: "(u32 \<times> u32) sender_report" where
  "ex_sr = \<lparr>sender_ssrc = 0x12345678, sr_ntp = (0x11121418, 0x22242628), sr_rtp_timestamp = 0x33343536,
     sender_packet_count = 4, sender_octet_count = 5, sr_report_blocks = [ex_block]\<rparr>"

definition ex_rr :: receiver_report where
  "ex_rr = \<lparr>sender_ssrc = 0x12345678, rr_report_blocks = [ex_block]\<rparr>"

definition ex_xr :: "(u32 \<times> u32) extended_reports" where
  "ex_xr = \<lparr>sender_ssrc = 0x12345678, rrtr_block = Some \<lparr>rrtr_ntp = (0x11121418, 0x22242628)\<rparr>,
     dlrr_block = [\<lparr>rti_ssrc = 1, last_rr = 2, delay_since_last_rr = 3\<rparr>],
     xr_target_bitrate = Some [\<lparr>spatial_layer = 1, temporal_layer = 2, target_bitrate_kbps = 1000\<rparr>]\<rparr>"

definition ex_sdes :: sdes where
  "ex_sdes = \<lparr>sender_ssrc = 7, chunks = [\<lparr>chunk_ssrc = 0x12345678, cname = [97, 108, 105, 99, 101]\<rparr>], block_length = 16\<rparr>"

definition ex_bye :: bye where
  "ex_bye = \<lparr>sender_ssrc = 0x12345678, csrcs = [0x22232425], reason = [98, 121, 101]\<rparr>"

definition ex_app :: app where
  "ex_app = \<lparr>sender_ssrc = 0x12345678, sub_type = 0x1e, app_name = 0x6e616d65, app_data = [116, 101, 115, 116]\<rparr>"

definition ex_fir :: fir where
  "ex_fir = \<lparr>sender_ssrc = 0x12345678, psfb_media_ssrc = 0, fir_items = [\<lparr>fir_ssrc = 0x23456789, fir_seq_nr = 13\<rparr>]\<rparr>"

definition ex_lntf :: loss_notification where
  "ex_lntf = \<lparr>sender_ssrc = 1, psfb_media_ssrc = 2, last_decoded = 0, last_received = 0, decodability_flag = False\<rparr>"

definition ex_header :: common_header where
  "ex_header = \<lparr>packet_type = 0, count_or_format = 0, padding_size = 0, payload_size = 0, payload = []\<rparr>"


definition ex_remb :: remb where
  "ex_remb = \<lparr>sender_ssrc = 1, psfb_media_ssrc = 0, remb_bitrate_bps = 1234567, remb_ssrcs = [5, 6]\<rparr>"

definition ex_nack :: nack where
  "ex_nack = \<lparr>sender_ssrc = 1, rtpfb_media_ssrc = 2, packed = [], packet_ids = []\<rparr>"

text \<open>
  A feedback packet for one received packet: base sequence number 1, one status, reference time 0,
  feedback sequence number 0, a two-bit status chunk that announces a two-byte delta, the delta 5.
\<close>

definition large_delta_header :: common_header where
  "large_delta_header = \<lparr>packet_type = kRtpfbPacketType, count_or_format = kTransportFeedbackFeedbackMessageType,
     padding_size = 0, payload_size = 20,
     payload = [0, 0, 0, 1, 0, 0, 0, 2, 0, 1, 0, 1, 0, 0, 0, 0, 0xe0, 0, 0, 5]\<rparr>"

definition ex_chunk :: last_chunk where
  "ex_chunk = \<lparr>delta_sizes = [1, 2, 0, 0, 0, 0, 0, 0, 0, 0, 0, 0, 0, 0], chunk_size = 2, all_same = False,
     has_large_delta = True\<rparr>"

definition ex_tf :: transport_feedback where
  "ex_tf = TransportFeedback_new (\<lambda>_. 0) True True"

definition ex_request :: request where
  "ex_request = \<lparr>req_method = ''GET'', req_uri = ''/a%20b.html'', http_version_major = 1, http_version_minor = 1,
     req_headers = [\<lparr>hdr_name = ''Host'', hdr_value = ''localhost''\<rparr>]\<rparr>"

definition ex_files :: "string \<Rightarrow> string option" where
  "ex_files path = (if path = ''/srv/a b.html'' then Some ''hello'' else None)"

definition ex_reply :: reply where
  "ex_reply = \<lparr>reply_status = Status_ok, reply_headers = [], reply_content = []\<rparr>"

section \<open>Byte order\<close>

text \<open>
  C1: Writing an integer in big-endian order into B bytes and reading it back gives its low 8 * B
  bits; the writer changes no other byte and does not change the length of the buffer.
\<close>

theorem big_endian_roundtrip:
  fixes v :: "'a::len word"
  assumes "0 < B" "off + B \<le> length data"
  shows "\<exists>data'. WriteBigEndian B 0 data off v = Some data' \<and>
    InternalReadBigEndian B 0 data' off 0 = Some (take_bit (8 * B) v) \<and> length data' = length data \<and>
    take off data' = take off data \<and> drop (off + B) data' = drop (off + B) data"
proof -
  let ?d = "overwrite data off (be_bytes B v)"
  have "WriteBigEndian B 0 data off v = Some ?d" using assms by (simp add: WriteBigEndian_put put_fits)
  moreover have "InternalReadBigEndian B 0 ?d off 0 = Some (be_val (be_bytes B v) :: 'a word)"
    using assms by (simp add: InternalReadBigEndian_slice slice_def overwrite_def)
  moreover have "length ?d = length data" "take off ?d = take off data" "drop (off + B) ?d = drop (off + B) data"
    using assms by (simp_all add: overwrite_def)
  ultimately show ?thesis by (auto simp: be_val_be_bytes)
qed

theorem big_endian_roundtrip_witness:
  "\<exists>data'. WriteBigEndian 3 0 [1, 2, 3, 4, 5] 1 (0x12345678 :: u32) = Some data' \<and>
    InternalReadBigEndian 3 0 data' 1 0 = Some (take_bit (8 * 3) (0x12345678 :: u32)) \<and>
    length data' = length [1, 2, 3, 4, 5 :: u8] \<and> take 1 data' = take 1 [1, 2, 3, 4, 5] \<and>
    drop (1 + 3) data' = drop (1 + 3) [1, 2, 3, 4, 5]"
  by (rule big_endian_roundtrip) simp_all

text \<open>
  The hand-written specialisations for 2, 4 and 8 bytes compute what the generic templates
  compute, reads and writes, in and out of range.
\<close>

theorem specialisations_agree:
  "ReadBE16 data off = InternalReadBigEndian 2 0 data off 0 \<and>
   ReadBE32 data off = InternalReadBigEndian 4 0 data off 0 \<and>
   ReadBE64 data off = InternalReadBigEndian 8 0 data off 0 \<and>
   WriteBE16 data off v2 = WriteBigEndian 2 0 data off v2 \<and>
   WriteBE32 data off v4 = WriteBigEndian 4 0 data off v4 \<and>
   WriteBE64 data off v8 = WriteBigEndian 8 0 data off v8"
  by (simp add: read_simps InternalReadBigEndian_slice write_simps WriteBigEndian_put)

text \<open>
  A signed value of 24 bits written into three bytes is read back by the signed reader with its
  sign.
\<close>

theorem signed_24_bit_roundtrip:
  assumes "off + 3 \<le> length data" "- (2 ^ 23) \<le> sint v" "sint v < 2 ^ 23"
  shows "\<exists>data'. WriteBE24 data off v = Some data' \<and> ReadBE24s data' off = Some v"
proof -
  let ?d = "overwrite data off (be_bytes 3 v)"
  have "WriteBE24 data off v = Some ?d" using assms(1) by (simp add: write_simps put_fits)
  moreover have "ReadBE24s ?d off = Some v" using assms by (simp add: read_simps slice_def overwrite_def)
  ultimately show ?thesis by blast
qed

theorem signed_24_bit_roundtrip_witness:
  "\<exists>data'. WriteBE24 [9, 9, 9, 9] 1 (- 5) = Some data' \<and> ReadBE24s data' 1 = Some (- 5)"
  by (rule signed_24_bit_roundtrip) (simp, code_simp, code_simp)

section \<open>Receiving\<close>

text \<open>
  C2: Parsing the common header accepts any buffer without reading out of bounds.  When it succeeds,
  payload and padding lie within the buffer, the packet takes at least four bytes, and the rest of
  the buffer starts right behind it.
\<close>

theorem common_header_in_bounds:
  "\<exists>ok h. CommonHeader_Parse h0 buffer = Some (ok, h) \<and>
     (ok \<longrightarrow> payload_size h + unat (padding_size h) + 4 \<le> length buffer \<and> 4 \<le> packet_size h \<and>
        packet_size h \<le> length buffer \<and> count_or_format h \<le> 31 \<and>
        payload_view h = take (payload_size h) (drop 4 buffer) \<and>
        NextPacket h = drop (packet_size h) buffer)"
proof -
  obtain ok h where h: "CommonHeader_Parse h0 buffer = Some (ok, h)"
    using CommonHeader_Parse_total [of h0 buffer] by auto
  show ?thesis
  proof (cases ok)
    case True
    then have "CommonHeader_Parse h0 buffer = Some (True, h)" using h by simp
    note facts = CommonHeader_Parse_True [OF this]
    have "payload_size h + unat (padding_size h) + 4 \<le> length buffer"
      using facts(2) by (simp add: packet_size_def kHeaderLength_def)
    with facts h show ?thesis by (auto simp: wf_header_def payload_view_def)
  qed (use h in auto)
qed

theorem common_header_in_bounds_witness:
  "\<exists>h. CommonHeader_Parse ex_header [0x80, 200, 0, 1, 1, 2, 3, 4, 5] = Some (True, h) \<and>
     packet_size h \<le> 9 \<and> NextPacket h = drop (packet_size h) [0x80, 200, 0, 1, 1, 2, 3, 4, 5]"
proof -
  obtain h where h: "CommonHeader_Parse ex_header [0x80, 200, 0, 1, 1, 2, 3, 4, 5] = Some (True, h)"
    using CommonHeader_Parse_wire [of 0 1 "[1, 2, 3, 4]" ex_header 200 "[5]"]
    by (simp add: header_wire_def be_bytes_2)
  with common_header_in_bounds [of ex_header "[0x80, 200, 0, 1, 1, 2, 3, 4, 5]"] show ?thesis by auto
qed

text \<open>
  C3: No parser of a packet class reads outside the received bytes or trips an assertion, whatever
  the bytes are: for every buffer whose common header parses, the parser of its packet type (and
  feedback message type) returns true or false.
\<close>

theorem parsers_never_fault:
  assumes h: "CommonHeader_Parse h0 buffer = Some (True, h)"
  shows "(packet_type h = 200 \<longrightarrow> SenderReport_Parse N p_sr h \<noteq> None) \<and>
    (packet_type h = 201 \<longrightarrow> ReceiverReport_Parse p_rr h \<noteq> None) \<and>
    (packet_type h = 195 \<longrightarrow> ExtendedJitterReport_Parse p_ij h \<noteq> None) \<and>
    (packet_type h = 202 \<longrightarrow> Sdes_Parse p_sdes h \<noteq> None) \<and>
    (packet_type h = 203 \<longrightarrow> Bye_Parse p_bye h \<noteq> None) \<and>
    (packet_type h = 204 \<longrightarrow> App_Parse p_app h \<noteq> None) \<and>
    (packet_type h = 207 \<longrightarrow> ExtendedReports_Parse N p_xr h \<noteq> None) \<and>
    (packet_type h = 205 \<longrightarrow>
       (count_or_format h = 1 \<longrightarrow> Nack_Parse p_nack h \<noteq> None) \<and>
       (count_or_format h = 3 \<longrightarrow> Tmmbr_Parse p_tmmbr h \<noteq> None) \<and>
       (count_or_format h = 4 \<longrightarrow> Tmmbn_Parse p_tmmbn h \<noteq> None) \<and>
       (count_or_format h = 5 \<longrightarrow> RapidResyncRequest_Parse p_rrr h \<noteq> None)) \<and>
    (packet_type h = 206 \<longrightarrow>
       (count_or_format h = 1 \<longrightarrow> Pli_Parse p_pli h \<noteq> None) \<and>
       (count_or_format h = 4 \<longrightarrow> Fir_Parse p_fir h \<noteq> None) \<and>
       (count_or_format h = 15 \<longrightarrow> Remb_Parse p_remb h \<noteq> None \<and> LossNotification_Parse p_lntf h \<noteq> None))"
  using srp.Parse_received [OF h, of N p_sr] rrp.Parse_received [OF h, of p_rr] ijp.Parse_received [OF h, of p_ij]
    sdesp.Parse_received [OF h, of p_sdes] byep.Parse_received [OF h, of p_bye] appp.Parse_received [OF h, of p_app]
    xrp.Parse_received [OF h, of N p_xr] nackp.Parse_received [OF h, of p_nack] tmmbrp.Parse_received [OF h, of p_tmmbr]
    tmmbnp.Parse_received [OF h, of p_tmmbn] rrrp.Parse_received [OF h, of p_rrr] plip.Parse_received [OF h, of p_pli]
    firp.Parse_received [OF h, of p_fir] rembp.Parse_received [OF h, of p_remb] lntfp.Parse_received [OF h, of p_lntf]
  by (auto simp: packet_types)

theorem parsers_never_fault_witness:
  "\<exists>h. CommonHeader_Parse ex_header [0x81, 203, 0, 1, 1, 2, 3, 4] = Some (True, h) \<and>
     packet_type h = 203 \<and> Bye_Parse \<lparr>sender_ssrc = 0, csrcs = [], reason = []\<rparr> h \<noteq> None"
proof -
  have "header_wire 1 203 1 False = [0x81, 203, 0, 1]" by code_simp
  then obtain h where h: "CommonHeader_Parse ex_header [0x81, 203, 0, 1, 1, 2, 3, 4] = Some (True, h)" "packet_type h = 203"
    using CommonHeader_Parse_wire [of 1 1 "[1, 2, 3, 4]" ex_header 203 "[]"] by (simp del: One_nat_def)
  then have "Bye_Parse \<lparr>sender_ssrc = 0, csrcs = [], reason = []\<rparr> h \<noteq> None"
    using parsers_never_fault [OF h(1), THEN conjunct2, THEN conjunct2, THEN conjunct2, THEN conjunct2, THEN conjunct1]
    by blast
  with h show ?thesis by blast
qed

section \<open>Round trips\<close>

text \<open>
  C4: Sender and receiver reports with at most 31 report blocks, each with a cumulative loss that fits in
  24 signed bits, survive the round trip: Build gives exactly BlockLength bytes, and parsing them
  restores the report, whatever object it is parsed into and whatever follows in the buffer.
\<close>

theorem reports_roundtrip:
  assumes "ntp_ok N" "sr_valid p" "rr_valid p2"
  shows "(\<exists>bytes h. Build (SenderReport_Create N p) (SenderReport_BlockLength p) fill = Some bytes \<and>
    length bytes = SenderReport_BlockLength p \<and> CommonHeader_Parse h0 (bytes @ rest) = Some (True, h) \<and>
    SenderReport_Parse N q h = Some (True, p) \<and> NextPacket h = rest) \<and>
   (\<exists>bytes h. Build (ReceiverReport_Create p2) (ReceiverReport_BlockLength p2) fill = Some bytes \<and>
    length bytes = ReceiverReport_BlockLength p2 \<and> CommonHeader_Parse h0 (bytes @ rest) = Some (True, h) \<and>
    ReceiverReport_Parse q2 h = Some (True, p2) \<and> NextPacket h = rest)"
  using assms by (intro conjI sr.roundtrip rr.roundtrip) simp_all

theorem reports_roundtrip_witness:
  "ntp_ok ex_ntp \<and> sr_valid ex_sr \<and> rr_valid ex_rr \<and>
   (\<exists>bytes h. Build (SenderReport_Create ex_ntp ex_sr) (SenderReport_BlockLength ex_sr) (\<lambda>_. 0) = Some bytes \<and>
    length bytes = SenderReport_BlockLength ex_sr \<and> CommonHeader_Parse ex_header (bytes @ []) = Some (True, h) \<and>
    SenderReport_Parse ex_ntp ex_sr h = Some (True, ex_sr) \<and> NextPacket h = []) \<and>
   (\<exists>bytes h. Build (ReceiverReport_Create ex_rr) (ReceiverReport_BlockLength ex_rr) (\<lambda>_. 0) = Some bytes \<and>
    length bytes = ReceiverReport_BlockLength ex_rr \<and> CommonHeader_Parse ex_header (bytes @ []) = Some (True, h) \<and>
    ReceiverReport_Parse ex_rr h = Some (True, ex_rr) \<and> NextPacket h = [])"
proof -
  have "ntp_ok ex_ntp" by (simp add: ntp_ok_def ex_ntp_def)
  moreover have "sr_valid ex_sr" "rr_valid ex_rr" by code_simp+
  ultimately show ?thesis using reports_roundtrip [of ex_ntp ex_sr ex_rr] by blast
qed

text \<open>
  C5: Extended reports with any combination of a receiver reference time block, DLRR items and a
  target bitrate block survive the round trip.
\<close>

theorem extended_reports_roundtrip:
  assumes "ntp_ok N" "xr_valid p"
  shows "\<exists>bytes h. Build (ExtendedReports_Create N p) (ExtendedReports_BlockLength p) fill = Some bytes \<and>
    length bytes = ExtendedReports_BlockLength p \<and> CommonHeader_Parse h0 (bytes @ rest) = Some (True, h) \<and>
    ExtendedReports_Parse N q h = Some (True, p) \<and> NextPacket h = rest"
  using assms by (intro xr.roundtrip) simp

theorem extended_reports_roundtrip_witness:
  "ntp_ok ex_ntp \<and> xr_valid ex_xr \<and>
   (\<exists>bytes h. Build (ExtendedReports_Create ex_ntp ex_xr) (ExtendedReports_BlockLength ex_xr) (\<lambda>_. 0) = Some bytes \<and>
    length bytes = ExtendedReports_BlockLength ex_xr \<and> CommonHeader_Parse ex_header (bytes @ [1]) = Some (True, h) \<and>
    ExtendedReports_Parse ex_ntp ex_xr h = Some (True, ex_xr) \<and> NextPacket h = [1])"
proof -
  have "ntp_ok ex_ntp" by (simp add: ntp_ok_def ex_ntp_def)
  moreover have "xr_valid ex_xr"
    by (simp add: xr_valid_def ex_xr_def tb_valid_def bitrate_item_valid_def kMaxNumberOfDlrrItems_def)
  ultimately show ?thesis using extended_reports_roundtrip [of ex_ntp ex_xr] by blast
qed

text \<open>
  C6: Source descriptions survive the round trip.  Parse does not touch the sender SSRC of the
  object it fills, because the packet has none.
\<close>

theorem sdes_roundtrip:
  assumes "sdes_valid p"
  shows "\<exists>bytes h. Build (Sdes_Create p) (Sdes_BlockLength p) fill = Some bytes \<and>
    length bytes = Sdes_BlockLength p \<and> CommonHeader_Parse h0 (bytes @ rest) = Some (True, h) \<and>
    Sdes_Parse q h = Some (True, p\<lparr>sender_ssrc := sender_ssrc q\<rparr>) \<and> NextPacket h = rest"
  using sdes.Build_wire [OF assms] sdes.length_wire [OF assms] Sdes_Parse_wire [OF assms] by blast

theorem sdes_roundtrip_witness:
  "sdes_valid ex_sdes \<and>
   (\<exists>bytes h. Build (Sdes_Create ex_sdes) (Sdes_BlockLength ex_sdes) (\<lambda>_. 0) = Some bytes \<and>
    length bytes = Sdes_BlockLength ex_sdes \<and> CommonHeader_Parse ex_header (bytes @ []) = Some (True, h) \<and>
    Sdes_Parse Sdes_default h = Some (True, ex_sdes\<lparr>sender_ssrc := sender_ssrc Sdes_default\<rparr>) \<and> NextPacket h = [])"
proof -
  have "sdes_valid ex_sdes" by code_simp
  then show ?thesis using sdes_roundtrip [of ex_sdes] by blast
qed

text \<open>
  C7: Every source description a client can get keeps its cached block length exact, has at most 31
  chunks, and every canonical name fits in its length byte.
\<close>

theorem sdes_block_length_exact:
  assumes "sdes_reachable p"
  shows "Sdes_BlockLength p = 4 + sum_list (map ChunkSize (chunks p)) \<and> length (chunks p) \<le> 31 \<and>
    list_all (\<lambda>c. length (cname c) \<le> 255) (chunks p)"
  using sdes_reachable_valid [OF assms]
  by (simp add: sdes_valid_def Sdes_BlockLength_def kHeaderLength_def kMaxNumberOfChunks_def)

theorem sdes_block_length_exact_witness:
  "\<exists>p. AddCName Sdes_default 5 [97, 98] = Some (True, p) \<and> Sdes_BlockLength p = 4 + sum_list (map ChunkSize (chunks p)) \<and>
    length (chunks p) \<le> 31 \<and> list_all (\<lambda>c. length (cname c) \<le> 255) (chunks p)"
proof -
  obtain p where p: "AddCName Sdes_default 5 [97, 98] = Some (True, p)"
    by (auto simp: AddCName_def Sdes_default_def kMaxNumberOfChunks_def dcheck_def Let_def)
  from sdes_block_length_exact [OF sdes_add [OF sdes_init p]] p show ?thesis by blast
qed

text \<open>C8: BYE and APP packets survive the round trip.\<close>

theorem bye_app_roundtrip:
  assumes "bye_valid b" "app_valid a"
  shows "(\<exists>bytes h. Build (Bye_Create b) (Bye_BlockLength b) fill = Some bytes \<and> length bytes = Bye_BlockLength b \<and>
      CommonHeader_Parse h0 (bytes @ rest) = Some (True, h) \<and> Bye_Parse q h = Some (True, b) \<and> NextPacket h = rest) \<and>
    (\<exists>bytes h. Build (App_Create a) (App_BlockLength a) fill = Some bytes \<and> length bytes = App_BlockLength a \<and>
      CommonHeader_Parse h0 (bytes @ rest) = Some (True, h) \<and> App_Parse q' h = Some (True, a) \<and> NextPacket h = rest)"
  using bye.roundtrip [OF assms(1)] app.roundtrip [OF assms(2)] by blast

theorem bye_app_roundtrip_witness:
  "bye_valid ex_bye \<and> app_valid ex_app \<and>
   (\<exists>bytes h. Build (Bye_Create ex_bye) (Bye_BlockLength ex_bye) (\<lambda>_. 0) = Some bytes \<and> length bytes = Bye_BlockLength ex_bye \<and>
      CommonHeader_Parse ex_header (bytes @ []) = Some (True, h) \<and> Bye_Parse ex_bye h = Some (True, ex_bye) \<and> NextPacket h = [])"
proof -
  have "bye_valid ex_bye" by code_simp
  moreover have "app_valid ex_app"
    by (simp add: app_valid_def ex_app_def kMaxDataSize_def kAppBaseLength_def)
  ultimately show ?thesis using bye_app_roundtrip [of ex_bye ex_app] by blast
qed

text \<open>C9: Full intra requests, picture loss indications and resynchronisation requests survive the round trip.\<close>

theorem intra_request_roundtrip:
  assumes "fir_valid f"
  shows "(\<exists>bytes h. Build (Fir_Create f) (Fir_BlockLength f) fill = Some bytes \<and> length bytes = Fir_BlockLength f \<and>
      CommonHeader_Parse h0 (bytes @ rest) = Some (True, h) \<and> Fir_Parse qf h = Some (True, f) \<and> NextPacket h = rest) \<and>
    (\<exists>bytes h. Build (Pli_Create p) (Pli_BlockLength p) fill = Some bytes \<and> length bytes = 12 \<and>
      CommonHeader_Parse h0 (bytes @ rest) = Some (True, h) \<and> Pli_Parse qp h = Some (True, p) \<and> NextPacket h = rest) \<and>
    (\<exists>bytes h. Build (RapidResyncRequest_Create r) (RapidResyncRequest_BlockLength r) fill = Some bytes \<and>
      length bytes = 12 \<and> CommonHeader_Parse h0 (bytes @ rest) = Some (True, h) \<and>
      RapidResyncRequest_Parse qr h = Some (True, r) \<and> NextPacket h = rest)"
  using fir.roundtrip [OF assms] pli.roundtrip [OF TrueI, of p] rrr.roundtrip [OF TrueI, of r]
  by (simp add: Pli_BlockLength_def RapidResyncRequest_BlockLength_def kHeaderLength_def kCommonFeedbackLength_def)

theorem intra_request_roundtrip_witness:
  "fir_valid ex_fir \<and>
   (\<exists>bytes h. Build (Fir_Create ex_fir) (Fir_BlockLength ex_fir) (\<lambda>_. 0) = Some bytes \<and> length bytes = Fir_BlockLength ex_fir \<and>
      CommonHeader_Parse ex_header (bytes @ []) = Some (True, h) \<and> Fir_Parse ex_fir h = Some (True, ex_fir) \<and> NextPacket h = [])"
proof -
  have "fir_valid ex_fir" by (simp add: fir_valid_def ex_fir_def)
  then show ?thesis using intra_request_roundtrip [of ex_fir] by blast
qed

text \<open>
  C10: A loss notification is accepted by Set exactly when the last received packet is less than
  2^15 ahead of the last decoded one (modulo 2^16); what Set stores survives the round trip.
\<close>

theorem loss_notification_set_and_roundtrip:
  "fst (LossNotification_Set p decoded_seq received_seq flag) = (received_seq - decoded_seq \<le> 0x7fff) \<and>
   (\<forall>p'. LossNotification_Set p decoded_seq received_seq flag = (True, p') \<longrightarrow>
     (\<exists>bytes h. Build (LossNotification_Create p') (LossNotification_BlockLength p') fill = Some bytes \<and>
        CommonHeader_Parse h0 (bytes @ rest) = Some (True, h) \<and> LossNotification_Parse q h = Some (True, p') \<and>
        last_decoded p' = decoded_seq \<and> last_received p' = received_seq \<and> decodability_flag p' = flag))"
proof (intro conjI allI impI)
  show "fst (LossNotification_Set p decoded_seq received_seq flag) = (received_seq - decoded_seq \<le> 0x7fff)"
    by (rule LossNotification_Set_refuses)
  fix p' assume set: "LossNotification_Set p decoded_seq received_seq flag = (True, p')"
  have "last_decoded p' = decoded_seq" "last_received p' = received_seq" "decodability_flag p' = flag"
    using set by (auto simp: LossNotification_Set_def Let_def split: if_splits)
  then show "\<exists>bytes h. Build (LossNotification_Create p') (LossNotification_BlockLength p') fill = Some bytes \<and>
        CommonHeader_Parse h0 (bytes @ rest) = Some (True, h) \<and> LossNotification_Parse q h = Some (True, p') \<and>
        last_decoded p' = decoded_seq \<and> last_received p' = received_seq \<and> decodability_flag p' = flag"
    using lntf.roundtrip [OF LossNotification_Set_valid [OF set], of fill h0 rest q] by blast
qed

theorem loss_notification_set_and_roundtrip_witness:
  "\<exists>p bytes h. LossNotification_Set ex_lntf 0xfffe 3 True = (True, p) \<and>
    Build (LossNotification_Create p) (LossNotification_BlockLength p) (\<lambda>_. 0) = Some bytes \<and>
    CommonHeader_Parse ex_header (bytes @ []) = Some (True, h) \<and> LossNotification_Parse ex_lntf h = Some (True, p) \<and>
    last_decoded p = 0xfffe \<and> last_received p = 3 \<and> decodability_flag p = True"
proof -
  obtain p where p: "LossNotification_Set ex_lntf 0xfffe 3 True = (True, p)"
    using loss_notification_set_and_roundtrip [where p = ex_lntf and decoded_seq = "0xfffe" and received_seq = 3 and flag = True]
    by (cases "LossNotification_Set ex_lntf 0xfffe 3 True") simp
  from loss_notification_set_and_roundtrip [where p = ex_lntf and decoded_seq = "0xfffe" and received_seq = 3 and flag = True] p show ?thesis by blast
qed

section \<open>Bitrates\<close>





text \<open>
  C12: A REMB packet survives the round trip except for the rounding of its bitrate, which is at most
  the bitrate sent and less by at most one part in 2^17.
\<close>

theorem remb_roundtrip:
  assumes "remb_valid p"
  shows "\<exists>bytes h p'. Build (Remb_Create p) (Remb_BlockLength p) fill = Some bytes \<and>
    length bytes = Remb_BlockLength p \<and> CommonHeader_Parse h0 (bytes @ rest) = Some (True, h) \<and>
    Remb_Parse q h = Some (True, p') \<and> NextPacket h = rest \<and>
    sender_ssrc p' = sender_ssrc p \<and> remb_ssrcs p' = remb_ssrcs p \<and> remb_bitrate_bps p' \<le> remb_bitrate_bps p \<and>
    (unat (remb_bitrate_bps p) - unat (remb_bitrate_bps p')) * 2 ^ 17 \<le> unat (remb_bitrate_bps p)"
proof -
  have "sender_ssrc (remb_canon p) = sender_ssrc p" "remb_ssrcs (remb_canon p) = remb_ssrcs p"
    "remb_bitrate_bps (remb_canon p) \<le> remb_bitrate_bps p"
    "(unat (remb_bitrate_bps p) - unat (remb_bitrate_bps (remb_canon p))) * 2 ^ 17 \<le> unat (remb_bitrate_bps p)"
    using quantize_error [of "0x3ffff" 18 "remb_bitrate_bps p"] by (simp_all add: remb_canon_def quantize_le)
  then show ?thesis using remb.roundtrip_canon [OF assms] by blast
qed

theorem remb_roundtrip_witness:
  "remb_valid ex_remb \<and>
   (\<exists>bytes h p'. Build (Remb_Create ex_remb) (Remb_BlockLength ex_remb) (\<lambda>_. 0) = Some bytes \<and>
      CommonHeader_Parse ex_header (bytes @ []) = Some (True, h) \<and> Remb_Parse ex_remb h = Some (True, p') \<and>
      remb_ssrcs p' = remb_ssrcs ex_remb \<and> remb_bitrate_bps p' \<le> remb_bitrate_bps ex_remb)"
proof -
  have "remb_valid ex_remb" by (simp add: remb_valid_def ex_remb_def kMaxNumberOfSsrcs_def)
  then show ?thesis using remb_roundtrip [of ex_remb] by blast
qed

text \<open>
  The overflow check of Remb::Parse is made on the unsigned value, so it lets through a mantissa
  whose top bit becomes the sign bit: some REMB packets are accepted with a negative bitrate.
\<close>

theorem remb_negative_bitrate:
  "\<exists>buffer h p'. CommonHeader_Parse h0 buffer = Some (True, h) \<and> Remb_Parse q h = Some (True, p') \<and>
    sint (remb_bitrate_bps p') < 0"
proof -
  let ?p = "ex_remb\<lparr>remb_bitrate_bps := push_bit 63 1\<rparr>"
  have "remb_valid ?p" by (simp add: remb_valid_def ex_remb_def kMaxNumberOfSsrcs_def)
  from Remb_Parse_can_be_negative [OF this, of h0 q] show ?thesis by auto
qed

section \<open>Negative acknowledgements\<close>

text \<open>
  C13: Between 1 and 65533 packet ids given to a new NACK, in whatever order and with repetitions, come
  out of the round trip as the same set; ids in ascending order modulo 2^16 come out as the same list.
  (An empty list stops at the assertion of Create, and the length field of the header has 16 bits.)
\<close>

theorem nack_roundtrip:
  assumes "packet_ids p = []" "packed p = []" "ids \<noteq> []" "length ids \<le> 65533"
  shows "\<exists>p' bytes h q'. SetPacketIds p ids = Some p' \<and>
    Build (Nack_Create p') (Nack_BlockLength p') fill = Some bytes \<and>
    CommonHeader_Parse h0 (bytes @ rest) = Some (True, h) \<and> Nack_Parse q h = Some (True, q') \<and>
    sender_ssrc q' = sender_ssrc p \<and> rtpfb_media_ssrc q' = rtpfb_media_ssrc p \<and>
    set (packet_ids q') = set ids \<and> (ascending_from b ids \<longrightarrow> packet_ids q' = ids) \<and> NextPacket h = rest"
proof -
  let ?p = "p\<lparr>packet_ids := ids, packed := pack_items ids\<rparr>"
  have ne: "pack_items ids \<noteq> []" using assms(3) by (cases ids) (simp_all split: prod.split)
  have len: "length (pack_items ids) \<le> 65533" using pack_items_length [of ids] assms(4) by linarith
  have "Build (Nack_Create ?p) (Nack_BlockLength ?p) fill = Some (nack_wire ?p (pack_items ids))"
    using Nack_Build [of ?p] ne len by (simp add: nack_valid_def)
  moreover obtain h where "CommonHeader_Parse h0 (nack_wire ?p (pack_items ids) @ rest) = Some (True, h)"
    "NextPacket h = rest"
    "Nack_Parse q h = Some (True, ?p\<lparr>packet_ids := concat (map unpack_item (pack_items ids))\<rparr>)"
    using Nack_Parse_wire [OF ne len, of h0 ?p rest q] by auto
  moreover note SetPacketIds_packs [OF assms(1-3)] unpack_pack_set [of ids] unpack_pack_ascending [of b ids]
  ultimately show ?thesis by fastforce
qed

theorem nack_roundtrip_witness:
  "packet_ids ex_nack = [] \<and> packed ex_nack = [] \<and>
   (\<exists>p' bytes h q'. SetPacketIds ex_nack [0xffff, 0, 7, 300] = Some p' \<and>
    Build (Nack_Create p') (Nack_BlockLength p') (\<lambda>_. 0) = Some bytes \<and>
    CommonHeader_Parse ex_header (bytes @ []) = Some (True, h) \<and> Nack_Parse ex_nack h = Some (True, q') \<and>
    packet_ids q' = [0xffff, 0, 7, 300])"
proof -
  have e: "packet_ids ex_nack = []" "packed ex_nack = []" by (simp_all add: ex_nack_def)
  have "ascending_from 0xffff [0xffff, 0, 7, 300]" by code_simp
  with nack_roundtrip [OF e, of "[0xffff, 0, 7, 300]" "\<lambda>_. 0" ex_header "[]" ex_nack "0xffff"] e
  show ?thesis by auto
qed

text \<open>
  C14: When a NACK does not fit in one packet of max_length bytes it is split.  Unless max_length is
  below 16, Create succeeds: the callback gets non-empty pieces of at most max_length bytes, and
  together they are a sequence of complete NACK packets which carry the items in order, each item once.
\<close>

theorem nack_fragments:
  assumes "nack_valid p" "max_length \<le> IP_PACKET_SIZE" "16 \<le> max_length"
  shows "\<exists>pieces frags. BuildCallback (Nack_Create p) max_length fill = Some (True, pieces) \<and>
    list_all (\<lambda>piece. 0 < length piece \<and> length piece \<le> max_length) pieces \<and>
    concat frags = packed p \<and> [] \<notin> set frags \<and> concat pieces = concat (map (nack_wire p) frags)"
  using nack.BuildCallback_pieces [OF assms(1,2), of fill] assms(3)
  by (auto simp: nack_emits_def Nack_BlockLength_def kHeaderLength_def)

theorem nack_fragments_witness:
  "\<exists>pieces. BuildCallback (Nack_Create (ex_nack\<lparr>packed := replicate 3 \<lparr>first_pid = 1, bitmask = 0\<rparr>\<rparr>)) 20 (\<lambda>_. 0)
     = Some (True, pieces) \<and> list_all (\<lambda>piece. 0 < length piece \<and> length piece \<le> 20) pieces"
proof -
  let ?p = "ex_nack\<lparr>packed := replicate 3 \<lparr>first_pid = 1, bitmask = 0\<rparr>\<rparr>"
  have "nack_valid ?p" by (simp add: nack_valid_def ex_nack_def)
  from nack_fragments [OF this, of 20 "\<lambda>_. 0"] show ?thesis by (auto simp: IP_PACKET_SIZE_def)
qed

section \<open>Buffers and compound packets\<close>





section \<open>Sequence numbers\<close>

text \<open>
  C17: Of two different sequence numbers exactly one is newer than the other, LatestSequenceNumber
  does not depend on the order of its arguments, and a number less than half the range ahead is newer
  even when it has wrapped around.
\<close>

theorem sequence_number_order:
  assumes "0 < n" "n < 2 ^ 15"
  shows "(a = b \<or> IsNewerSequenceNumber a b \<longleftrightarrow> \<not> (a \<noteq> b \<and> IsNewerSequenceNumber b a)) \<and>
    \<not> IsNewerSequenceNumber a a \<and> LatestSequenceNumber a b = LatestSequenceNumber b a \<and>
    IsNewerSequenceNumber (a + word_of_nat n) a"
  using IsNewer_asym [of a b] IsNewer_asym [of b a] IsNewer_asym [of a a] IsNewer_total [of a b]
    IsNewer_add [of n a] assms
  unfolding IsNewerSequenceNumber_def LatestSequenceNumber_def by auto

theorem sequence_number_order_witness:
  "IsNewerSequenceNumber (0xfff0 + word_of_nat 100) 0xfff0 \<and> LatestSequenceNumber 3 0xfff0 = LatestSequenceNumber 0xfff0 3"
  using sequence_number_order [of 100 "0xfff0" 3] by simp

text \<open>
  C18: An Unwrapper recovers the true values of a stream of 16-bit sequence numbers across their
  wrap-arounds, in order or not, and no int64_t overflows: the first value is below 2^16, consecutive
  values are less than 2^15 apart, none is negative (the code does not wrap backwards past 0), and none
  is above 2^63 - 2^16.
\<close>

theorem unwrapper_recovers:
  assumes "xs \<noteq> [] \<longrightarrow> hd xs < 2 ^ 16" "\<forall>x \<in> set xs. 0 \<le> x \<and> x \<le> 2 ^ 63 - 2 ^ 16"
    and "successively (\<lambda>x y. \<bar>y - x\<bar> < 2 ^ 15) xs"
  shows "unwrap_run None (map word_of_int xs :: u16 list) = Some xs"
  using unwrap_run_all [of xs, where 'u = 16] assms by simp

theorem unwrapper_recovers_witness:
  "unwrap_run None (map word_of_int [65530, 65540, 65534, 98000, 130000, 131080] :: u16 list) =
    Some [65530, 65540, 65534, 98000, 130000, 131080]"
  by (rule unwrapper_recovers) simp_all

section \<open>Transport-wide congestion control feedback\<close>

text \<open>
  C19: The status chunk under construction.  A delta size that CanAdd admits is appended by Add; when
  it is refused, Emit gives a chunk that decodes to the delta sizes at the front and keeps the rest;
  EncodeLast gives a chunk that decodes to all of them.
\<close>

theorem last_chunk_codec:
  assumes ok: "lc_ok lc" and d: "d \<le> 2" and fresh: "length (delta_sizes lc0) = 14"
  shows "\<exists>can. CanAdd lc d = Some can \<and>
    (can \<longrightarrow> (\<exists>lc'. Add lc d = Some lc' \<and> lc_ok lc' \<and> AppendTo lc' [] = Some (the (AppendTo lc []) @ [d]))) \<and>
    (\<not> can \<longrightarrow> (\<exists>chunk lc' lc1. Emit lc = Some (chunk, lc') \<and> lc_ok lc' \<and> Decode lc0 chunk 65535 = Some lc1 \<and>
       AppendTo lc [] = AppendTo lc' (the (AppendTo lc1 [])))) \<and>
    (0 < chunk_size lc \<longrightarrow> (\<exists>chunk lc1. EncodeLast lc = Some chunk \<and>
       Decode lc0 chunk (chunk_size lc) = Some lc1 \<and> AppendTo lc1 [] = AppendTo lc []))"
proof -
  obtain can where can: "CanAdd lc d = Some can" using CanAdd_eq [OF ok d] by blast
  have add: "\<exists>lc'. Add lc d = Some lc' \<and> lc_ok lc' \<and> AppendTo lc' [] = Some (the (AppendTo lc []) @ [d])" if can
    using Add_contents [OF ok d] can that by (auto simp: AppendTo_contents ok)
  have emit: "\<exists>chunk lc' lc1. Emit lc = Some (chunk, lc') \<and> lc_ok lc' \<and> Decode lc0 chunk 65535 = Some lc1 \<and>
       AppendTo lc [] = AppendTo lc' (the (AppendTo lc1 []))" if "\<not> can"
  proof -
    obtain r lc' where e: "Emit lc = Some (r, lc')" "lc_ok lc'" "lc_contents lc = symbols r @ lc_contents lc'"
      using Emit_symbols [OF ok d] can \<open>\<not> can\<close> by auto
    obtain lc1 where "Decode lc0 r 65535 = Some lc1" "lc_ok lc1" "lc_contents lc1 = symbols r"
      using Decode_contents [OF fresh, of r 65535] length_symbols [of r] by auto
    with e show ?thesis by (simp add: AppendTo_contents ok)
  qed
  have encode: "\<exists>chunk lc1. EncodeLast lc = Some chunk \<and> Decode lc0 chunk (chunk_size lc) = Some lc1 \<and>
       AppendTo lc1 [] = AppendTo lc []" if "0 < chunk_size lc"
    using EncodeLast_symbols [OF ok that] Decode_contents [OF fresh, of _ "chunk_size lc"]
    by (metis AppendTo_contents ok)
  show ?thesis by (intro exI [of _ can] conjI impI can add emit encode)
qed

theorem last_chunk_codec_witness:
  "lc_ok ex_chunk \<and> (\<exists>chunk lc1. EncodeLast ex_chunk = Some chunk \<and>
     Decode ex_chunk chunk (chunk_size ex_chunk) = Some lc1 \<and> AppendTo lc1 [] = AppendTo ex_chunk [])"
proof -
  have "lc_ok ex_chunk" "length (delta_sizes ex_chunk) = 14" "0 < chunk_size ex_chunk"
    by (simp_all add: lc_ok_def ex_chunk_def lc_contents_def)
  with last_chunk_codec [of ex_chunk 0 ex_chunk] show ?thesis by auto
qed

text \<open>
  C20: Transport feedback is consistent.  An object that was filled by any sequence of adding packets and
  parsing, with one exception, passes its own consistency check; one that was only filled by adding
  stays within the maximal packet size.  The exception is exact: parsing a transport feedback packet into such
  an object never faults, and the result fails the check just when the object does not include timestamps
  but the packet has receive deltas for packets that it reports as received.
\<close>

theorem transport_feedback_consistent:
  assumes "tf_reachable only_added p"
  shows "IsConsistent fill p = Some True \<and> (only_added \<longrightarrow> size_bytes p \<le> kMaxSizeBytes) \<and>
    (wf_header h \<and> packet_type h = kRtpfbPacketType \<and> count_or_format h = kTransportFeedbackFeedbackMessageType \<longrightarrow>
      (\<exists>ok q. TransportFeedback_Parse p h = Some (ok, q) \<and> IsConsistent fill q = Some (\<not> stale_deltas p h ok q)))"
proof -
  note inv = tf_reachable_inv [OF assms]
  have "\<exists>ok q. TransportFeedback_Parse p h = Some (ok, q) \<and> IsConsistent fill q = Some (\<not> stale_deltas p h ok q)"
    if h: "wf_header h" "packet_type h = kRtpfbPacketType" "count_or_format h = kTransportFeedbackFeedbackMessageType"
  proof -
    obtain ok q where q: "TransportFeedback_Parse p h = Some (ok, q)"
        "if stale_deltas p h ok q then \<forall>fill. IsConsistent fill q = Some False else tf_inv False q"
      using TransportFeedback_Parse_inv [OF h inv] by blast
    then show ?thesis by (cases "stale_deltas p h ok q") (simp_all add: tf_inv_IsConsistent)
  qed
  moreover have "only_added \<longrightarrow> size_bytes p \<le> kMaxSizeBytes" using inv unfolding tf_inv_def by blast
  ultimately show ?thesis using tf_inv_IsConsistent [OF inv] by blast
qed

lemma ex_tf_added: "\<exists>q. AddReceivedPacket ex_tf 0 1000 = Some (True, q) \<and> num_seq_no q \<noteq> 0 \<and> include_timestamps q"
  by (simp add: AddReceivedPacket_def ex_tf_def TransportFeedback_new_def Let_def delta_full_def kTimeWrapPeriodUs_def
      kBaseScaleFactor_def kDeltaScaleFactor_def signed_divide_int_def signed_modulo_int_def AddDeltaSize_def
      kMaxReportedPackets_def LastChunk_new_def LastChunk_Clear_def LastChunk_Empty_def kMaxSizeBytes_def
      kTransportFeedbackHeaderSizeBytes_def kChunkSizeBytes_def CanAdd_def Add_def capacities load_def store_def upt_rec)

theorem transport_feedback_consistent_witness:
  "\<exists>q. AddReceivedPacket ex_tf 0 1000 = Some (True, q) \<and> IsConsistent (\<lambda>_. 0) q = Some True \<and>
     size_bytes q \<le> kMaxSizeBytes"
proof -
  have ex: "tf_reachable True ex_tf" unfolding ex_tf_def by (rule tf_init)
  obtain q where q: "AddReceivedPacket ex_tf 0 1000 = Some (True, q)" using ex_tf_added by blast
  with transport_feedback_consistent [OF tf_add [OF ex q], of "\<lambda>_. 0" large_delta_header] show ?thesis by blast
qed

text \<open>
  C21: Adding a received packet with timestamps never faults.  When it is accepted, it is appended,
  every packet between it and the previous one gets the status "not received" (and an entry in the list
  of all packets, if lost packets are included), it gets the status of a one-byte or two-byte delta,
  and its time is represented within 125 us (modulo the wrap period of the base time); when it is refused,
  the received packets stay as they are.  Only a packet that is newer than the last one and whose delta
  fits in 16 bits is accepted, and it is accepted when there is room: the count of packets stays below 2^16,
  and two bytes for every packet in between and four more fit into the maximal size.
\<close>

theorem add_received_packet:
  assumes "tf_reachable m p" "include_timestamps p"
  shows "\<exists>ok q. AddReceivedPacket p seq t = Some (ok, q) \<and>
    (ok \<longrightarrow> (\<exists>r k. received_packets q = received_packets p @ [r] \<and> sequence_number r = seq \<and>
       base_seq_no q + num_seq_no q = seq + 1 \<and>
       tf_statuses q = tf_statuses p @ replicate (seq_gap p seq) 0 @ [if small_delta r then 1 else 2] \<and>
       (include_lost p \<longrightarrow>
         all_packets q = all_packets p @ lost_packets (base_seq_no p + num_seq_no p) (seq_gap p seq) @ [r]) \<and>
       \<bar>t - last_timestamp_us q - k * kTimeWrapPeriodUs\<bar> \<le> 125)) \<and>
    (\<not> ok \<longrightarrow> received_packets q = received_packets p \<and> last_timestamp_us q = last_timestamp_us p) \<and>
    (ok \<longrightarrow> admissible p seq (delta_full t (last_timestamp_us p))) \<and>
    (admissible p seq (delta_full t (last_timestamp_us p)) \<and> room_for p seq \<longrightarrow> ok)"
proof -
  define full where "full = delta_full t (last_timestamp_us p)"
  let ?r = "ReceivedPacket seq (word_of_int full)"
  obtain ok q where q: "AddReceivedPacket p seq t = Some (ok, q)" "added_packet p seq full ok q"
      "ok \<longrightarrow> admissible p seq full" "admissible p seq full \<and> room_for p seq \<longrightarrow> ok"
    using AddReceivedPacket_inv [OF tf_reachable_inv [OF assms(1)], of seq t] assms(2) unfolding full_def by auto
  obtain k where "\<bar>t - last_timestamp_us p - (k * kTimeWrapPeriodUs + full * kDeltaScaleFactor)\<bar> \<le> 125"
    using delta_full_rounds unfolding full_def by blast
  then have k: "\<bar>t - (last_timestamp_us p + full * kDeltaScaleFactor) - k * kTimeWrapPeriodUs\<bar> \<le> 125"
    by (simp add: algebra_simps)
  have small: "small_delta ?r \<longleftrightarrow> 0 \<le> full \<and> full \<le> 0xff" if ok
    using q(3) sint_delta [of full] that by (simp add: admissible_def small_delta_def ReceivedPacket_def)
  have "\<exists>r k. received_packets q = received_packets p @ [r] \<and> sequence_number r = seq \<and>
       base_seq_no q + num_seq_no q = seq + 1 \<and>
       tf_statuses q = tf_statuses p @ replicate (seq_gap p seq) 0 @ [if small_delta r then 1 else 2] \<and>
       (include_lost p \<longrightarrow>
         all_packets q = all_packets p @ lost_packets (base_seq_no p + num_seq_no p) (seq_gap p seq) @ [r]) \<and>
       \<bar>t - last_timestamp_us q - k * kTimeWrapPeriodUs\<bar> \<le> 125" if ok
    using q(2) k small [OF that] that unfolding added_packet_def
    by (intro exI [of _ ?r] exI [of _ k]) (auto simp: ReceivedPacket_def)
  moreover have "\<not> ok \<longrightarrow> received_packets q = received_packets p \<and> last_timestamp_us q = last_timestamp_us p"
    using q(2) by (simp add: added_packet_def)
  ultimately show ?thesis using q(1,3,4) unfolding full_def by blast
qed

theorem add_received_packet_witness:
  "\<exists>q r. AddReceivedPacket ex_tf 3 1000 = Some (True, q) \<and> received_packets q = [r] \<and> sequence_number r = 3 \<and>
     all_packets q = [LostPacket 0, LostPacket 1, LostPacket 2, r]"
proof -
  have ex: "tf_reachable True ex_tf" "include_timestamps ex_tf"
    unfolding ex_tf_def by (rule tf_init, simp add: TransportFeedback_new_def)
  have tf: "last_timestamp_us ex_tf = 0" "include_lost ex_tf" "seq_gap ex_tf 3 = 3" "base_seq_no ex_tf + num_seq_no ex_tf = 0"
      "received_packets ex_tf = []" "all_packets ex_tf = []"
    by (simp_all add: ex_tf_def TransportFeedback_new_def seq_gap_def)
  have "admissible ex_tf 3 (delta_full 1000 (last_timestamp_us ex_tf))" "room_for ex_tf 3"
    by code_simp+
  moreover have "lost_packets 0 3 = [LostPacket 0, LostPacket 1, LostPacket 2]" by code_simp
  ultimately show ?thesis
    using add_received_packet [OF ex, of 3 1000] by (auto simp: tf)
qed

text \<open>
  C22: Transport feedback that was filled only by adding packets, with timestamps and at least one packet,
  survives the round trip, padding included: SSRCs, sequence numbers, the received packets with their deltas and the status of every
  packet come back, and the base time as the 24-bit signed value that the format carries.
\<close>

theorem transport_feedback_roundtrip:
  assumes "tf_reachable True p" "num_seq_no p \<noteq> 0" "include_timestamps p"
  shows "\<exists>bytes h r. Build (TransportFeedback_Create p) (TransportFeedback_BlockLength p) fill = Some bytes \<and>
    CommonHeader_Parse h0 (bytes @ rest) = Some (True, h) \<and> NextPacket h = rest \<and>
    TransportFeedback_Parse (TransportFeedback_new fill' timestamps lost) h = Some (True, r) \<and>
    sender_ssrc r = sender_ssrc p \<and> rtpfb_media_ssrc r = rtpfb_media_ssrc p \<and>
    base_seq_no r = base_seq_no p \<and> num_seq_no r = num_seq_no p \<and> feedback_seq r = feedback_seq p \<and>
    base_time_ticks r = signed_take_bit 23 (base_time_ticks p) \<and>
    received_packets r = received_packets p \<and> tf_statuses r = tf_statuses p"
proof -
  have p: "tf_valid p" using tf_reachable_inv [OF assms(1)] assms(2) by (simp add: tf_valid_def)
  let ?q = "TransportFeedback_new fill' timestamps lost"
  have q: "length (delta_sizes (tf_last_chunk ?q)) = 14"
    using tf_inv_new [of True fill' timestamps lost] by (simp add: tf_inv_def lc_ok_def)
  obtain h where h: "CommonHeader_Parse h0 (tf_wire p @ rest) = Some (True, h)" "NextPacket h = rest"
      "packet_type h = kRtpfbPacketType" "count_or_format h = kTransportFeedbackFeedbackMessageType"
      "payload_view h = tf_body p" "payload_size h = length (tf_body p)"
    using tf_wire_header [OF p] by blast
  with tf.Build_wire [OF p, of fill] TransportFeedback_Parse_wire [OF p assms(3) q h(3-6)] show ?thesis by blast
qed

theorem transport_feedback_roundtrip_witness:
  "\<exists>q bytes h r. AddReceivedPacket ex_tf 0 1000 = Some (True, q) \<and>
    Build (TransportFeedback_Create q) (TransportFeedback_BlockLength q) (\<lambda>_. 0) = Some bytes \<and>
    CommonHeader_Parse ex_header (bytes @ []) = Some (True, h) \<and>
    TransportFeedback_Parse ex_tf h = Some (True, r) \<and> received_packets r = received_packets q"
proof -
  have ex: "tf_reachable True ex_tf" unfolding ex_tf_def by (rule tf_init)
  obtain q where q: "AddReceivedPacket ex_tf 0 1000 = Some (True, q)" "num_seq_no q \<noteq> 0" "include_timestamps q"
    using ex_tf_added by blast
  have "tf_reachable True q" using ex q(1) by (rule tf_add)
  from transport_feedback_roundtrip [OF this q(2,3), of "\<lambda>_. 0" ex_header "[]" "\<lambda>_. 0" True True,
      folded ex_tf_def] q(1) show ?thesis by blast
qed

text \<open>
  C23: Parsing transport feedback from arbitrary bytes never faults, and what it accepts is consistent.
\<close>

theorem transport_feedback_parse_from:
  "\<exists>r. TransportFeedback_ParseFrom fill h0 buffer = Some r \<and>
    (\<forall>p. r = Some p \<longrightarrow> IsConsistent fill' p = Some True)"
  using ParseFrom_consistent by blast

theorem transport_feedback_parse_from_witness:
  "\<exists>p. TransportFeedback_ParseFrom (\<lambda>_. 0) ex_header
      [0x8f, 205, 0, 5, 0, 0, 0, 1, 0, 0, 0, 2, 0, 1, 0, 1, 0, 0, 0, 0, 0xe0, 0, 0, 5] = Some (Some p) \<and>
    IsConsistent (\<lambda>_. 0) p = Some True"
proof -
  let ?b = "[0x8f, 205, 0, 5, 0, 0, 0, 1, 0, 0, 0, 2, 0, 1, 0, 1, 0, 0, 0, 0, 0xe0, 0, 0, 5]"
  let ?r = "TransportFeedback_ParseFrom (\<lambda>_. 0) ex_header ?b"
  have "map_option (map_option feedback_seq) ?r = Some (Some 0)" by code_simp
  then obtain p where "?r = Some (Some p)" by auto
  with transport_feedback_parse_from [of "\<lambda>_. 0" ex_header ?b "\<lambda>_. 0"] show ?thesis by auto
qed

text \<open>
  C24: The base time delta between two feedback packets is the difference of the base times up to
  the wrap period, in the half period around zero.
\<close>

theorem base_delta_is_nearest:
  assumes "\<bar>GetBaseTimeUs p - prev\<bar> \<le> kTimeWrapPeriodUs"
  shows "\<bar>GetBaseDeltaUs p prev\<bar> \<le> kTimeWrapPeriodUs div 2 \<and>
    (\<exists>k. GetBaseTimeUs p - prev = GetBaseDeltaUs p prev + k * kTimeWrapPeriodUs)"
  using GetBaseDeltaUs_spec [OF assms] by blast

theorem base_delta_is_nearest_witness:
  "\<bar>GetBaseDeltaUs ex_tf 1073741760000\<bar> \<le> kTimeWrapPeriodUs div 2"
proof -
  have "\<bar>GetBaseTimeUs ex_tf - 1073741760000\<bar> \<le> kTimeWrapPeriodUs"
    by (simp add: GetBaseTimeUs_def ex_tf_def TransportFeedback_new_def kTimeWrapPeriodUs_def kBaseScaleFactor_def
        kDeltaScaleFactor_def)
  from base_delta_is_nearest [OF this] show ?thesis by blast
qed

text \<open>
  Parse never sets include_timestamps_ back to true: an object that was used without timestamps
  does not pass its own consistency check after a packet with timestamps has been parsed into it.
\<close>

theorem parse_keeps_no_timestamps:
  "(do { (ok, q) \<leftarrow> TransportFeedback_Parse (TransportFeedback_new (\<lambda>_. 0) False True) large_delta_header;
         c \<leftarrow> IsConsistent (\<lambda>_. 0) q;
         Some (ok, include_timestamps q, c) }) = Some (True, False, False)"
  by code_simp



section \<open>Forward error correction\<close>

text \<open>
  C26: The packet mask for m media packets and f FEC packets, of either table, generated or looked up, with or
  without unequal protection, is produced without an access out of bounds and is well formed: every FEC
  packet protects some media packet, every media packet is protected, and no bit beyond column m is set.
\<close>

theorem fec_masks_protect:
  assumes "PickTable mask_type m = Some table" "0 < f" "f \<le> m" "m \<le> kUlpfecMaxMediaPackets" "imp \<le> m" "PacketMaskSize m = Some bytes"
    "f * bytes \<le> length pm" "\<forall>j < f * bytes. pm ! j = 0"
  shows "\<exists>pm'. GeneratePacketMasks m f imp uep table pm = Some pm' \<and> length pm' = length pm \<and> mask_ok m f bytes pm'"
proof -
  have "table \<in> {kPacketMaskRandomTbl, kPacketMaskBurstyTbl}"
    using assms(1) by (auto simp: PickTable_def bind_eq_Some_conv split: if_splits)
  moreover have "m \<le> 48" "bytes = mask_bytes m" using assms(4,6) by (simp_all add: kUlpfecMaxMediaPackets_def PacketMaskSize_eq)
  ultimately show ?thesis using GeneratePacketMasks_ok [of table f m imp pm uep] assms(2,3,5,7,8) by simp
qed

theorem fec_masks_protect_witness:
  "\<exists>pm. GeneratePacketMasks 20 5 3 True kPacketMaskRandomTbl (replicate 288 0) = Some pm \<and> length pm = length (replicate 288 0 :: u8 list) \<and>
    mask_ok 20 5 6 pm"
  by (rule fec_masks_protect [of kFecMaskBursty]) (simp_all add: PickTable_def PacketMaskSize_def kUlpfecMaxMediaPackets_def
      kUlpfecPacketMaskSizeLBitClear_def kUlpfecPacketMaskSizeLBitSet_def kPacketMaskBurstyTbl_def)

text \<open>
  C27: When there are gaps in the sequence numbers of the media packets, a column of zeros is inserted for
  every missing number: in the new mask, of the size that the whole span needs, row r covers an offset
  exactly when a media packet has this offset and row r covered it before.  A span of more than 48 numbers
  is refused.  Nothing is read or written out of bounds.
\<close>

theorem fec_gaps_become_zeros:
  assumes "map ParseSequenceNumber ps = map Some seqs" "media_seqs seqs" "length ps \<le> kUlpfecMaxMediaPackets" "f \<le> length ps"
    "\<forall>r < f. \<forall>c < 8 * mask_bytes (length ps). mask_bit pm (mask_bytes (length ps)) r c \<longrightarrow> c < length ps"
    "length pm = 288" "length tmp = 288" "span = Suc (unat (last seqs - hd seqs))"
  shows "\<exists>pm' tmp' res. InsertZerosInPacketMasks kMaxMediaPackets ps f (mask_bytes (length ps)) pm tmp = Some (res, pm', tmp') \<and>
    (if span \<le> kMaxMediaPackets
     then res = Some span \<and> length pm' = 288 \<and> length tmp' = 288 \<and>
       (\<forall>r < f. \<forall>c < 8 * mask_bytes span. mask_bit pm' (mask_bytes span) r c \<longleftrightarrow>
         (\<exists>i < length seqs. c = unat (seqs ! i - hd seqs) \<and> mask_bit pm (mask_bytes (length ps)) r i))
     else res = None)"
proof -
  have "seqs \<noteq> []" using assms(2) by (simp add: media_seqs_def)
  then have span: "Suc (seq_offset seqs (length seqs - 1)) = span" using assms(8) by (simp add: seq_offset_def last_conv_nth)
  have k: "kMaxMediaPackets = 48" "length ps \<le> 48" using assms(3) by (simp_all add: kUlpfecMaxMediaPackets_def kMaxMediaPackets_def)
  from InsertZerosInPacketMasks_spec [OF assms(1,2) k(2) assms(4-7)] show ?thesis
    unfolding span spread_ok_def seq_offset_def [symmetric] k(1) by blast
qed

text \<open>Two media packets with the sequence numbers 65535 and 2, and a one-packet block.\<close>

definition ex_media :: "u8 list list" where
  "ex_media = [[0x80, 96, 0xff, 0xff, 0, 0, 0, 1, 0, 0, 0, 7, 42, 43], [0x90, 96, 0, 2, 0, 0, 0, 1, 0, 0, 0, 7, 44]]"

definition ex_seqs :: "u16 list" where
  "ex_seqs = [0xffff, 2]"

lemma ex_media_parse: "map ParseSequenceNumber ex_media = map Some ex_seqs" "media_seqs ex_seqs"
proof -
  show "map ParseSequenceNumber ex_media = map Some ex_seqs" by code_simp
  have "unat (0xffff - 0xffff :: u16) < unat (2 - 0xffff :: u16)" by code_simp
  then show "media_seqs ex_seqs" by (simp add: media_seqs_def ex_seqs_def)
qed

theorem fec_gaps_become_zeros_witness:
  "\<exists>pm' tmp' res. InsertZerosInPacketMasks kMaxMediaPackets ex_media 1 2 (replicate 288 0) (replicate 288 0) = Some (res, pm', tmp') \<and>
    res = Some 4"
proof -
  have "mask_bytes (length ex_media) = 2" by (simp add: ex_media_def mask_bytes_def)
  moreover have "Suc (unat (last ex_seqs - hd ex_seqs)) = 4" by code_simp
  ultimately show ?thesis
    using fec_gaps_become_zeros [OF ex_media_parse, of 1 "replicate 288 0" "replicate 288 0" 4]
    by (simp add: ex_media_def kUlpfecMaxMediaPackets_def kMaxMediaPackets_def mask_bit_def) blast
qed

definition ex_fec :: received_fec_packet where
  "ex_fec = \<lparr>fec_seq_num = 1, fec_ssrc = 9, protected_packets = [], fec_header_size = 0, protected_ssrc = 0, seq_num_base = 0,
     packet_mask_offset = 0, packet_mask_size = 0, protection_length = 0, fec_pkt = []\<rparr>"

text \<open>
  C28: Header round trip, for ULPFEC and FlexFEC.  What a writer puts into the header of a packet that has
  room for it, the reader of the format gets back: size of the header, source of the media packets (ULPFEC
  takes the source of the FEC packet itself), base sequence number, mask (followed by zeros where the format
  has a longer one) and length of the protected data.  The recovery fields and the payload are unchanged.
\<close>

theorem fec_header_roundtrip:
  assumes "(writer, reader, owner) \<in> {(ulpfec_writer, ulpfec_reader, fec_ssrc p), (flexfec_writer, flexfec_reader, media_ssrc)}"
    and "n \<in> {2, 6}" "n \<le> length pm" "MinPacketMaskSize writer pm n = Some ms" "FecHeaderSize writer ms = Some hs"
    and "hs \<le> data_size d" "data_size d \<le> length (data_mem d)" "data_size d - hs < 65536"
  shows "\<exists>d'. FinalizeFecHeader writer media_ssrc base pm n d = Some d' \<and> data_size d' = data_size d \<and>
    (\<exists>p'. ReadFecHeader reader (p\<lparr>fec_pkt := packet_bytes d'\<rparr>) = Some (True, p') \<and>
      header_read hs owner base (take n pm) d (p\<lparr>fec_pkt := packet_bytes d'\<rparr>) p')"
proof -
  have "\<exists>d'. FinalizeFecHeader writer media_ssrc base pm n d = Some d' \<and> data_size d' = data_size d \<and>
    length (data_mem d') = length (data_mem d) \<and> (\<forall>q. fec_pkt q = packet_bytes d' \<and> fec_ssrc q = fec_ssrc p \<longrightarrow>
      (\<exists>p'. ReadFecHeader reader q = Some (True, p') \<and> header_read hs owner base (take n pm) d q p'))"
    using assms(1)
  proof (elim insertE emptyE)
    assume w: "(writer, reader, owner) = (ulpfec_writer, ulpfec_reader, fec_ssrc p)"
    with ulpfec.finalize [of n pm ms hs d media_ssrc base] assms(2-8) show ?thesis by force
  next
    assume w: "(writer, reader, owner) = (flexfec_writer, flexfec_reader, media_ssrc)"
    with flexfec.finalize [of n pm ms hs d media_ssrc base] assms(2-8) show ?thesis by force
  qed
  then obtain d' where d': "FinalizeFecHeader writer media_ssrc base pm n d = Some d'" "data_size d' = data_size d"
      "\<And>q. fec_pkt q = packet_bytes d' \<Longrightarrow> fec_ssrc q = fec_ssrc p \<Longrightarrow>
        \<exists>p'. ReadFecHeader reader q = Some (True, p') \<and> header_read hs owner base (take n pm) d q p'"
    by blast
  from d'(1,2) d'(3) [of "p\<lparr>fec_pkt := packet_bytes d'\<rparr>"] show ?thesis by simp
qed

theorem fec_header_roundtrip_witness:
  "\<exists>d' p'. FinalizeFecHeader flexfec_writer 7 1000 [0x80, 0x01] 2 \<lparr>data_mem = replicate 30 1, data_size = 26\<rparr> = Some d' \<and>
     ReadFecHeader flexfec_reader (ex_fec\<lparr>fec_pkt := packet_bytes d'\<rparr>) = Some (True, p') \<and>
     header_read 24 7 1000 [0x80, 0x01] \<lparr>data_mem = replicate 30 1, data_size = 26\<rparr> (ex_fec\<lparr>fec_pkt := packet_bytes d'\<rparr>) p'"
proof -
  have "MinPacketMaskSize flexfec_writer [0x80, 0x01] 2 = Some 6" "FecHeaderSize flexfec_writer 6 = Some 24" by code_simp+
  then show ?thesis
    using fec_header_roundtrip [of flexfec_writer flexfec_reader 7 ex_fec 7 2 "[0x80, 0x01]" 6 24 "\<lparr>data_mem = replicate 30 1, data_size = 26\<rparr>" 1000]
    by auto
qed

text \<open>
  C29: Encoding.  For a block of media packets of 12 to 1480 bytes with ascending sequence numbers (modulo
  2^16) that span less than 48, EncodeFec succeeds with the number of packets that NumFecPackets says, and
  the receiver of any of them sees the parity of some of the media packets (fec_carries): their sequence
  numbers in the mask, the exclusive or of their headers, lengths and payloads in the packet.  Every FEC
  packet protects something and every media packet is protected.
\<close>

theorem fec_encode_carries:
  assumes "(writer, reader, media_src) \<in> {(ulpfec_writer, ulpfec_reader, fec_src), (flexfec_writer, flexfec_reader, ssrc)}"
    and "encoder_inv fec" "header_writer fec = writer"
    and "map ParseSequenceNumber ps = map Some seqs" "media_seqs seqs" "seq_offset seqs (length seqs - 1) < kMaxMediaPackets"
    and "\<forall>p \<in> set ps. kRtpHeaderSize \<le> length p \<and> length p \<le> IP_PACKET_SIZE - 20" "ParseSsrc (hd ps) = Some ssrc"
    and "NumFecPackets (length ps) (unat pf) = Some f" "0 < f" "imp \<le> length ps"
  shows "\<exists>rows out fec'. EncodeFec fill ps pf imp uep mask_type fec = Some (0, out, fec') \<and> encoder_inv fec' \<and>
    length rows = f \<and> length out = f \<and>
    (\<forall>r < f. rows ! r \<noteq> [] \<and> sorted_wrt (<) (rows ! r) \<and> set (rows ! r) \<subseteq> {..<length ps}) \<and> (\<forall>i < length ps. \<exists>r < f. i \<in> set (rows ! r)) \<and>
    (\<forall>r < f. fec_carries reader fec_src media_src (map (\<lambda>i. (seqs ! i, ps ! i)) (rows ! r)) (packet_bytes (out ! r)))"
  using assms(1)
proof (elim insertE emptyE)
  assume "(writer, reader, media_src) = (ulpfec_writer, ulpfec_reader, fec_src)"
  then have w: "header_writer fec = ulpfec_writer" "reader = ulpfec_reader" "media_src = fec_src" "writer_MaxMediaPackets ulpfec_writer = kMaxMediaPackets"
    using assms(3) by (auto simp: ulpfec_writer_def)
  show ?thesis
    using ulpfec.EncodeFec_spec [OF assms(2) w(1,4) assms(4-11), of fill uep mask_type] unfolding w(2,3) by blast
next
  assume "(writer, reader, media_src) = (flexfec_writer, flexfec_reader, ssrc)"
  then have w: "header_writer fec = flexfec_writer" "reader = flexfec_reader" "media_src = ssrc" "writer_MaxMediaPackets flexfec_writer = kMaxMediaPackets"
    using assms(3) by (auto simp: flexfec_writer_def)
  show ?thesis
    using flexfec.EncodeFec_spec [OF assms(2) w(1,4) assms(4-11), of fill uep mask_type] unfolding w(2,3) by blast
qed

lemma ex_media_sizes:
  "seq_offset ex_seqs (length ex_seqs - 1) < kMaxMediaPackets" "\<forall>p \<in> set ex_media. kRtpHeaderSize \<le> length p \<and> length p \<le> IP_PACKET_SIZE - 20"
  "ParseSsrc (hd ex_media) = Some 7" "NumFecPackets (length ex_media) (unat (100 :: u8)) = Some 1"
proof -
  show "seq_offset ex_seqs (length ex_seqs - 1) < kMaxMediaPackets" by code_simp
  show "ParseSsrc (hd ex_media) = Some 7" by code_simp
  show "NumFecPackets (length ex_media) (unat (100 :: u8)) = Some 1" by code_simp
qed (simp add: ex_media_def kRtpHeaderSize_def IP_PACKET_SIZE_def)

theorem fec_encode_carries_witness:
  "\<exists>rows out fec'. EncodeFec (\<lambda>_. 0) ex_media 100 0 False kFecMaskRandom (CreateFlexfec (\<lambda>_. 0) 9 7) = Some (0, out, fec') \<and> encoder_inv fec' \<and>
    length rows = 1 \<and> length out = 1 \<and>
    (\<forall>r < 1. rows ! r \<noteq> [] \<and> sorted_wrt (<) (rows ! r) \<and> set (rows ! r) \<subseteq> {..<length ex_media}) \<and> (\<forall>i < length ex_media. \<exists>r < 1. i \<in> set (rows ! r)) \<and>
    (\<forall>r < 1. fec_carries flexfec_reader 9 7 (map (\<lambda>i. (ex_seqs ! i, ex_media ! i)) (rows ! r)) (packet_bytes (out ! r)))"
proof (rule fec_encode_carries [OF _ _ _ ex_media_parse ex_media_sizes])
  show "encoder_inv (CreateFlexfec (\<lambda>_. 0) 9 7)" by (simp add: CreateFlexfec_def encoder_inv_new flexfec_writer_def)
qed (simp_all add: CreateFlexfec_def ForwardErrorCorrection_def)

text \<open>
  C30: The decoder is sound.  It is created for ULPFEC or FlexFEC and given, in any order, with any losses and
  repetitions, media packets that were sent and packets that EncodeFec has generated for blocks of media
  packets that were sent.  Then no step faults, and every packet in the list of recovered packets, whether
  received or reconstructed, is the packet that was sent with its sequence number, byte for byte.  The media
  packets are RTP packets (version 2) of 12 to 1480 bytes.
\<close>

theorem fec_decoder_sound:
  assumes "(fec, writer) \<in> {(CreateUlpfec fill' msrc, ulpfec_writer), (CreateFlexfec fill' own msrc, flexfec_writer)}" "src = own_ssrc fec"
    and "\<forall>a \<in> set arrivals. if is_fec a then rcv_ssrc a = src \<and> fec_of_block writer sent msrc (rcv_pkt a)
      else rcv_ssrc a = msrc \<and> sent_packet sent msrc (rcv_seq_num a) (rcv_pkt a)"
  shows "\<exists>rs fec'. decode_all min_diff fill arrivals [] fec = Some (rs, fec') \<and>
    (\<forall>r \<in> set rs. rec_ssrc r = msrc \<and> sent (rec_seq_num r) = Some (rec_pkt r))"
  using assms(1)
proof (elim insertE emptyE)
  assume f: "(fec, writer) = (CreateUlpfec fill' msrc, ulpfec_writer)"
  then have src: "src = msrc" using assms(2) by (simp add: CreateUlpfec_def ForwardErrorCorrection_def)
  have "\<forall>a \<in> set arrivals. ulpfec_sent.rcv_ok msrc msrc sent a"
    using assms(3) f src ulpfec.fec_of_block_carries [of sent msrc _ msrc]
    by (auto simp: ulpfec_sent.rcv_ok_def ulpfec_writer_def split: if_splits)
  from ulpfec_sent.decode_all_new [OF this, of min_diff fill fill' ulpfec_writer] f show ?thesis by (auto simp: CreateUlpfec_def sent_packet_def)
next
  assume f: "(fec, writer) = (CreateFlexfec fill' own msrc, flexfec_writer)"
  then have src: "src = own" using assms(2) by (simp add: CreateFlexfec_def ForwardErrorCorrection_def)
  have "\<forall>a \<in> set arrivals. flexfec_sent.rcv_ok own msrc sent a"
    using assms(3) f src flexfec.fec_of_block_carries [of sent msrc _ own]
    by (auto simp: flexfec_sent.rcv_ok_def flexfec_writer_def split: if_splits)
  from flexfec_sent.decode_all_new [OF this, of min_diff fill fill' flexfec_writer] f show ?thesis by (auto simp: CreateFlexfec_def sent_packet_def)
qed

definition ex_sent :: "u16 \<Rightarrow> u8 list option" where
  "ex_sent = map_of (zip ex_seqs ex_media)"

definition ex_arrival :: "bool \<Rightarrow> u32 \<Rightarrow> u16 \<Rightarrow> u8 list \<Rightarrow> fec_received_packet" where
  "ex_arrival fec ssrc seq_num data = \<lparr>rcv_ssrc = ssrc, rcv_seq_num = seq_num, is_fec = fec, is_recovered = False, rcv_pkt = data\<rparr>"

lemma ex_sent_packet: "i < 2 \<Longrightarrow> sent_packet ex_sent 7 (ex_seqs ! i) (ex_media ! i)"
proof -
  have "sent_packet ex_sent 7 (ex_seqs ! 0) (ex_media ! 0)" "sent_packet ex_sent 7 (ex_seqs ! 1) (ex_media ! 1)"
    unfolding sent_packet_def media_ok_def by code_simp+
  then show "i < 2 \<Longrightarrow> sent_packet ex_sent 7 (ex_seqs ! i) (ex_media ! i)" by (auto simp: less_2_cases_iff)
qed

lemma ex_block: "media_block ex_sent 7 ex_seqs ex_media"
  using ex_media_parse(2) ex_media_sizes(1) ex_sent_packet by (simp add: media_block_def) (simp add: ex_seqs_def ex_media_def)

theorem fec_decoder_sound_witness:
  "\<exists>data rs fec'. fec_of_block flexfec_writer ex_sent 7 data \<and>
     decode_all (\<lambda>a b. min (a - b) (b - a)) (\<lambda>_. 0) [ex_arrival False 7 0xffff (ex_media ! 0), ex_arrival True 9 1 data] []
       (CreateFlexfec (\<lambda>_. 0) 9 7) = Some (rs, fec') \<and>
     (\<forall>r \<in> set rs. rec_ssrc r = 7 \<and> ex_sent (rec_seq_num r) = Some (rec_pkt r))"
proof -
  let ?fec = "CreateFlexfec (\<lambda>_. 0) 9 7"
  have e: "encoder_inv ?fec" "header_writer ?fec = flexfec_writer" "own_ssrc ?fec = 9"
    by (simp add: CreateFlexfec_def encoder_inv_new flexfec_writer_def) (simp_all add: CreateFlexfec_def ForwardErrorCorrection_def)
  obtain out fec' where o: "EncodeFec (\<lambda>_. 0) ex_media 100 0 False kFecMaskRandom ?fec = Some (0, out, fec')" "length out = 1"
    using flexfec.EncodeFec_spec [OF e(1,2) _ ex_media_parse ex_media_sizes, of 0 "\<lambda>_. 0" False kFecMaskRandom]
    by (auto simp: flexfec_writer_def)
  then have "out ! 0 \<in> set out" by simp
  then have b: "fec_of_block flexfec_writer ex_sent 7 (packet_bytes (out ! 0))" unfolding fec_of_block_def using ex_block e(1,2) o(1) by blast
  have m: "sent_packet ex_sent 7 0xffff (ex_media ! 0)" using ex_sent_packet [of 0] by (simp add: ex_seqs_def)
  from fec_decoder_sound [of ?fec flexfec_writer "\<lambda>_. 0" 7 9 9 "[ex_arrival False 7 0xffff (ex_media ! 0), ex_arrival True 9 1 (packet_bytes (out ! 0))]" ex_sent
      "\<lambda>a b. min (a - b) (b - a)" "\<lambda>_. 0"] b m e(3)
  show ?thesis by (auto simp: ex_arrival_def)
qed

text \<open>
  C31: The decoder always returns.  Whatever the FEC packets contain, and for any media packets of 12 to 1500
  bytes, in any order, no step faults and the loop that restarts after every recovered packet ends.  Then no
  FEC packet is kept from which a packet could still be recovered (each misses two or more), at most 192
  recovered packets and 48 FEC packets are kept, and every recovered packet has 12 to 1500 bytes and the
  source of the protected stream.
\<close>

theorem fec_decoder_returns:
  assumes "fec \<in> {CreateUlpfec fill' msrc, CreateFlexfec fill' own msrc}" "src = own_ssrc fec"
    and "\<forall>a \<in> set arrivals. if is_fec a then rcv_ssrc a = src \<and> length (rcv_pkt a) < 2 ^ 32
      else rcv_ssrc a = msrc \<and> kRtpHeaderSize \<le> length (rcv_pkt a) \<and> length (rcv_pkt a) \<le> IP_PACKET_SIZE"
  shows "\<exists>rs fec'. decode_all min_diff fill arrivals [] fec = Some (rs, fec') \<and>
    (\<forall>f \<in> set (received_fec_packets fec'). 1 < NumCoveredPacketsMissing f) \<and>
    length rs \<le> kMaxTrackedMediaPackets \<and> length (received_fec_packets fec') \<le> kMaxFecPackets \<and>
    (\<forall>r \<in> set rs. rec_ssrc r = msrc \<and> kRtpHeaderSize \<le> length (rec_pkt r) \<and> length (rec_pkt r) \<le> IP_PACKET_SIZE)"
  using assms(1)
proof (elim insertE emptyE)
  assume f: "fec = CreateUlpfec fill' msrc"
  then have src: "src = msrc" using assms(2) by (simp add: CreateUlpfec_def ForwardErrorCorrection_def)
  have "\<forall>a \<in> set arrivals. ulpfec_any.rcv_ok msrc msrc a"
    using assms(3) src by (auto simp: ulpfec_any.rcv_ok_def any_bytes_def packet_sized_def)
  from ulpfec_any.decode_all_new [OF this, of min_diff fill fill' ulpfec_writer] f show ?thesis by (auto simp: CreateUlpfec_def packet_sized_def)
next
  assume f: "fec = CreateFlexfec fill' own msrc"
  then have src: "src = own" using assms(2) by (simp add: CreateFlexfec_def ForwardErrorCorrection_def)
  have "\<forall>a \<in> set arrivals. flexfec_any.rcv_ok own msrc a"
    using assms(3) src by (auto simp: flexfec_any.rcv_ok_def any_bytes_def packet_sized_def)
  from flexfec_any.decode_all_new [OF this, of min_diff fill fill' flexfec_writer] f show ?thesis by (auto simp: CreateFlexfec_def packet_sized_def)
qed

theorem fec_decoder_returns_witness:
  "\<exists>rs fec'. decode_all (\<lambda>a b. min (a - b) (b - a)) (\<lambda>_. 0) [ex_arrival True 7 3 [1, 2, 3], ex_arrival False 7 0xffff (ex_media ! 0)] []
      (CreateUlpfec (\<lambda>_. 0) 7) = Some (rs, fec') \<and> length rs \<le> kMaxTrackedMediaPackets"
proof -
  have "length (ex_media ! 0) = 14" "own_ssrc (CreateUlpfec (\<lambda>_. 0) 7) = 7"
    by (simp_all add: ex_media_def CreateUlpfec_def ForwardErrorCorrection_def)
  with fec_decoder_returns [of "CreateUlpfec (\<lambda>_. 0) 7" "\<lambda>_. 0" 7 0 7 "[ex_arrival True 7 3 [1, 2, 3], ex_arrival False 7 0xffff (ex_media ! 0)]"
      "\<lambda>a b. min (a - b) (b - a)" "\<lambda>_. 0"]
  show ?thesis by (auto simp: ex_arrival_def kRtpHeaderSize_def IP_PACKET_SIZE_def)
qed

text \<open>
  C32: Recovery is complete for media packets of 12 to 1480 bytes (RTP, version 2); large_packet_not_recovered
  below shows that larger ones may be dropped.  A block of media packets is encoded, and a receiver gets some of the media packets
  and some of the FEC packets, in any order and possibly more than once.  Every media packet that arrives
  is in the list of recovered packets; and if an FEC packet arrives and all but at most one of the media
  packets it protects arrive, then all of these are in the list in the end, with the bytes that were sent.
  As every media packet is protected, any single loss among the media packets is repaired when the FEC
  packets arrive.  The sequence numbers of a stream lie in a window of 2^14, and MinDiff is the distance
  modulo 2^16 in the shorter direction.
\<close>

theorem fec_recovery_complete:
  assumes "(fec, writer) \<in> {(CreateUlpfec fill' msrc, ulpfec_writer), (CreateFlexfec fill' own msrc, flexfec_writer)}" "src = own_ssrc fec"
    and "media_block sent msrc seqs ps" "dom sent = set seqs" "\<forall>s \<in> set seqs. in_window mbase s"
    and "encoder_inv enc" "header_writer enc = writer" "EncodeFec fill ps pf imp uep mask_type enc = Some (0, out, enc')" "out \<noteq> []"
    and "length fseqs = length out" "distinct fseqs" "\<forall>s \<in> set fseqs. in_window fbase s" "src = msrc \<longrightarrow> mbase = fbase"
    and "\<And>a b. min_diff a b = min (a - b) (b - a)"
    and "\<forall>a \<in> set arrivals. if is_fec a then rcv_ssrc a = src \<and> (\<exists>r < length out. rcv_seq_num a = fseqs ! r \<and> rcv_pkt a = packet_bytes (out ! r))
      else rcv_ssrc a = msrc \<and> (\<exists>i < length ps. rcv_seq_num a = seqs ! i \<and> rcv_pkt a = ps ! i)"
  shows "\<exists>rows rs fec'. length rows = length out \<and> (\<forall>r < length out. set (rows ! r) \<subseteq> {..<length ps}) \<and>
    (\<forall>i < length ps. \<exists>r < length out. i \<in> set (rows ! r)) \<and>
    decode_all min_diff dfill arrivals [] fec = Some (rs, fec') \<and>
    (\<forall>i < length ps. (\<exists>a \<in> set arrivals. \<not> is_fec a \<and> rcv_seq_num a = seqs ! i) \<longrightarrow>
       (\<exists>p \<in> set rs. rec_seq_num p = seqs ! i \<and> rec_pkt p = ps ! i)) \<and>
    (\<forall>r < length out. \<forall>j. (\<exists>a \<in> set arrivals. is_fec a \<and> rcv_seq_num a = fseqs ! r) \<and>
       (\<forall>i \<in> set (rows ! r) - {j}. \<exists>a \<in> set arrivals. \<not> is_fec a \<and> rcv_seq_num a = seqs ! i) \<longrightarrow>
       (\<forall>i \<in> set (rows ! r). \<exists>p \<in> set rs. rec_seq_num p = seqs ! i \<and> rec_pkt p = ps ! i))"
  using assms(1)
proof (elim insertE emptyE)
  assume f: "(fec, writer) = (CreateUlpfec fill' msrc, ulpfec_writer)"
  then have e: "fec = ForwardErrorCorrection fill' ulpfec_reader ulpfec_writer src msrc" "src = msrc" "header_writer enc = ulpfec_writer"
    using assms(2,7) by (simp_all add: CreateUlpfec_def ForwardErrorCorrection_def)
  have "writer_MaxMediaPackets ulpfec_writer = kMaxMediaPackets" by (simp add: ulpfec_writer_def)
  from ulpfec.block_repaired [OF ulpfec_tracker.fec_tracker_axioms this e(2) assms(3-6) e(3) assms(8-15)] show ?thesis unfolding e(1) .
next
  assume f: "(fec, writer) = (CreateFlexfec fill' own msrc, flexfec_writer)"
  then have e: "fec = ForwardErrorCorrection fill' flexfec_reader flexfec_writer src msrc" "header_writer enc = flexfec_writer"
    using assms(2,7) by (simp_all add: CreateFlexfec_def ForwardErrorCorrection_def)
  have "writer_MaxMediaPackets flexfec_writer = kMaxMediaPackets" by (simp add: flexfec_writer_def)
  from flexfec.block_repaired [OF flexfec_tracker.fec_tracker_axioms this refl assms(3-6) e(2) assms(8-15)] show ?thesis unfolding e(1) .
qed

theorem fec_recovery_complete_witness:
  "\<exists>data rs fec'. fec_of_block flexfec_writer ex_sent 7 data \<and>
     decode_all (\<lambda>a b. min (a - b) (b - a)) (\<lambda>_. 0) [ex_arrival True 9 5 data, ex_arrival False 7 2 (ex_media ! 1)] []
       (CreateFlexfec (\<lambda>_. 0) 9 7) = Some (rs, fec') \<and>
     (\<exists>p \<in> set rs. rec_seq_num p = 0xffff \<and> rec_pkt p = ex_media ! 0)"
proof -
  let ?fec = "CreateFlexfec (\<lambda>_. 0) 9 7"
  have e: "encoder_inv ?fec" "header_writer ?fec = flexfec_writer" "own_ssrc ?fec = 9"
    by (simp add: CreateFlexfec_def encoder_inv_new flexfec_writer_def) (simp_all add: CreateFlexfec_def ForwardErrorCorrection_def)
  obtain out fec' where o: "EncodeFec (\<lambda>_. 0) ex_media 100 0 False kFecMaskRandom ?fec = Some (0, out, fec')" "length out = 1"
    using flexfec.EncodeFec_spec [OF e(1,2) _ ex_media_parse ex_media_sizes, of 0 "\<lambda>_. 0" False kFecMaskRandom]
    by (auto simp: flexfec_writer_def)
  then have "out ! 0 \<in> set out" by simp
  then have b: "fec_of_block flexfec_writer ex_sent 7 (packet_bytes (out ! 0))" unfolding fec_of_block_def using ex_block e(1,2) o(1) by blast
  let ?as = "[ex_arrival True 9 5 (packet_bytes (out ! 0)), ex_arrival False 7 2 (ex_media ! 1)]"
  have n: "length ex_media = 2" "ex_seqs ! 0 = 0xffff" "ex_seqs ! 1 = 2" by (simp_all add: ex_media_def ex_seqs_def)
  have sent: "dom ex_sent = set ex_seqs" unfolding ex_sent_def by (rule dom_map_of_zip) (simp add: ex_media_def ex_seqs_def)
  have win: "\<forall>s \<in> set ex_seqs. in_window 0xffff s" by code_simp
  have as: "\<forall>a \<in> set ?as. if is_fec a then rcv_ssrc a = 9 \<and> (\<exists>r < length out. rcv_seq_num a = [5] ! r \<and> rcv_pkt a = packet_bytes (out ! r))
      else rcv_ssrc a = 7 \<and> (\<exists>i < length ex_media. rcv_seq_num a = ex_seqs ! i \<and> rcv_pkt a = ex_media ! i)"
    using o(2) n by (auto simp: ex_arrival_def intro: exI [of _ "1 :: nat"])
  have c: "(?fec, flexfec_writer) \<in> {(CreateUlpfec (\<lambda>_. 0) 7, ulpfec_writer), (?fec, flexfec_writer)}" by simp
  have f: "out \<noteq> []" "length [5 :: u16] = length out" "distinct [5 :: u16]" "\<forall>s \<in> set [5 :: u16]. in_window 0 s" "(9 :: u32) = 7 \<longrightarrow> (0xffff :: u16) = 0"
    using o(2) by (auto simp: in_window_def)
  obtain rows rs fec2 where r: "\<forall>r < length out. set (rows ! r) \<subseteq> {..<length ex_media}" "\<forall>i < length ex_media. \<exists>r < length out. i \<in> set (rows ! r)"
      "decode_all (\<lambda>a b. min (a - b) (b - a)) (\<lambda>_. 0) ?as [] ?fec = Some (rs, fec2)"
      "\<forall>r < length out. \<forall>j. (\<exists>a \<in> set ?as. is_fec a \<and> rcv_seq_num a = [5] ! r) \<and>
        (\<forall>i \<in> set (rows ! r) - {j}. \<exists>a \<in> set ?as. \<not> is_fec a \<and> rcv_seq_num a = ex_seqs ! i) \<longrightarrow>
        (\<forall>i \<in> set (rows ! r). \<exists>p \<in> set rs. rec_seq_num p = ex_seqs ! i \<and> rec_pkt p = ex_media ! i)"
    using fec_recovery_complete [OF c e(3) [symmetric] ex_block sent win e(1,2) o(1) f refl as, of "\<lambda>_. 0"] by (elim exE conjE)
  have rows: "0 \<in> set (rows ! 0)" "set (rows ! 0) \<subseteq> {0, 1}" using r(1,2) o(2) n(1) by force+
  have "\<forall>i \<in> set (rows ! 0) - {0}. \<exists>a \<in> set ?as. \<not> is_fec a \<and> rcv_seq_num a = ex_seqs ! i"
    using rows(2) n(3) by (auto simp: ex_arrival_def)
  moreover have pos: "0 < length out" using o(2) by simp
  moreover have "\<exists>a \<in> set ?as. is_fec a \<and> rcv_seq_num a = [5] ! 0" by (simp add: ex_arrival_def)
  ultimately have "\<exists>p \<in> set rs. rec_seq_num p = ex_seqs ! 0 \<and> rec_pkt p = ex_media ! 0"
    using r(4) [rule_format, OF _ _ rows(1), of 0] pos by blast
  then have "\<exists>p \<in> set rs. rec_seq_num p = 0xffff \<and> rec_pkt p = ex_media ! 0" unfolding n(2) .
  with r(3) b show ?thesis by blast
qed

text \<open>
  The limit that FinishPacketRecovery puts on the size of a recovered packet is 12 bytes too small: it
  compares the size with the RTP header to the size of an IP packet without it.  A packet of 1489 to 1500
  bytes, which fits, is dropped.
\<close>

theorem large_packet_not_recovered:
  assumes "kRtpHeaderSize \<le> length (data_mem d)" "ReadBE16 (data_mem d) 2 = Some len" "IP_PACKET_SIZE - kRtpHeaderSize < unat len + kRtpHeaderSize"
  shows "FinishPacketRecovery fill f seq_num d = Some None"
proof -
  let ?mem = "data_mem d"
  have "?mem \<noteq> []" using assms(1) by (auto simp: kRtpHeaderSize_def)
  moreover have "ReadBE16 (?mem[0 := b]) 2 = Some len" for b using assms(2) by (simp add: ReadBE16_def load_def bind_eq_Some_conv split: if_splits)
  ultimately show ?thesis using assms(3) by (simp add: FinishPacketRecovery_def Let_def load_def store_def)
qed

theorem large_packet_not_recovered_witness:
  "unat (1480 :: u16) + kRtpHeaderSize \<le> IP_PACKET_SIZE \<and>
   FinishPacketRecovery (\<lambda>_. 0) ex_fec 1 \<lparr>data_mem = [0x80, 96, 5, 0xc8] @ replicate 1496 0, data_size = 1492\<rparr> = Some None"
proof -
  have "ReadBE16 ([0x80, 96, 5, 0xc8] @ replicate 1496 0) 2 = Some 1480" by (simp add: ReadBE16_def load_def nth_append)
  then show ?thesis
    using large_packet_not_recovered [of "\<lparr>data_mem = [0x80, 96, 5, 0xc8] @ replicate 1496 0, data_size = 1492\<rparr>" 1480 "\<lambda>_. 0" ex_fec 1]
    by (simp add: kRtpHeaderSize_def IP_PACKET_SIZE_def)
qed

section \<open>Signalling server\<close>

text \<open>
  C33: How the network splits the data does not matter: a connection that gets a request in any
  pieces ends in the state in which it would be after getting all the data at once.
\<close>

theorem connection_chunking:
  assumes "pieces \<noteq> []"
  shows "feed doc_root files c pieces = feed doc_root files c [concat pieces]"
proof (cases "conn_pending c = Reading")
  case True
  with feed_pieces [OF assms True] feed_pieces [of "[concat pieces]" c] show ?thesis by simp
next
  case False
  then show ?thesis by (cases pieces) simp_all
qed

theorem connection_chunking_witness:
  "feed ''/srv'' ex_files (conn_start (connection_new 0 0 Status_ok)) [''GET /'', ''x'', '' HTTP''] =
   feed ''/srv'' ex_files (conn_start (connection_new 0 0 Status_ok)) [''GET /x HTTP'']"
  using connection_chunking [of "[''GET /'', ''x'', '' HTTP'']" "''/srv''" ex_files "conn_start (connection_new 0 0 Status_ok)"]
  by simp

text \<open>
  C34: The request parser accepts every well-formed request, with version numbers below 2^31 - 48,
  reads exactly its bytes, and gives back method, URI, version and headers.
\<close>

theorem http_request_roundtrip:
  assumes "wf_request r" "http_version_major r + 48 < 2 ^ 31" "http_version_minor r + 48 < 2 ^ 31"
  shows "\<exists>st. parse request_parser_new (request_new major minor) (print_request r @ rest) = Some (Good, rest, st, r)"
  using parse_print_request [OF assms] by blast

theorem http_request_roundtrip_witness:
  "wf_request ex_request \<and>
   (\<exists>st. parse request_parser_new (request_new 7 7) (print_request ex_request @ ''rest'') = Some (Good, ''rest'', st, ex_request))"
proof -
  have wf: "wf_request ex_request" by code_simp
  have "http_version_major ex_request + 48 < 2 ^ 31" "http_version_minor ex_request + 48 < 2 ^ 31"
    by (simp_all add: ex_request_def)
  from http_request_roundtrip [OF wf this] wf show ?thesis by blast
qed

text \<open>
  C35: Every request that the parser accepts is well formed, whatever bytes it gets, and the only way
  in which it can leave defined behaviour is the overflow of a version number.
\<close>

theorem http_parser_sound:
  "(\<forall>rest st r. parse request_parser_new (request_new major minor) input = Some (Good, rest, st, r) \<longrightarrow> wf_request r) \<and>
   (parse request_parser_new (request_new major minor) input = None \<longrightarrow>
     (\<exists>pre c post st r. input = pre @ c # post \<and>
        parse request_parser_new (request_new major minor) pre = Some (Indeterminate, [], st, r) \<and> is_digit (char_int c) \<and>
        (2 ^ 31 \<le> http_version_major r * 10 + char_int c \<or> 2 ^ 31 \<le> http_version_minor r * 10 + char_int c)))"
  using parse_inv [OF parser_inv_new] parse_None [OF parser_inv_new] by blast

theorem http_parser_sound_witness:
  "\<exists>rest st r. parse request_parser_new (request_new 0 0) (''GET / HTTP/1.0'' @ [CHR 0x0D, CHR 0x0A, CHR 0x0D, CHR 0x0A]) =
     Some (Good, rest, st, r) \<and> wf_request r"
proof -
  let ?i = "''GET / HTTP/1.0'' @ [CHR 0x0D, CHR 0x0A, CHR 0x0D, CHR 0x0A]"
  have "map_option fst (parse request_parser_new (request_new 0 0) ?i) = Some Good" by code_simp
  then obtain rest st r where "parse request_parser_new (request_new 0 0) ?i = Some (Good, rest, st, r)" by auto
  with http_parser_sound [of 0 0 ?i] show ?thesis by blast
qed

text \<open>
  A request with a long version number overflows the int that holds it, which is undefined
  behaviour and not a bad request.
\<close>

theorem http_version_overflow:
  "parse request_parser_new (request_new 0 0) ''GET / HTTP/9999999999.0'' = None"
  by code_simp

text \<open>
  C36: Decoding undoes percent-encoding, for any choice of the characters that are left as they are
  (but for the percent sign and the plus sign).
\<close>

theorem url_decode_encode:
  assumes "\<forall>c. keep c \<longrightarrow> c \<noteq> CHR ''%'' \<and> c \<noteq> CHR ''+''"
  shows "url_decode (url_encode keep s) = Some s"
  using url_decode_loop_encode [of keep s "[]"] assms by (simp add: url_decode_def)

theorem url_decode_encode_witness:
  "url_decode (url_encode (\<lambda>c. c = CHR ''/'') ''/a b%c'') = Some ''/a b%c''"
  by (rule url_decode_encode) simp

text \<open>
  An escape need not be two hexadecimal digits: a sign, and a first digit followed by anything,
  are accepted and the two characters behind the percent sign are dropped.
\<close>

theorem url_decode_sloppy:
  "url_decode ''%-1'' = Some [CHR 0xFF] \<and> url_decode ''%5g'' = Some [CHR 0x05] \<and> url_decode ''%g5'' = None"
  by code_simp

text \<open>
  C37: The request handler is confined to the document root: its reply depends on no file but those
  whose path is the root followed by a path that starts with a slash and has no two dots in a row.
\<close>

theorem handler_confined:
  assumes "\<forall>p. safe_path p \<longrightarrow> files (c_str (doc_root @ p)) = files' (c_str (doc_root @ p))"
  shows "handle_request doc_root files req rep = handle_request doc_root files' req rep"
  using assms by (intro handle_request_safe) blast

theorem handler_confined_witness:
  "handle_request ''/srv'' ex_files ex_request ex_reply =
   handle_request ''/srv'' (ex_files(''/etc/passwd'' \<mapsto> ''secret'')) ex_request ex_reply"
proof (rule handler_confined, intro allI impI)
  fix p :: string
  have "c_str (''/srv'' @ p) = ''/srv'' @ c_str p" by (simp add: c_str_def)
  then show "ex_files (c_str (''/srv'' @ p)) = (ex_files(''/etc/passwd'' \<mapsto> ''secret'')) (c_str (''/srv'' @ p))"
    by simp
qed

text \<open>
  C38: Every reply of the handler is 200, 400 or 404 and announces the length of its content; a 200
  reply has exactly the contents of a file below the document root; and its bytes are a status line
  with the status code, the headers, an empty line and the content.
\<close>

theorem handler_replies:
  assumes "reply_content rep0 = []" "rep = handle_request doc_root files req rep0"
  shows "content_length_ok rep \<and> reply_status rep \<in> {Status_ok, Status_bad_request, Status_not_found} \<and>
    (reply_status rep = Status_ok \<longrightarrow> (\<exists>p. safe_path p \<and> files (c_str (doc_root @ p)) = Some (reply_content rep))) \<and>
    (\<exists>phrase. concat (to_buffers rep) = ''HTTP/1.0 '' @ decimal (status_code (reply_status rep)) @ '' '' @ phrase @ crlf @
       concat (map print_header (reply_headers rep)) @ crlf @ reply_content rep)"
  using handle_request_reply [of doc_root files req rep0] handle_request_ok [OF _ assms(1), of doc_root files req]
    to_buffers_wire [of rep] assms(2) by simp

theorem handler_replies_witness:
  "content_length_ok (handle_request ''/srv'' ex_files ex_request ex_reply) \<and>
   reply_status (handle_request ''/srv'' ex_files ex_request ex_reply) = Status_ok \<and>
   (\<exists>p. safe_path p \<and> ex_files (c_str (''/srv'' @ p)) =
      Some (reply_content (handle_request ''/srv'' ex_files ex_request ex_reply)))"
proof -
  have "reply_status (handle_request ''/srv'' ex_files ex_request ex_reply) = Status_ok" by code_simp
  moreover have "reply_content ex_reply = []" by (simp add: ex_reply_def)
  ultimately show ?thesis using handler_replies [OF _ refl, of ex_reply "''/srv''" ex_files ex_request] by blast
qed

text \<open>
  C39: In every reachable state of the server, with any interleaving of the completion handlers: a
  connection is managed exactly as long as its socket is open, and then it has an operation
  outstanding; what is being written is the reply, with its length announced, and it is an error page
  or the contents of a file below the document root; and as long as the server has not been stopped it
  waits for the next client, while afterwards no connection is managed.
\<close>

theorem server_invariant:
  assumes "server_reachable doc_root files s"
  shows "(\<forall>i \<in> managed s. \<exists>c. conns s i = Some c \<and> socket_open c \<and> conn_pending c \<noteq> NoOp) \<and>
    (\<forall>i c. conns s i = Some c \<longrightarrow> (i \<in> managed s \<longleftrightarrow> socket_open c) \<and>
       (\<forall>bufs. conn_pending c = Writing bufs \<longrightarrow>
          bufs = to_buffers (conn_reply c) \<and> reply_ok doc_root files (conn_reply c))) \<and>
    (if acceptor_open s then accepting s else managed s = {})"
proof -
  note inv = server_invD [OF server_reachable_inv [OF assms]]
  have ok: "(i \<in> managed s \<longleftrightarrow> socket_open c) \<and> (i \<in> managed s \<longrightarrow> conn_pending c \<noteq> NoOp) \<and>
      (\<forall>bufs. conn_pending c = Writing bufs \<longrightarrow>
         bufs = to_buffers (conn_reply c) \<and> reply_ok doc_root files (conn_reply c))" if "conns s i = Some c" for i c
    using inv(1) [OF that] by (auto simp: conn_ok_def)
  have "\<forall>i \<in> managed s. \<exists>c. conns s i = Some c \<and> socket_open c \<and> conn_pending c \<noteq> NoOp" using ok inv(2) by blast
  moreover have "if acceptor_open s then accepting s else managed s = {}"
    using inv(3) server_reachable_accepting [OF assms] by simp
  ultimately show ?thesis using ok by blast
qed

theorem server_invariant_witness:
  "\<exists>s. s = on_accept 0 (connection_new 0 0 Status_ok) NoError server_new \<and>
     (\<forall>i \<in> managed s. \<exists>c. conns s i = Some c \<and> socket_open c \<and> conn_pending c \<noteq> NoOp) \<and> 0 \<in> managed s"
proof -
  let ?s = "on_accept 0 (connection_new 0 0 Status_ok) NoError server_new"
  have "server_step '''' (\<lambda>_. None) server_new ?s"
    by (rule step_accept) (simp_all add: server_new_defs)
  with reach_init have reach: "server_reachable '''' (\<lambda>_. None) ?s" by (rule reach_step)
  have "0 \<in> managed ?s"
    by (simp add: on_accept_def server_new_defs manager_start_def set_conn_def)
  then show ?thesis by (intro exI [of _ ?s] conjI refl server_invariant [OF reach, THEN conjunct1])
qed

text \<open>
  C40: A server that has been stopped ends: from any state that is reached with the acceptor closed, at
  most one more completion handler runs, and two per connection; and when no handler can run, no
  operation is outstanding, so that \<^verbatim>\<open>io_context::run\<close> returns.
\<close>

theorem server_stops:
  assumes "server_reachable doc_root files s" "\<not> acceptor_open s" "server_run doc_root files n s s'"
  shows "n \<le> 1 + 2 * card (dom (conns s)) \<and>
    (quiescent s' \<longleftrightarrow> \<not> (\<exists>s''. server_step doc_root files s' s''))"
proof -
  note inv = server_reachable_inv [OF assms(1)]
  have w: "n + work_left s' \<le> work_left s" "server_inv doc_root files s'" "\<not> acceptor_open s'"
    using server_run_work [OF assms(3) inv assms(2)] by simp_all
  have fin: "finite (dom (conns s'))" and "\<not> awaiting_stop s'" using server_invD(4,5) [OF w(2)] w(3) by simp_all
  then have "quiescent s' \<Longrightarrow> work_left s' = 0" using work_left_zero by blast
  then have "quiescent s' \<Longrightarrow> \<not> server_step doc_root files s' s''" for s''
    using server_step_work [OF _ w(2,3)] by fastforce
  moreover have "\<not> quiescent s' \<Longrightarrow> \<exists>s''. server_step doc_root files s' s''"
    using server_step_progress [OF _ fin] by blast
  ultimately show ?thesis using w(1) work_left_bound [OF server_invD(5) [OF inv]] by fastforce
qed

theorem server_stops_witness:
  "\<exists>s s'. s = on_signal (on_accept 0 (connection_new 0 0 Status_ok) NoError server_new) \<and>
     server_run '''' (\<lambda>_. None) 1 s s' \<and> (1 :: nat) \<le> 1 + 2 * card (dom (conns s)) \<and>
     (quiescent s' \<longleftrightarrow> \<not> (\<exists>s''. server_step '''' (\<lambda>_. None) s' s''))"
proof -
  let ?a = "on_accept 0 (connection_new 0 0 Status_ok) NoError server_new" and ?f = "\<lambda>_. None"
  have "server_step '''' ?f server_new ?a" by (rule step_accept) (simp_all add: server_new_defs)
  with reach_init have a: "server_reachable '''' ?f ?a" by (rule reach_step)
  have "server_step '''' ?f ?a (on_signal ?a)"
    by (rule step_signal) (simp add: on_accept_def server_new_defs manager_start_def set_conn_def)
  with a have s: "server_reachable '''' ?f (on_signal ?a)" by (rule reach_step)
  have "server_step '''' ?f (on_signal ?a) (on_accept 1 (connection_new 0 0 Status_ok) NoError (on_signal ?a))"
    by (rule step_accept) (simp_all add: on_accept_def server_new_defs manager_start_def set_conn_def)
  from run_step [OF run_nil this] have
    run: "server_run '''' ?f 1 (on_signal ?a) (on_accept 1 (connection_new 0 0 Status_ok) NoError (on_signal ?a))" by simp
  with server_stops [OF s _ run] show ?thesis by (intro exI conjI refl) simp_all
qed

end
